(* ===== verification/Prelude.thy ===== *)
theory Prelude
  imports Main "HOL-Library.Multiset" "HOL-Library.Signed_Division"
begin

text \<open>
  Shared ground of the development: Go's 64-bit integers and durations, the string
  functions of the standard library the sources call (on byte strings, as Go's strings
  are), decimal and base-16 integers as \<^verbatim>\<open>math/big\<close> reads and prints them, and the
  programs with state and errors that model the functions returning \<^verbatim>\<open>(T, error)\<close>.
\<close>

section \<open>Go integers and durations\<close>

text \<open>
  Go's \<^verbatim>\<open>int\<close>, \<^verbatim>\<open>int64\<close> and \<^verbatim>\<open>time.Duration\<close> are 64-bit two's complement numbers.
  They are modelled as \<^typ>\<open>int\<close>; every addition, product or shift that can leave the
  range is wrapped with \<open>wrap64\<close>, and \<^verbatim>\<open>/\<close> is the truncating \<open>sdiv\<close>.
\<close>

definition min_int64 :: int where
  "min_int64 = - (2 ^ 63)"

definition max_int64 :: int where
  "max_int64 = 2 ^ 63 - 1"

definition wrap64 :: "int \<Rightarrow> int" where
  "wrap64 k = (k + 2 ^ 63) mod 2 ^ 64 - 2 ^ 63"

lemma wrap64_id: "min_int64 \<le> k \<Longrightarrow> k \<le> max_int64 \<Longrightarrow> wrap64 k = k"
  by (simp add: wrap64_def min_int64_def max_int64_def)

lemma wrap64_range: "min_int64 \<le> wrap64 k \<and> wrap64 k \<le> max_int64"
proof -
  have "0 \<le> (k + 2 ^ 63) mod 2 ^ 64" and "(k + 2 ^ 63) mod 2 ^ 64 < (2::int) ^ 64"
    by (rule pos_mod_sign, simp) (rule pos_mod_bound, simp)
  then show ?thesis
    by (simp add: wrap64_def min_int64_def max_int64_def)
qed

lemma wrap64_small: "0 \<le> k \<Longrightarrow> k < 2 ^ 63 \<Longrightarrow> wrap64 k = k"
  by (rule wrap64_id) (simp_all add: min_int64_def max_int64_def)

lemma sdiv_nonneg: "0 \<le> a \<Longrightarrow> 0 < b \<Longrightarrow> a sdiv b = a div (b::int)"
  by (cases "a = 0") (simp_all add: signed_divide_int_def)

text \<open>\<^verbatim>\<open>time.Time\<close> is a number of nanoseconds; \<^verbatim>\<open>t.Sub(u)\<close> saturates.\<close>

definition time_sub :: "int \<Rightarrow> int \<Rightarrow> int" where
  "time_sub t u = max min_int64 (min max_int64 (t - u))"

lemma time_sub_ge: "d \<le> t - u \<Longrightarrow> d \<le> max_int64 \<Longrightarrow> d \<le> time_sub t u"
  by (simp add: time_sub_def)

lemma time_sub_le_iff: "min_int64 \<le> d \<Longrightarrow> d < max_int64 \<Longrightarrow> time_sub t u \<le> d \<longleftrightarrow> t - u \<le> d"
  by (auto simp: time_sub_def min_int64_def max_int64_def)

definition nanosecond :: int where "nanosecond = 1"
definition millisecond :: int where "millisecond = 1000000"
definition second :: int where "second = 1000000000"

section \<open>Strings\<close>

text \<open>
  A Go string is a sequence of bytes, here a \<^typ>\<open>string\<close> (a character is a byte).
\<close>

definition has_prefix :: "string \<Rightarrow> string \<Rightarrow> bool" where
  "has_prefix s p \<longleftrightarrow> take (length p) s = p"

definition trim_prefix :: "string \<Rightarrow> string \<Rightarrow> string" where
  "trim_prefix s p = (if has_prefix s p then drop (length p) s else s)"

definition ascii_lower :: "char \<Rightarrow> char" where
  "ascii_lower c =
     (let n = of_char c :: nat in if 65 \<le> n \<and> n \<le> 90 then char_of (n + 32) else c)"

definition is_ascii :: "string \<Rightarrow> bool" where
  "is_ascii s \<longleftrightarrow> list_all (\<lambda>c. of_char c < (128 :: nat)) s"

text \<open>
  \<^verbatim>\<open>strings.ToLower\<close>: an all-ASCII string is lowered byte by byte; any other string goes
  through the Unicode tables, which are the argument \<open>ul\<close> of the definitions that use it.
\<close>

definition to_lower :: "(string \<Rightarrow> string) \<Rightarrow> string \<Rightarrow> string" where
  "to_lower ul s = (if is_ascii s then map ascii_lower s else ul s)"

lemma eq_char_of: "c = char_of n \<longleftrightarrow> of_char c = (n mod 256 :: nat)"
  using char_of_eq_iff [of n c] by (auto simp: take_bit_eq_mod)

lemma ascii_lower_idem [simp]: "ascii_lower (ascii_lower c) = ascii_lower c"
  by (auto simp: ascii_lower_def Let_def)

lemma ascii_lower_ascii: "of_char c < (128 :: nat) \<Longrightarrow> of_char (ascii_lower c) < (128 :: nat)"
  by (auto simp: ascii_lower_def Let_def)

lemma is_ascii_lower: "is_ascii s \<Longrightarrow> is_ascii (map ascii_lower s)"
  by (auto simp: is_ascii_def list_all_iff ascii_lower_ascii)

lemma to_lower_idem: "is_ascii s \<Longrightarrow> to_lower ul (to_lower ul s) = to_lower ul s"
  by (simp add: to_lower_def is_ascii_lower o_def)

text \<open>
  \<^verbatim>\<open>strings.TrimSpace\<close> removes Unicode white space. The list holds the UTF-8 encoding of
  every code point \<^verbatim>\<open>unicode.IsSpace\<close> accepts: the ASCII blanks, U+0085, U+00A0, U+1680,
  U+2000 to U+200A, U+2028, U+2029, U+202F, U+205F and U+3000. No encoding is a prefix of
  another one, so the order does not matter.
\<close>

definition bytes :: "nat list \<Rightarrow> string" where
  "bytes ns = map char_of ns"

definition space_seqs :: "string list" where
  "space_seqs =
     map (\<lambda>n. bytes [n]) [9, 10, 11, 12, 13, 32] @
     map (\<lambda>n. bytes [194, n]) [133, 160] @ [bytes [225, 154, 128]] @
     map (\<lambda>n. bytes [226, 128, n]) ([128..<139] @ [168, 169, 175]) @
     [bytes [226, 129, 159], bytes [227, 128, 128]]"

fun drop_space :: "nat \<Rightarrow> (string \<Rightarrow> string) \<Rightarrow> string \<Rightarrow> string" where
  "drop_space 0 f s = s"
| "drop_space (Suc n) f s =
     (case List.find (\<lambda>w. has_prefix s (f w)) space_seqs of
        None \<Rightarrow> s
      | Some w \<Rightarrow> drop_space n f (drop (length w) s))"

text \<open>
  Every round drops at least one byte, so \<open>length s\<close> rounds are enough. The right end is
  trimmed on the reversed string with the reversed encodings.
\<close>

definition trim_left :: "string \<Rightarrow> string" where
  "trim_left s = drop_space (length s) id s"

definition trim_right :: "string \<Rightarrow> string" where
  "trim_right s = rev (drop_space (length s) rev (rev s))"

definition trim_space :: "string \<Rightarrow> string" where
  "trim_space s = trim_right (trim_left s)"

lemma space_seqs_nonempty: "w \<in> set space_seqs \<Longrightarrow> w \<noteq> []"
  by (auto simp: space_seqs_def bytes_def)

lemma drop_space_idem:
  assumes "length s \<le> n" and "\<And>w. length (f w) = length w"
  shows "List.find (\<lambda>w. has_prefix (drop_space n f s) (f w)) space_seqs = None"
  using assms(1)
proof (induction n arbitrary: s)
  case 0
  have "f w \<noteq> []" if "w \<in> set space_seqs" for w
    using space_seqs_nonempty [OF that] assms(2) [of w] by auto
  then have "[] \<noteq> f w" if "w \<in> set space_seqs" for w
    using that by force
  with 0 show ?case
    by (auto simp: find_None_iff has_prefix_def)
next
  case (Suc n)
  show ?case
  proof (cases "List.find (\<lambda>w. has_prefix s (f w)) space_seqs")
    case None
    then show ?thesis by simp
  next
    case (Some w)
    then have "w \<in> set space_seqs" by (auto simp: find_Some_iff)
    then have "w \<noteq> []" by (rule space_seqs_nonempty)
    then have "length (drop (length w) s) \<le> n" using Suc.prems by (cases w) auto
    with Suc.IH [OF this] Some show ?thesis by simp
  qed
qed

text \<open>A trimmed string does not start with white space.\<close>

lemma trim_left_clean: "w \<in> set space_seqs \<Longrightarrow> \<not> has_prefix (trim_left s) w"
  using drop_space_idem [of s "length s" id] by (auto simp: trim_left_def find_None_iff)

lemma drop_space_none:
  "List.find (\<lambda>w. has_prefix s (f w)) space_seqs = None \<Longrightarrow> drop_space n f s = s"
  by (cases n) simp_all

lemma space_seqs_ends:
  assumes "w \<in> set space_seqs"
  shows "of_char (hd w) \<le> (32 :: nat) \<or> 128 \<le> (of_char (hd w) :: nat)"
    and "of_char (last w) \<le> (32 :: nat) \<or> 128 \<le> (of_char (last w) :: nat)"
  using assms by (auto simp: space_seqs_def bytes_def)

lemma has_prefix_hd: "has_prefix s w \<Longrightarrow> w \<noteq> [] \<Longrightarrow> s \<noteq> [] \<and> hd s = hd w"
  by (cases w; cases s) (auto simp: has_prefix_def)

text \<open>A string with a printable ASCII byte at both ends is trimmed already.\<close>

definition graph_char :: "char \<Rightarrow> bool" where
  "graph_char c \<longleftrightarrow> 32 < (of_char c :: nat) \<and> of_char c < (128 :: nat)"

lemma trim_space_id:
  assumes "s \<noteq> []" and "graph_char (hd s)" and "graph_char (last s)"
  shows "trim_space s = s"
proof -
  have ne: "w \<noteq> []" if "w \<in> set space_seqs" for w
    using that by (rule space_seqs_nonempty)
  have "\<not> has_prefix s w" if "w \<in> set space_seqs" for w
    using has_prefix_hd [of s w] ne [OF that] space_seqs_ends(1) [OF that] assms(2)
    by (auto simp: graph_char_def)
  then have l: "trim_left s = s"
    by (auto simp: trim_left_def find_None_iff intro!: drop_space_none)
  have "\<not> has_prefix (rev s) (rev w)" if "w \<in> set space_seqs" for w
    using has_prefix_hd [of "rev s" "rev w"] ne [OF that] space_seqs_ends(2) [OF that] assms
    by (auto simp: graph_char_def hd_rev)
  then have "drop_space (length s) rev (rev s) = rev s"
    by (auto simp: find_None_iff intro!: drop_space_none)
  with l show ?thesis by (simp add: trim_space_def trim_right_def)
qed

lemma graph_char_code [simp]:
  "graph_char (Char b0 b1 b2 b3 b4 b5 b6 b7) \<longleftrightarrow> \<not> b7 \<and> (b6 \<or> b5 \<and> (b0 \<or> b1 \<or> b2 \<or> b3 \<or> b4))"
  by (auto simp: graph_char_def)

subsection \<open>Integers as text\<close>

definition digit_char :: "nat \<Rightarrow> char" where
  "digit_char d = char_of (if d < 10 then 48 + d else 87 + d)"

definition digit_val :: "char \<Rightarrow> nat option" where
  "digit_val c =
     (let n = of_char c in
      if 48 \<le> n \<and> n \<le> 57 then Some (n - 48)
      else if 97 \<le> n \<and> n \<le> 122 then Some (n - 87)
      else if 65 \<le> n \<and> n \<le> 90 then Some (n - 55)
      else None)"

function show_base :: "nat \<Rightarrow> nat \<Rightarrow> string" where
  "show_base b n =
     (if b < 2 \<or> n < b then [digit_char n] else show_base b (n div b) @ [digit_char (n mod b)])"
  by pat_completeness auto
termination
  by (relation "measure (\<lambda>(b, n). n)") auto

declare show_base.simps [simp del]

definition show_int :: "int \<Rightarrow> string" where
  "show_int k = (if k < 0 then CHR ''-'' # show_base 10 (nat (- k)) else show_base 10 (nat k))"

fun digits_val :: "nat \<Rightarrow> nat \<Rightarrow> string \<Rightarrow> nat option" where
  "digits_val b acc [] = Some acc"
| "digits_val b acc (c # cs) =
     (case digit_val c of
        None \<Rightarrow> None
      | Some d \<Rightarrow> if d < b then digits_val b (acc * b + d) cs else None)"

definition unsigned_val :: "nat \<Rightarrow> string \<Rightarrow> nat option" where
  "unsigned_val b s = (if s = [] then None else digits_val b 0 s)"

text \<open>
  \<^verbatim>\<open>(*big.Int).SetString\<close> for the bases 10 and 16 (underscores and base prefixes are only
  read in base 0): an optional sign, then at least one digit, then the end of the string.
\<close>

definition big_set_string :: "nat \<Rightarrow> string \<Rightarrow> int option" where
  "big_set_string b s =
     (case s of
        [] \<Rightarrow> None
      | c # cs \<Rightarrow>
          if c = CHR ''-'' then map_option (\<lambda>n. - int n) (unsigned_val b cs)
          else if c = CHR ''+'' then map_option int (unsigned_val b cs)
          else map_option int (unsigned_val b s))"

text \<open>\<^verbatim>\<open>strconv.Atoi\<close>: the same syntax, and an error outside the 64-bit range.\<close>

definition atoi :: "string \<Rightarrow> int option" where
  "atoi s =
     (case big_set_string 10 s of
        None \<Rightarrow> None
      | Some k \<Rightarrow> if min_int64 \<le> k \<and> k \<le> max_int64 then Some k else None)"

lemma digit_val_char: "d < 36 \<Longrightarrow> digit_val (digit_char d) = Some d"
  by (auto simp: digit_val_def digit_char_def Let_def)

lemma digit_char_not_sign:
  "d < 36 \<Longrightarrow> digit_char d \<noteq> CHR ''-'' \<and> digit_char d \<noteq> CHR ''+''"
  using digit_val_char [of d] by (auto simp: digit_val_def)

lemma digits_val_append:
  "digits_val b acc (s @ t) = (case digits_val b acc s of None \<Rightarrow> None | Some a \<Rightarrow> digits_val b a t)"
  by (induction b acc s rule: digits_val.induct) (simp_all split: option.split)

lemma digits_val_show_base:
  assumes "2 \<le> b" and "b \<le> 36"
  shows "digits_val b 0 (show_base b n) = Some n"
  using assms
proof (induction b n rule: show_base.induct)
  case (1 b n)
  show ?case
  proof (cases "n < b")
    case True
    with "1.prems" show ?thesis
      by (simp add: show_base.simps [of b n] digit_val_char)
  next
    case False
    have "n mod b < b" using "1.prems" by simp
    moreover have "n mod b < 36" using "1.prems" calculation by linarith
    ultimately show ?thesis using False "1.IH" "1.prems"
      by (simp add: show_base.simps [of b n] digits_val_append digit_val_char)
  qed
qed

lemma show_base_nonempty [simp]: "show_base b n \<noteq> []"
  by (subst show_base.simps) simp

lemma unsigned_val_show_base:
  "2 \<le> b \<Longrightarrow> b \<le> 36 \<Longrightarrow> unsigned_val b (show_base b n) = Some n"
  by (simp add: unsigned_val_def digits_val_show_base)

lemma hd_show_base:
  assumes "2 \<le> b" and "b \<le> 36"
  shows "\<exists>d. d < 36 \<and> hd (show_base b n) = digit_char d"
  using assms
proof (induction b n rule: show_base.induct)
  case (1 b n)
  show ?case
  proof (cases "n < b")
    case True
    with "1.prems" show ?thesis
      by (auto simp: show_base.simps [of b n] intro!: exI [of _ n])
  next
    case False
    with 1 show ?thesis
      by (simp add: show_base.simps [of b n])
  qed
qed

lemma big_set_string_show_base:
  assumes "2 \<le> b" and "b \<le> 36"
  shows "big_set_string b (show_base b n) = Some (int n)"
proof -
  obtain c cs where s: "show_base b n = c # cs"
    using show_base_nonempty by (cases "show_base b n") auto
  obtain d where "d < 36" and "c = digit_char d"
    using hd_show_base [OF assms, of n] s by auto
  then have "c \<noteq> CHR ''-''" and "c \<noteq> CHR ''+''"
    using digit_char_not_sign by auto
  with unsigned_val_show_base [OF assms, of n] s show ?thesis
    by (simp add: big_set_string_def)
qed

lemma big_set_string_show_int: "big_set_string 10 (show_int k) = Some k"
proof (cases "k < 0")
  case True
  then show ?thesis
    by (simp add: show_int_def big_set_string_def unsigned_val_show_base)
next
  case False
  then show ?thesis
    by (simp add: show_int_def big_set_string_show_base)
qed

lemma show_int_nonempty [simp]: "show_int k \<noteq> []" "[] \<noteq> show_int k"
  using big_set_string_show_int [of k] by (auto simp: big_set_string_def)

lemma show_int_inject [simp]: "show_int a = show_int b \<longleftrightarrow> a = b"
  by (metis big_set_string_show_int option.inject)

text \<open>The digits of a number; the first one is not 0 unless the number is.\<close>

lemma base_digits: "2 \<le> b \<Longrightarrow> c \<in> set (show_base b n) \<Longrightarrow> \<exists>d < b. c = digit_char d"
proof (induction b n rule: show_base.induct)
  case (1 b n)
  show ?case
  proof (cases "n < b")
    case True
    with 1 show ?thesis by (auto simp: show_base.simps [of b n])
  next
    case False
    with 1 have "c \<in> set (show_base b (n div b)) \<or> c = digit_char (n mod b)"
      by (auto simp: show_base.simps [of b n])
    with False 1 show ?thesis by (metis mod_less_divisor not_numeral_le_zero not_less gr_zeroI)
  qed
qed

lemma show_base_length:
  assumes "2 \<le> b"
  shows "n < b ^ Suc k \<Longrightarrow> length (show_base b n) \<le> Suc k"
proof (induction k arbitrary: n)
  case 0
  then show ?case by (simp add: show_base.simps [of b n])
next
  case (Suc k)
  have "n div b < b ^ Suc k" using Suc.prems by (simp add: less_mult_imp_div_less mult.commute)
  with Suc.IH show ?case using assms by (auto simp: show_base.simps [of b n])
qed

lemma show_digits: "c \<in> set (show_base 10 n) \<Longrightarrow> \<exists>d < 10. c = digit_char d"
  by (rule base_digits) simp_all

lemma show_lead: "0 < n \<Longrightarrow> \<exists>d. 0 < d \<and> d < 10 \<and> hd (show_base 10 n) = digit_char d"
proof (induction "10 :: nat" n rule: show_base.induct)
  case (1 n)
  show ?case
  proof (cases "n < 10")
    case True
    with "1.prems" show ?thesis by (simp add: show_base.simps [of 10 n]) blast
  next
    case False
    with 1 show ?thesis by (simp add: show_base.simps [of 10 n])
  qed
qed

end
