(* ===== verification/Health.thy ===== *)
theory Health
  imports Prelude
begin

text \<open>
  \<^verbatim>\<open>internal/scanner/health.go\<close>: consecutive failures per chain, the unhealthy flag and the
  one alert per outage. Each operation runs under the mutex and is one function. The failure
  counter is an unbounded integer: it counts calls, and 2^63 of them do not happen.
\<close>

record health_state =
  hs_failures :: int
  hs_unhealthy :: bool
  hs_alert_sent :: bool

record health =
  ht_threshold :: int
  ht_states :: "string \<rightharpoonup> health_state"

definition NewHealthTracker :: "int \<Rightarrow> health" where
  "NewHealthTracker threshold = \<lparr>ht_threshold = threshold, ht_states = Map.empty\<rparr>"

definition fresh_health :: health_state where
  "fresh_health = \<lparr>hs_failures = 0, hs_unhealthy = False, hs_alert_sent = False\<rparr>"

text \<open>\<^verbatim>\<open>h.state(chain)\<close>: the state of a chain, created on first use.\<close>

definition health_of :: "health \<Rightarrow> string \<Rightarrow> health_state \<times> health" where
  "health_of h chain =
     (case ht_states h chain of
        Some st \<Rightarrow> (st, h)
      | None \<Rightarrow> (fresh_health, h\<lparr>ht_states := (ht_states h)(chain \<mapsto> fresh_health)\<rparr>))"

definition put_health :: "string \<Rightarrow> health_state \<Rightarrow> health \<Rightarrow> health" where
  "put_health chain st h = h\<lparr>ht_states := (ht_states h)(chain \<mapsto> st)\<rparr>"

definition Failure :: "string \<Rightarrow> health \<Rightarrow> bool \<times> health" where
  "Failure chain h =
     (case health_of h chain of (st, h) \<Rightarrow>
        let st = st\<lparr>hs_failures := hs_failures st + 1\<rparr>;
            st = (if hs_failures st \<ge> ht_threshold h then st\<lparr>hs_unhealthy := True\<rparr> else st)
        in (hs_unhealthy st, put_health chain st h))"

definition Success :: "string \<Rightarrow> health \<Rightarrow> bool \<times> health" where
  "Success chain h =
     (case health_of h chain of (st, h) \<Rightarrow>
        (hs_unhealthy st,
         put_health chain
           (st\<lparr>hs_failures := 0, hs_unhealthy := False, hs_alert_sent := False\<rparr>) h))"

definition IsUnhealthy :: "string \<Rightarrow> health \<Rightarrow> bool \<times> health" where
  "IsUnhealthy chain h = (case health_of h chain of (st, h) \<Rightarrow> (hs_unhealthy st, h))"

definition TakeAlert :: "string \<Rightarrow> health \<Rightarrow> (bool \<times> int) \<times> health" where
  "TakeAlert chain h =
     (case health_of h chain of (st, h) \<Rightarrow>
        if \<not> hs_unhealthy st \<or> hs_alert_sent st then ((False, hs_failures st), h)
        else ((True, hs_failures st), put_health chain (st\<lparr>hs_alert_sent := True\<rparr>) h))"

section \<open>Histories\<close>

text \<open>
  The tracker is shared by the workers of a batch; an execution is a sequence of these calls
  in any order.
\<close>

datatype health_call = H_failure string | H_success string | H_query string | H_alert string

fun health_step :: "health_call \<Rightarrow> health \<Rightarrow> bool \<times> health" where
  "health_step (H_failure c) h = Failure c h"
| "health_step (H_success c) h = Success c h"
| "health_step (H_query c) h = IsUnhealthy c h"
| "health_step (H_alert c) h = (case TakeAlert c h of ((alert, n), h') \<Rightarrow> (alert, h'))"

fun health_after :: "health \<Rightarrow> health_call list \<Rightarrow> health" where
  "health_after h [] = h"
| "health_after h (e # es) = health_after (snd (health_step e h)) es"

text \<open>
  The specification reads the history of calls, newest first: the streak of failures since
  the last success, whether that streak has reached the threshold, and whether an alert was
  taken during it.
\<close>

fun streak :: "string \<Rightarrow> health_call list \<Rightarrow> nat" where
  "streak c [] = 0"
| "streak c (e # es) =
     (if e = H_success c then 0 else if e = H_failure c then Suc (streak c es) else streak c es)"

definition down :: "int \<Rightarrow> string \<Rightarrow> health_call list \<Rightarrow> bool" where
  "down th c es \<longleftrightarrow> 0 < streak c es \<and> th \<le> int (streak c es)"

fun alerted :: "int \<Rightarrow> string \<Rightarrow> health_call list \<Rightarrow> bool" where
  "alerted th c [] = False"
| "alerted th c (e # es) =
     (if e = H_success c then False
      else if e = H_alert c then alerted th c es \<or> down th c es
      else alerted th c es)"

definition lookup_health :: "health \<Rightarrow> string \<Rightarrow> health_state" where
  "lookup_health h c = (case ht_states h c of None \<Rightarrow> fresh_health | Some st \<Rightarrow> st)"

lemma lookup_put [simp]:
  "lookup_health (put_health c st h) d = (if d = c then st else lookup_health h d)"
  by (simp add: lookup_health_def put_health_def)

lemma health_of_proj [simp]:
  "fst (health_of h c) = lookup_health h c"
  "lookup_health (snd (health_of h c)) d = lookup_health h d"
  "ht_threshold (snd (health_of h c)) = ht_threshold h"
  by (auto simp: health_of_def lookup_health_def split: option.split)

lemma put_health_threshold [simp]: "ht_threshold (put_health c st h) = ht_threshold h"
  by (simp add: put_health_def)

lemmas health_defs = Failure_def Success_def IsUnhealthy_def TakeAlert_def case_prod_beta Let_def

lemma health_step_threshold: "ht_threshold (snd (health_step e h)) = ht_threshold h"
  by (cases e) (simp_all add: health_defs)

text \<open>What one call does to the state of every chain.\<close>

lemma health_step_lookup:
  "lookup_health (snd (health_step e h)) d =
     (let st = lookup_health h d in
      if e = H_success d then fresh_health
      else if e = H_failure d then
        st\<lparr>hs_failures := hs_failures st + 1,
           hs_unhealthy := hs_unhealthy st \<or> ht_threshold h \<le> hs_failures st + 1\<rparr>
      else if e = H_alert d \<and> hs_unhealthy st then st\<lparr>hs_alert_sent := True\<rparr>
      else st)"
  by (cases e) (auto simp: health_defs fresh_health_def)

lemma health_after_append: "health_after h (es @ fs) = health_after (health_after h es) fs"
  by (induction es arbitrary: h) simp_all

lemma health_after_threshold: "ht_threshold (health_after h es) = ht_threshold h"
  by (induction es arbitrary: h) (simp_all add: health_step_threshold del: health_step.simps)

lemma health_state_of_history:
  "lookup_health (health_after (NewHealthTracker th) es) c =
     \<lparr>hs_failures = int (streak c (rev es)), hs_unhealthy = down th c (rev es),
      hs_alert_sent = alerted th c (rev es)\<rparr>"
proof (induction es rule: rev_induct)
  case Nil
  show ?case by (simp add: lookup_health_def NewHealthTracker_def fresh_health_def down_def)
next
  case (snoc e es)
  then show ?case
    by (auto simp: health_after_append health_step_lookup health_after_threshold Let_def
        NewHealthTracker_def fresh_health_def down_def simp del: health_step.simps)
qed

lemma alert_sent_persists:
  "hs_alert_sent (lookup_health h c) \<Longrightarrow> H_success c \<notin> set es \<Longrightarrow>
     hs_alert_sent (lookup_health (health_after h es) c)"
  by (induction es arbitrary: h) (auto simp: health_step_lookup Let_def simp del: health_step.simps)

lemma take_alert_result:
  "fst (TakeAlert c h) =
     (hs_unhealthy (lookup_health h c) \<and> \<not> hs_alert_sent (lookup_health h c),
      hs_failures (lookup_health h c))"
  by (simp add: health_defs)

lemma is_unhealthy_result: "fst (IsUnhealthy c h) = hs_unhealthy (lookup_health h c)"
  by (simp add: health_defs)

section \<open>Theorems\<close>

text \<open>
  C24: the tracker implements its specification: after any sequence of calls, by any mix of
  goroutines, a chain is reported unhealthy exactly when its failures since the last success
  have reached the threshold, and an alert is handed out exactly when the chain is unhealthy
  and none was taken since that success; the alert carries the length of the streak.
\<close>

theorem health_refines_history:
  "fst (IsUnhealthy c (health_after (NewHealthTracker th) es)) = down th c (rev es) \<and>
   fst (TakeAlert c (health_after (NewHealthTracker th) es)) =
     (down th c (rev es) \<and> \<not> alerted th c (rev es), int (streak c (rev es)))"
  by (simp add: is_unhealthy_result take_alert_result health_state_of_history)

text \<open>
  One alert per outage: between two alerts for the same chain lies a success of that
  chain, from any tracker and over any interleaving.
\<close>

theorem one_alert_per_outage:
  assumes "fst (fst (TakeAlert c (health_after h es)))"
    and "fst (fst (TakeAlert c (health_after h (es @ H_alert c # fs))))"
  shows "H_success c \<in> set fs"
proof (rule ccontr)
  assume no: "H_success c \<notin> set fs"
  let ?g = "health_after h es"
  have "hs_unhealthy (lookup_health ?g c)" using assms(1) by (simp add: take_alert_result)
  then have "hs_alert_sent (lookup_health (snd (health_step (H_alert c) ?g)) c)"
    by (simp add: health_step_lookup Let_def del: health_step.simps)
  from alert_sent_persists [OF this no] assms(2) show False
    by (simp add: health_after_append take_alert_result del: health_step.simps)
qed

theorem one_alert_per_outage_witness:
  "H_success ''btc'' \<in> set [H_success ''btc'', H_failure ''btc'']"
  by (rule one_alert_per_outage [of "''btc''" "NewHealthTracker 1" "[H_failure ''btc'']"])
    (simp_all add: health_defs NewHealthTracker_def fresh_health_def lookup_health_def
      put_health_def health_of_def)

end
