(* ===== verification/Domain.thy ===== *)
theory Domain
  imports Prelude
begin

text \<open>
  \<^verbatim>\<open>internal/domain/domain.go\<close>: the address types, the chains and the records that the
  importer, the store, the scanner and the startup check exchange.
\<close>

definition TypeEVM :: string where "TypeEVM = ''evm''"
definition TypeBTC :: string where "TypeBTC = ''btc''"
definition TypeSOL :: string where "TypeSOL = ''sol''"
definition TypeTRX :: string where "TypeTRX = ''trx''"

definition ChainBTC :: string where "ChainBTC = ''btc''"
definition ChainEthereum :: string where "ChainEthereum = ''ethereum''"
definition ChainArbitrum :: string where "ChainArbitrum = ''arbitrum''"
definition ChainBSC :: string where "ChainBSC = ''bsc''"
definition ChainSolana :: string where "ChainSolana = ''solana''"
definition ChainTRON :: string where "ChainTRON = ''tron''"

lemmas type_defs [simp] = TypeEVM_def TypeBTC_def TypeSOL_def TypeTRX_def
lemmas chain_defs [simp] = ChainBTC_def ChainEthereum_def ChainArbitrum_def ChainBSC_def
  ChainSolana_def ChainTRON_def

record address_input =
  ai_type :: string
  ai_address :: string
  ai_normalized :: string
  ai_label :: string

record address =
  ad_id :: int
  ad_type :: string
  ad_address :: string
  ad_label :: string

text \<open>A UUID is an abstract number.\<close>

type_synonym uuid = nat

record scan_run =
  run_id :: uuid
  run_start :: int
  run_end :: int
  run_cursor :: int
  run_status :: string
  run_processed :: int
  run_empty :: int
  run_positive :: int
  run_errors :: int

text \<open>The chains each address type is queried on, and the sets they are drawn from.\<close>

definition address_types :: "string list" where
  "address_types = [TypeEVM, TypeBTC, TypeSOL, TypeTRX]"

definition all_chains :: "string list" where
  "all_chains = [ChainBTC, ChainEthereum, ChainArbitrum, ChainBSC, ChainSolana, ChainTRON]"

end
