(* ===== verification/Providers.thy ===== *)
theory Providers
  imports Domain "HOL-Library.Word"
begin

text \<open>
  \<^verbatim>\<open>internal/providers\<close>: the HTTP request with its error classification and the four balance
  providers. The network is a parameter: what \<^verbatim>\<open>http.Client.Do\<close> and the two calls before it
  return for a request is a \<open>http_call\<close>, and what \<^verbatim>\<open>encoding/json\<close> reads from a body into
  the response struct is the argument \<open>decode\<close>. \<^verbatim>\<open>Queries\<close> fills both in.
\<close>

section \<open>Balances and errors\<close>

text \<open>\<^verbatim>\<open>Atomic\<close> is a pointer; \<open>None\<close> is nil.\<close>

record balance =
  bal_atomic :: "int option"
  bal_symbol :: string
  bal_chain :: string
  bal_provider :: string

record provider_error =
  pe_code :: string
  pe_provider :: string
  pe_status :: int
  pe_retry_after :: int
  pe_temporary :: bool
  pe_err :: "string option"

text \<open>An \<^verbatim>\<open>error\<close> value, as \<^verbatim>\<open>errors.As\<close> sees it: a provider error, or any other one.\<close>

datatype go_error = Perr provider_error | Other_error string

definition error_text :: "provider_error \<Rightarrow> string" where
  "error_text e =
     (case pe_err e of
        None \<Rightarrow> pe_provider e @ '': '' @ pe_code e
      | Some m \<Rightarrow> pe_provider e @ '': '' @ pe_code e @ '': '' @ m)"

definition providerError :: "string \<Rightarrow> string \<Rightarrow> bool \<Rightarrow> string \<Rightarrow> provider_error" where
  "providerError code name temporary err =
     \<lparr>pe_code = code, pe_provider = name, pe_status = 0, pe_retry_after = 0,
      pe_temporary = temporary, pe_err = Some err\<rparr>"

section \<open>time.ParseDuration\<close>

text \<open>
  The parser of the standard library, used on the \<^verbatim>\<open>Retry-After\<close> header with an \<^verbatim>\<open>s\<close>
  appended. The one computation in floating point, the contribution of a fraction, is the
  argument \<open>ff\<close>: \<open>ff f unit k\<close> is the number \<open>f * unit / 10 ^ k\<close> as the code rounds it.
\<close>

definition is_digit :: "char \<Rightarrow> bool" where
  "is_digit c \<longleftrightarrow> (let n = of_char c :: nat in 48 \<le> n \<and> n \<le> 57)"

definition digit_of :: "char \<Rightarrow> nat" where
  "digit_of c = of_char c - 48"

fun leading_int :: "nat \<Rightarrow> string \<Rightarrow> (nat \<times> string) option" where
  "leading_int x [] = Some (x, [])"
| "leading_int x (c # cs) =
     (if is_digit c then
        if x > 2 ^ 63 div 10 then None
        else if x * 10 + digit_of c > 2 ^ 63 then None
        else leading_int (x * 10 + digit_of c) cs
      else Some (x, c # cs))"

fun leading_fraction :: "nat \<Rightarrow> nat \<Rightarrow> bool \<Rightarrow> string \<Rightarrow> nat \<times> nat \<times> string" where
  "leading_fraction x k overflow [] = (x, k, [])"
| "leading_fraction x k overflow (c # cs) =
     (if \<not> is_digit c then (x, k, c # cs)
      else if overflow then leading_fraction x k True cs
      else if x > (2 ^ 63 - 1) div 10 then leading_fraction x k True cs
      else if x * 10 + digit_of c > 2 ^ 63 then leading_fraction x k True cs
      else leading_fraction (x * 10 + digit_of c) (Suc k) False cs)"

definition duration_units :: "(string \<times> nat) list" where
  "duration_units =
     [(''ns'', 1), (''us'', 1000), (bytes [194, 181, 115], 1000), (bytes [206, 188, 115], 1000),
      (''ms'', 1000000), (''s'', 1000000000), (''m'', 60000000000), (''h'', 3600000000000)]"

primrec duration_loop :: "(nat \<Rightarrow> nat \<Rightarrow> nat \<Rightarrow> nat) \<Rightarrow> nat \<Rightarrow> nat \<Rightarrow> string \<Rightarrow> nat option" where
  "duration_loop ff 0 d s = (if s = [] then Some d else None)"
| "duration_loop ff (Suc n) d s =
     (if s = [] then Some d
      else if \<not> (hd s = CHR ''.'' \<or> is_digit (hd s)) then None
      else case leading_int 0 s of
        None \<Rightarrow> None
      | Some (v, s1) \<Rightarrow>
          let pre = length s1 \<noteq> length s;
              (f, k, s2) =
                (if s1 \<noteq> [] \<and> hd s1 = CHR ''.'' then leading_fraction 0 0 False (tl s1)
                 else (0, 0, s1));
              post = (s1 \<noteq> [] \<and> hd s1 = CHR ''.'' \<and> length s2 \<noteq> length (tl s1));
              u = takeWhile (\<lambda>c. \<not> (c = CHR ''.'' \<or> is_digit c)) s2;
              s3 = dropWhile (\<lambda>c. \<not> (c = CHR ''.'' \<or> is_digit c)) s2
          in if \<not> pre \<and> \<not> post then None
             else if u = [] then None
             else case map_of duration_units u of
               None \<Rightarrow> None
             | Some un \<Rightarrow>
                 if v > 2 ^ 63 div un then None
                 else
                   let v1 = (if f > 0 then (v * un + ff f un k) mod 2 ^ 64 else v * un);
                       d1 = (d + v1) mod 2 ^ 64
                   in if f > 0 \<and> v1 > 2 ^ 63 then None
                      else if d1 > 2 ^ 63 then None
                      else duration_loop ff n d1 s3)"

text \<open>Every round consumes at least one byte, so the length of the string is enough fuel.\<close>

definition ParseDuration :: "(nat \<Rightarrow> nat \<Rightarrow> nat \<Rightarrow> nat) \<Rightarrow> string \<Rightarrow> int option" where
  "ParseDuration ff s0 =
     (let neg = (s0 \<noteq> [] \<and> hd s0 = CHR ''-'');
          s = (if s0 \<noteq> [] \<and> (hd s0 = CHR ''-'' \<or> hd s0 = CHR ''+'') then tl s0 else s0)
      in if s = ''0'' then Some 0
         else if s = [] then None
         else case duration_loop ff (length s) 0 s of
           None \<Rightarrow> None
         | Some d \<Rightarrow>
             if neg then Some (wrap64 (- int d))
             else if d > 2 ^ 63 - 1 then None else Some (int d))"

section \<open>The HTTP request\<close>

text \<open>The body is read through \<^verbatim>\<open>io.LimitReader(response.Body, 1<<20)\<close>.\<close>

definition body_limit :: nat where
  "body_limit = 2 ^ 20"

text \<open>
  \<open>Do_failed m deadline\<close>: \<^verbatim>\<open>Do\<close> returned an error, and whether it or the context is a
  deadline error. \<open>Responded status header body\<close>: a response, with its \<^verbatim>\<open>Retry-After\<close> header.
\<close>

datatype http_outcome = Do_failed string bool | Responded int string string

record http_call =
  hc_marshal :: "string option"
  hc_build :: "string option"
  hc_do :: http_outcome

definition request ::
  "(nat \<Rightarrow> nat \<Rightarrow> nat \<Rightarrow> nat) \<Rightarrow> (string \<Rightarrow> string + 'a) \<Rightarrow> bool \<Rightarrow> string \<Rightarrow> http_call \<Rightarrow>
   go_error + 'a" where
  "request ff decode has_payload provider call =
     (case (if has_payload then hc_marshal call else None) of
        Some m \<Rightarrow> Inl (Perr (providerError ''request_encode_error'' provider False m))
      | None \<Rightarrow>
     (case hc_build call of
        Some m \<Rightarrow> Inl (Perr (providerError ''request_error'' provider False m))
      | None \<Rightarrow>
     (case hc_do call of
        Do_failed m deadline \<Rightarrow>
          Inl (Perr (providerError (if deadline then ''timeout'' else ''connection_error'')
                       provider True m))
      | Responded status retry_header body \<Rightarrow>
          if status = 429 then
            Inl (Perr \<lparr>pe_code = ''rate_limited'', pe_provider = provider, pe_status = status,
              pe_retry_after =
                (case ParseDuration ff (retry_header @ ''s'') of None \<Rightarrow> 0 | Some d \<Rightarrow> d),
              pe_temporary = True, pe_err = None\<rparr>)
          else if status \<ge> 500 then
            Inl (Perr \<lparr>pe_code = ''provider_unhealthy'', pe_provider = provider,
              pe_status = status, pe_retry_after = 0, pe_temporary = True, pe_err = None\<rparr>)
          else if status < 200 \<or> status \<ge> 300 then
            Inl (Perr \<lparr>pe_code = ''rpc_error'', pe_provider = provider, pe_status = status,
              pe_retry_after = 0, pe_temporary = False, pe_err = None\<rparr>)
          else
            (case decode (take body_limit body) of
               Inl m \<Rightarrow> Inl (Perr (providerError ''response_decode_error'' provider False m))
             | Inr v \<Rightarrow> Inr v))))"

text \<open>\<^verbatim>\<open>strings.TrimRight(base, "/")\<close> and \<^verbatim>\<open>url.PathEscape\<close>.\<close>

definition trim_slashes :: "string \<Rightarrow> string" where
  "trim_slashes s = rev (dropWhile (\<lambda>c. c = CHR ''/'') (rev s))"

definition rpcURL :: "string \<Rightarrow> string" where
  "rpcURL base = trim_slashes base"

definition path_safe :: "char \<Rightarrow> bool" where
  "path_safe c \<longleftrightarrow>
     (let n = of_char c :: nat in 48 \<le> n \<and> n \<le> 57 \<or> 65 \<le> n \<and> n \<le> 90 \<or> 97 \<le> n \<and> n \<le> 122) \<or>
     c \<in> set ''-_.~$&+:=@''"

definition upper_hex :: "nat \<Rightarrow> char" where
  "upper_hex d = char_of (if d < 10 then 48 + d else 55 + d)"

definition escape_char :: "char \<Rightarrow> string" where
  "escape_char c =
     (if path_safe c then [c]
      else [CHR ''%'', upper_hex (of_char c div 16), upper_hex (of_char c mod 16)])"

definition path_escape :: "string \<Rightarrow> string" where
  "path_escape s = concat (map escape_char s)"

definition addressPath :: "string \<Rightarrow> string \<Rightarrow> string" where
  "addressPath base address = rpcURL base @ ''/address/'' @ path_escape address"

section \<open>The four providers\<close>

record evm_response =
  er_result :: string
  er_error :: "int option"

record evm_provider =
  evm_url :: string
  evm_chain :: string
  evm_symbol :: string

definition EVMCheck ::
  "(nat \<Rightarrow> nat \<Rightarrow> nat \<Rightarrow> nat) \<Rightarrow> (string \<Rightarrow> string + evm_response) \<Rightarrow> evm_provider \<Rightarrow>
   http_call \<Rightarrow> go_error + balance" where
  "EVMCheck ff decode p call =
     (case request ff decode True (evm_chain p) call of
        Inl e \<Rightarrow> Inl e
      | Inr response \<Rightarrow>
          (case er_error response of
             Some code \<Rightarrow>
               Inl (Perr \<lparr>pe_code = ''rpc_error'', pe_provider = evm_chain p, pe_status = 0,
                 pe_retry_after = 0, pe_temporary = (code = - 32005 \<or> code = - 32016),
                 pe_err = Some (''code '' @ show_int code)\<rparr>)
           | None \<Rightarrow>
               let value = trim_prefix (er_result response) ''0x'';
                   value = (if value = [] then ''0'' else value)
               in case big_set_string 16 value of
                    None \<Rightarrow>
                      Inl (Perr (providerError ''response_decode_error'' (evm_chain p) False
                                   ''invalid hex quantity''))
                  | Some atomic \<Rightarrow>
                      Inr \<lparr>bal_atomic = Some atomic, bal_symbol = evm_symbol p,
                           bal_chain = evm_chain p, bal_provider = evm_chain p\<rparr>))"

record btc_response =
  br_funded :: "64 word"
  br_spent :: "64 word"

definition BTCCheck ::
  "(nat \<Rightarrow> nat \<Rightarrow> nat \<Rightarrow> nat) \<Rightarrow> (string \<Rightarrow> string + btc_response) \<Rightarrow> http_call \<Rightarrow>
   go_error + balance" where
  "BTCCheck ff decode call =
     (case request ff decode False ChainBTC call of
        Inl e \<Rightarrow> Inl e
      | Inr response \<Rightarrow>
          let atomic = uint (br_funded response) - uint (br_spent response);
              atomic = (if atomic < 0 then 0 else atomic)
          in Inr \<lparr>bal_atomic = Some atomic, bal_symbol = ''BTC'', bal_chain = ChainBTC,
                  bal_provider = ChainBTC\<rparr>)"

record solana_response =
  sr_value :: "64 word"
  sr_error :: "int option"

definition SolanaCheck ::
  "(nat \<Rightarrow> nat \<Rightarrow> nat \<Rightarrow> nat) \<Rightarrow> (string \<Rightarrow> string + solana_response) \<Rightarrow> http_call \<Rightarrow>
   go_error + balance" where
  "SolanaCheck ff decode call =
     (case request ff decode True ChainSolana call of
        Inl e \<Rightarrow> Inl e
      | Inr response \<Rightarrow>
          (case sr_error response of
             Some code \<Rightarrow>
               Inl (Perr \<lparr>pe_code = ''rpc_error'', pe_provider = ChainSolana, pe_status = 0,
                 pe_retry_after = 0, pe_temporary = True,
                 pe_err = Some (''code '' @ show_int code)\<rparr>)
           | None \<Rightarrow>
               Inr \<lparr>bal_atomic = Some (uint (sr_value response)), bal_symbol = ''SOL'',
                    bal_chain = ChainSolana, bal_provider = ChainSolana\<rparr>))"

text \<open>The response struct of the TRON provider has the balance only.\<close>

definition TRONCheck ::
  "(nat \<Rightarrow> nat \<Rightarrow> nat \<Rightarrow> nat) \<Rightarrow> (string \<Rightarrow> string + 64 word) \<Rightarrow> http_call \<Rightarrow>
   go_error + balance" where
  "TRONCheck ff decode call =
     (case request ff decode True ChainTRON call of
        Inl e \<Rightarrow> Inl e
      | Inr value \<Rightarrow>
          Inr \<lparr>bal_atomic = Some (uint value), bal_symbol = ''TRX'', bal_chain = ChainTRON,
               bal_provider = ChainTRON\<rparr>)"

section \<open>The interface of a provider\<close>

text \<open>
  \<^verbatim>\<open>Provider\<close> is the interface the scanner, the HTTP handler and the startup check use. They
  rely on more than its Go signature: an error is always a \<^verbatim>\<open>ProviderError\<close> that names the
  provider, so the clients' fallbacks for other errors are never taken, and a balance is
  never nil and carries the chain and the symbol it was asked for.
\<close>

locale balance_provider =
  fixes check :: "'r \<Rightarrow> go_error + balance" and name symbol :: string
  assumes check_ok: "check r = Inr b \<Longrightarrow>
      bal_chain b = name \<and> bal_provider b = name \<and> bal_symbol b = symbol \<and> bal_atomic b \<noteq> None"
    and check_err: "check r = Inl e \<Longrightarrow> \<exists>pe. e = Perr pe \<and> pe_provider pe = name"
begin

lemma balance_known: "check r = Inr b \<Longrightarrow> \<exists>n. bal_atomic b = Some n"
  using check_ok by auto

lemma outcome:
  obtains (err) pe where "check r = Inl (Perr pe)" and "pe_provider pe = name"
  | (ok) n where "check r = Inr \<lparr>bal_atomic = Some n, bal_symbol = symbol, bal_chain = name,
      bal_provider = name\<rparr>"
proof (cases "check r")
  case (Inl e)
  with check_err err show ?thesis by blast
next
  case (Inr b)
  obtain n where "bal_atomic b = Some n" using check_ok [OF Inr] by blast
  then have "b = \<lparr>bal_atomic = Some n, bal_symbol = symbol, bal_chain = name, bal_provider = name\<rparr>"
    using check_ok [OF Inr] by (simp add: balance.equality)
  with Inr ok show ?thesis by simp
qed

end

locale nonneg_provider = balance_provider +
  assumes check_nonneg: "check r = Inr b \<Longrightarrow> bal_atomic b = Some n \<Longrightarrow> 0 \<le> n"
begin

lemma zero_or_positive:
  assumes "check r = Inr b"
  shows "bal_atomic b = Some 0 \<or> (\<exists>n. bal_atomic b = Some n \<and> 0 < n)"
proof -
  obtain n where n: "bal_atomic b = Some n" using balance_known [OF assms] by blast
  with check_nonneg [OF assms n] show ?thesis by auto
qed

end

lemma request_err:
  assumes "request ff d h p call = Inl e"
  shows "\<exists>pe. e = Perr pe \<and> pe_provider pe = p"
proof (cases "if h then hc_marshal call else None")
  case (Some m)
  with assms show ?thesis by (simp only: request_def providerError_def) auto
next
  case marshalled: None
  show ?thesis
  proof (cases "hc_build call")
    case (Some m)
    with assms marshalled show ?thesis by (simp only: request_def providerError_def) auto
  next
    case built: None
    show ?thesis
    proof (cases "hc_do call")
      case (Do_failed m dl)
      with assms marshalled built show ?thesis by (simp only: request_def providerError_def) auto
    next
      case (Responded st hd b)
      consider "st = 429" | "st \<noteq> 429" "500 \<le> st" | "st \<noteq> 429" "\<not> 500 \<le> st" "st < 200 \<or> 300 \<le> st"
        | (ok) "\<not> (st < 200 \<or> 300 \<le> st)" "st \<noteq> 429" "\<not> 500 \<le> st" by linarith
      then show ?thesis
      proof cases
        case ok
        with assms marshalled built Responded show ?thesis
          by (cases "d (take body_limit b)") (auto simp: request_def providerError_def)
      qed (use assms marshalled built Responded in \<open>simp_all only: request_def\<close>, auto)
    qed
  qed
qed

lemma EVMCheck_ok: "EVMCheck ff decode p call = Inr b \<Longrightarrow>
    bal_chain b = evm_chain p \<and> bal_provider b = evm_chain p \<and> bal_symbol b = evm_symbol p \<and>
    bal_atomic b \<noteq> None"
  unfolding EVMCheck_def Let_def by (auto split: sum.splits option.splits)

lemma EVMCheck_err:
  assumes "EVMCheck ff decode p call = Inl e"
  shows "\<exists>pe. e = Perr pe \<and> pe_provider pe = evm_chain p"
proof (cases "request ff decode True (evm_chain p) call")
  case (Inl a)
  with assms request_err [OF Inl] show ?thesis by (simp add: EVMCheck_def)
next
  case (Inr r)
  with assms show ?thesis
    by (cases "er_error r") (auto simp: EVMCheck_def Let_def providerError_def split: option.splits)
qed

interpretation evm: balance_provider "EVMCheck ff decode p" "evm_chain p" "evm_symbol p"
  for ff decode p
  by unfold_locales (erule EVMCheck_ok EVMCheck_err)+

lemma BTCCheck_ok: "BTCCheck ff decode call = Inr b \<Longrightarrow>
    \<exists>n \<ge> 0. b = \<lparr>bal_atomic = Some n, bal_symbol = ''BTC'', bal_chain = ChainBTC,
      bal_provider = ChainBTC\<rparr>"
  unfolding BTCCheck_def Let_def by (auto split: sum.splits)

lemma BTCCheck_err: "BTCCheck ff decode call = Inl e \<Longrightarrow> \<exists>pe. e = Perr pe \<and> pe_provider pe = ChainBTC"
  unfolding BTCCheck_def Let_def
  by (cases "request ff decode False ChainBTC call") (auto dest: request_err simp del: chain_defs)

lemma SolanaCheck_ok: "SolanaCheck ff decode call = Inr b \<Longrightarrow>
    \<exists>n \<ge> 0. b = \<lparr>bal_atomic = Some n, bal_symbol = ''SOL'', bal_chain = ChainSolana,
      bal_provider = ChainSolana\<rparr>"
  unfolding SolanaCheck_def by (auto split: sum.splits option.splits)

lemma SolanaCheck_err:
  assumes "SolanaCheck ff decode call = Inl e"
  shows "\<exists>pe. e = Perr pe \<and> pe_provider pe = ChainSolana"
proof (cases "request ff decode True ChainSolana call")
  case (Inl a)
  with assms request_err [OF Inl] show ?thesis by (simp add: SolanaCheck_def)
next
  case (Inr r)
  with assms show ?thesis by (cases "sr_error r") (auto simp: SolanaCheck_def)
qed

lemma TRONCheck_ok: "TRONCheck ff decode call = Inr b \<Longrightarrow>
    \<exists>n \<ge> 0. b = \<lparr>bal_atomic = Some n, bal_symbol = ''TRX'', bal_chain = ChainTRON,
      bal_provider = ChainTRON\<rparr>"
  unfolding TRONCheck_def by (auto split: sum.splits)

lemma TRONCheck_err:
  "TRONCheck ff decode call = Inl e \<Longrightarrow> \<exists>pe. e = Perr pe \<and> pe_provider pe = ChainTRON"
  unfolding TRONCheck_def
  by (cases "request ff decode True ChainTRON call") (auto dest: request_err simp del: chain_defs)

interpretation btc: nonneg_provider "BTCCheck ff decode" ChainBTC "''BTC''" for ff decode
  by unfold_locales (auto dest!: BTCCheck_ok elim: BTCCheck_err simp del: chain_defs)

interpretation sol: nonneg_provider "SolanaCheck ff decode" ChainSolana "''SOL''" for ff decode
  by unfold_locales (auto dest!: SolanaCheck_ok elim: SolanaCheck_err simp del: chain_defs)

interpretation tron: nonneg_provider "TRONCheck ff decode" ChainTRON "''TRX''" for ff decode
  by unfold_locales (auto dest!: TRONCheck_ok elim: TRONCheck_err simp del: chain_defs)

section \<open>Theorems\<close>



text \<open>
  A failed query never becomes a balance: if the HTTP layer fails, in any of its ways,
  every provider returns that error and no balance. This is the code's part of "a provider
  timeout, rate limit, or RPC error is never treated as a zero balance".
\<close>

theorem failed_request_is_error:
  "(\<forall>e d. request ff d True (evm_chain p) call = Inl e \<longrightarrow> EVMCheck ff d p call = Inl e) \<and>
   (\<forall>e d. request ff d False ChainBTC call = Inl e \<longrightarrow> BTCCheck ff d call = Inl e) \<and>
   (\<forall>e d. request ff d True ChainSolana call = Inl e \<longrightarrow> SolanaCheck ff d call = Inl e) \<and>
   (\<forall>e d. request ff d True ChainTRON call = Inl e \<longrightarrow> TRONCheck ff d call = Inl e)"
  by (simp add: EVMCheck_def BTCCheck_def SolanaCheck_def TRONCheck_def)

theorem failed_request_is_error_witness:
  "\<exists>e. BTCCheck (\<lambda>a b c. 0) (\<lambda>s. Inl s)
       \<lparr>hc_marshal = None, hc_build = None, hc_do = Do_failed ''eof'' False\<rparr> = Inl e"
  using failed_request_is_error [of "\<lambda>a b c. 0" _
      "\<lparr>hc_marshal = None, hc_build = None, hc_do = Do_failed ''eof'' False\<rparr>"]
  by (simp add: request_def)

definition ok_call :: "string \<Rightarrow> http_call" where
  "ok_call body = \<lparr>hc_marshal = None, hc_build = None, hc_do = Responded 200 [] body\<rparr>"

lemma request_ok_call:
  "request ff decode hp name (ok_call body) =
     (case decode (take body_limit body) of
        Inl m \<Rightarrow> Inl (Perr (providerError ''response_decode_error'' name False m))
      | Inr v \<Rightarrow> Inr v)"
  by (simp add: request_def ok_call_def)

text \<open>
  Exact balances: the quantity an Ethereum node writes for \<open>n\<close> wei (\<^verbatim>\<open>0x\<close> and the
  hexadecimal digits, of any length) is read back as \<open>n\<close>.
\<close>

theorem EVMCheck_exact:
  assumes "decode (take body_limit body) =
    Inr \<lparr>er_result = ''0x'' @ show_base 16 n, er_error = None\<rparr>"
  shows "EVMCheck ff decode p (ok_call body) =
    Inr \<lparr>bal_atomic = Some (int n), bal_symbol = evm_symbol p, bal_chain = evm_chain p,
         bal_provider = evm_chain p\<rparr>"
  by (simp add: EVMCheck_def request_ok_call assms trim_prefix_def has_prefix_def
      big_set_string_show_base)

theorem EVMCheck_exact_witness:
  "EVMCheck (\<lambda>a b c. 0) (\<lambda>s. Inr \<lparr>er_result = ''0x'' @ show_base 16 (10 ^ 18), er_error = None\<rparr>)
     \<lparr>evm_url = ''http://n'', evm_chain = ''ethereum'', evm_symbol = ''ETH''\<rparr> (ok_call ''{}'') =
   Inr \<lparr>bal_atomic = Some (10 ^ 18), bal_symbol = ''ETH'', bal_chain = ''ethereum'',
        bal_provider = ''ethereum''\<rparr>"
  using EVMCheck_exact [of "\<lambda>s. Inr \<lparr>er_result = ''0x'' @ show_base 16 (10 ^ 18), er_error = None\<rparr>"
      "''{}''" "10 ^ 18" "\<lambda>a b c. 0"
      "\<lparr>evm_url = ''http://n'', evm_chain = ''ethereum'', evm_symbol = ''ETH''\<rparr>"]
  by simp

text \<open>
  The quantity is parsed by \<^verbatim>\<open>big.Int.SetString\<close>, which takes a sign, and a missing
  result counts as 0. So a node that answers \<^verbatim>\<open>0x-\<close> and digits makes the provider return a
  negative balance, and one that answers neither a result nor an error a zero balance, both
  as successful queries.
\<close>

theorem EVMCheck_accepts_malformed:
  "EVMCheck ff (\<lambda>_. Inr \<lparr>er_result = ''0x-'' @ show_base 16 n, er_error = None\<rparr>) p (ok_call body) =
     Inr \<lparr>bal_atomic = Some (- int n), bal_symbol = evm_symbol p, bal_chain = evm_chain p,
          bal_provider = evm_chain p\<rparr> \<and>
   EVMCheck ff (\<lambda>_. Inr \<lparr>er_result = [], er_error = None\<rparr>) p (ok_call body) =
     Inr \<lparr>bal_atomic = Some 0, bal_symbol = evm_symbol p, bal_chain = evm_chain p,
          bal_provider = evm_chain p\<rparr>"
  by (simp add: EVMCheck_def request_ok_call trim_prefix_def has_prefix_def big_set_string_def
      unsigned_val_show_base, simp add: unsigned_val_def digit_val_def)

text \<open>
  The Bitcoin balance is the confirmed total received minus the total spent, computed
  without wrap-around on the two unsigned 64-bit counters, and 0 when more is spent than
  received.
\<close>

theorem BTCCheck_balance:
  assumes "decode (take body_limit body) = Inr r"
  shows "BTCCheck ff decode (ok_call body) =
    Inr \<lparr>bal_atomic = Some (int (unat (br_funded r) - unat (br_spent r))), bal_symbol = ''BTC'',
         bal_chain = ChainBTC, bal_provider = ChainBTC\<rparr>"
proof -
  have "(if uint (br_funded r) - uint (br_spent r) < 0 then 0
         else uint (br_funded r) - uint (br_spent r)) =
        int (unat (br_funded r) - unat (br_spent r))"
proof -
    have "int (a - b) = (if int a - int b < 0 then 0 else int a - int b)" for a b :: nat by auto
    from this [of "unat (br_funded r)" "unat (br_spent r)"] show ?thesis by simp
  qed
  then show ?thesis
    unfolding BTCCheck_def Let_def request_ok_call assms sum.case by (simp only:)
qed

lemma escape_char_safe: "\<forall>e \<in> set (escape_char c). e \<notin> set ''/?# ''"
proof -
  have less: "of_char c < (256 :: nat)"
    by (rule nat_of_char_less_256)
  have high: "of_char c div 16 < (16 :: nat)"
    by (rule less_mult_imp_div_less) (use less in simp)
  have hex: "upper_hex d \<notin> set ''/?# ''" if "d < 16" for d
    using that by (auto simp: upper_hex_def char_of_eq_iff take_bit_eq_mod)
  show ?thesis
  proof (cases "path_safe c")
    case True
    then have "c \<notin> set ''/?# ''" by (auto simp: path_safe_def Let_def)
    with True show ?thesis by (simp add: escape_char_def)
  next
    case False
    have "upper_hex (of_char c div 16) \<notin> set ''/?# ''" by (rule hex) (rule high)
    moreover have "upper_hex (of_char c mod 16) \<notin> set ''/?# ''" by (rule hex) simp
    ultimately show ?thesis using False by (simp add: escape_char_def)
  qed
qed

theorem BTCCheck_balance_witness:
  "BTCCheck (\<lambda>a b c. 0) (\<lambda>s. Inr \<lparr>br_funded = 5, br_spent = 7\<rparr>) (ok_call ''{}'') =
     Inr \<lparr>bal_atomic = Some 0, bal_symbol = ''BTC'', bal_chain = ''btc'', bal_provider = ''btc''\<rparr>"
  using BTCCheck_balance [of "\<lambda>s. Inr \<lparr>br_funded = 5, br_spent = 7\<rparr>" "''{}''"
      "\<lparr>br_funded = 5, br_spent = 7\<rparr>" "\<lambda>a b c. 0"]
  by simp

text \<open>
  An address cannot escape its path segment: whatever bytes an accepted Bitcoin address
  has, the escaped address in the request path has no slash, question mark, hash or blank.
\<close>

theorem addressPath_safe:
  "addressPath base address = rpcURL base @ ''/address/'' @ path_escape address \<and>
   list_all (\<lambda>c. c \<notin> set ''/?# '') (path_escape address)"
proof -
  have "c \<notin> set ''/?# ''" if "c \<in> set (path_escape address)" for c
    using that escape_char_safe unfolding path_escape_def by fastforce
  then show ?thesis unfolding addressPath_def by (simp only: list_all_iff) blast
qed

end
