(* ===== verification/Programs.thy ===== *)
theory Programs
  imports Prelude
begin

text \<open>
  Programs with state and errors: the model of the functions that return
  \<^verbatim>\<open>(T, error)\<close> and act on the database, the limiter or the scanner. A program takes the
  state and returns an error (\<open>Inl\<close>) or a result (\<open>Inr\<close>) with the state it leaves; the
  state of a failed program is kept, as the effects before the error are.

  \<open>keeps I p\<close> says that every run of \<open>p\<close> keeps the invariant \<open>I\<close>, whether it fails
  or not. Its rules are collected in \<open>keeps\<close>, and \<open>intro: keeps\<close> walks through a program.
\<close>

named_theorems keeps

type_synonym ('s, 'e, 'a) prog = "'s \<Rightarrow> ('e + 'a) \<times> 's"

definition ret :: "'a \<Rightarrow> ('s, 'e, 'a) prog" where
  "ret x s = (Inr x, s)"

definition raise :: "'e \<Rightarrow> ('s, 'e, 'a) prog" where
  "raise e s = (Inl e, s)"

definition bindE :: "('s, 'e, 'a) prog \<Rightarrow> ('a \<Rightarrow> ('s, 'e, 'b) prog) \<Rightarrow> ('s, 'e, 'b) prog" where
  "bindE p k s = (case p s of (Inl e, t) \<Rightarrow> (Inl e, t) | (Inr x, t) \<Rightarrow> k x t)"

definition handleE :: "('s, 'e, 'a) prog \<Rightarrow> ('e \<Rightarrow> ('s, 'f, 'a) prog) \<Rightarrow> ('s, 'f, 'a) prog" where
  "handleE p h s = (case p s of (Inl e, t) \<Rightarrow> h e t | (Inr x, t) \<Rightarrow> (Inr x, t))"

text \<open>A call whose success and whose error both go on.\<close>

definition tryE ::
  "('s, 'e, 'a) prog \<Rightarrow> ('a \<Rightarrow> ('s, 'f, 'b) prog) \<Rightarrow> ('e \<Rightarrow> ('s, 'f, 'b) prog) \<Rightarrow> ('s, 'f, 'b) prog" where
  "tryE p k h s = (case p s of (Inl e, t) \<Rightarrow> h e t | (Inr x, t) \<Rightarrow> k x t)"

text \<open>\<^verbatim>\<open>fmt.Errorf("...: %w", err)\<close>: the error with a prefix.\<close>

definition wrapE :: "string \<Rightarrow> ('s, string, 'a) prog \<Rightarrow> ('s, string, 'a) prog" where
  "wrapE msg p = handleE p (\<lambda>e. raise (msg @ e))"

text \<open>\<^verbatim>\<open>_ = f()\<close>: the error is dropped.\<close>

definition ignoreE :: "('s, 'e, 'a) prog \<Rightarrow> ('s, 'f, unit) prog" where
  "ignoreE p s = (Inr (), snd (p s))"

definition getE :: "('s \<Rightarrow> 'a) \<Rightarrow> ('s, 'e, 'a) prog" where
  "getE f s = (Inr (f s), s)"

definition modifyE :: "('s \<Rightarrow> 's) \<Rightarrow> ('s, 'e, unit) prog" where
  "modifyE f s = (Inr (), f s)"

text \<open>The result is not used.\<close>

definition voidE :: "('s, 'e, 'a) prog \<Rightarrow> ('s, 'e, unit) prog" where
  "voidE p s = (case p s of (Inl e, t) \<Rightarrow> (Inl e, t) | (Inr x, t) \<Rightarrow> (Inr (), t))"

text \<open>A \<^verbatim>\<open>for range\<close> loop whose body returns on an error; the second form collects results.\<close>

fun eachE :: "('a \<Rightarrow> ('s, 'e, unit) prog) \<Rightarrow> 'a list \<Rightarrow> ('s, 'e, unit) prog" where
  "eachE f [] = ret ()"
| "eachE f (x # xs) = bindE (f x) (\<lambda>_. eachE f xs)"

fun mapE :: "('a \<Rightarrow> ('s, 'e, 'b) prog) \<Rightarrow> 'a list \<Rightarrow> ('s, 'e, 'b list) prog" where
  "mapE f [] = ret []"
| "mapE f (x # xs) = bindE (f x) (\<lambda>y. bindE (mapE f xs) (\<lambda>ys. ret (y # ys)))"

lemmas prog_defs = ret_def raise_def bindE_def handleE_def wrapE_def ignoreE_def getE_def
  modifyE_def

lemma ret_apply [simp]: "ret x s = (Inr x, s)"
  by (simp add: ret_def)

lemma raise_apply [simp]: "raise e s = (Inl e, s)"
  by (simp add: raise_def)

lemma getE_apply [simp]: "getE f s = (Inr (f s), s)"
  by (simp add: getE_def)

lemma modifyE_apply [simp]: "modifyE f s = (Inr (), f s)"
  by (simp add: modifyE_def)

lemma ignoreE_apply [simp]: "ignoreE p s = (Inr (), snd (p s))"
  by (simp add: ignoreE_def)

lemma bindE_Inr: "p s = (Inr x, t) \<Longrightarrow> bindE p k s = k x t"
  by (simp add: bindE_def)

lemma bindE_Inl: "p s = (Inl e, t) \<Longrightarrow> bindE p k s = (Inl e, t)"
  by (simp add: bindE_def)

lemma bindE_eq_Inr:
  "bindE p k s = (Inr y, u) \<longleftrightarrow> (\<exists>x t. p s = (Inr x, t) \<and> k x t = (Inr y, u))"
  by (auto simp: bindE_def split: prod.splits sum.splits)

lemma bindE_eq_Inl:
  "bindE p k s = (Inl e, u) \<longleftrightarrow>
     p s = (Inl e, u) \<or> (\<exists>x t. p s = (Inr x, t) \<and> k x t = (Inl e, u))"
  by (auto simp: bindE_def split: prod.splits sum.splits)

lemma tryE_eq_Inr:
  "tryE p k h s = (Inr y, u) \<longleftrightarrow>
     (\<exists>x t. p s = (Inr x, t) \<and> k x t = (Inr y, u)) \<or> (\<exists>e t. p s = (Inl e, t) \<and> h e t = (Inr y, u))"
  by (auto simp: tryE_def split: prod.splits sum.splits)

lemma voidE_eq_Inr: "voidE p s = (Inr u, t) \<longleftrightarrow> (\<exists>x. p s = (Inr x, t))"
  by (auto simp: voidE_def split: prod.splits sum.splits)

lemma snd_voidE [simp]: "snd (voidE p s) = snd (p s)"
  by (auto simp: voidE_def split: prod.splits sum.splits)

lemma bindE_cases:
  assumes "bindE p k s = (r, u)"
  obtains (fails) e where "p s = (Inl e, u)" and "r = Inl e"
  | (runs) x t where "p s = (Inr x, t)" and "k x t = (r, u)"
  using assms by (auto simp: bindE_def split: prod.splits sum.splits)

lemma wrapE_eq_Inr [simp]: "wrapE m p s = (Inr x, t) \<longleftrightarrow> p s = (Inr x, t)"
  by (auto simp: wrapE_def handleE_def split: prod.splits sum.splits)

lemma wrapE_eq_Inl:
  "wrapE m p s = (Inl e, t) \<longleftrightarrow> (\<exists>e'. p s = (Inl e', t) \<and> e = m @ e')"
  by (auto simp: wrapE_def handleE_def split: prod.splits sum.splits)

lemma snd_wrapE [simp]: "snd (wrapE m p s) = snd (p s)"
  by (auto simp: wrapE_def handleE_def split: prod.splits sum.splits)

section \<open>Invariants of programs\<close>

definition keeps :: "('s \<Rightarrow> bool) \<Rightarrow> ('s, 'e, 'a) prog \<Rightarrow> bool" where
  "keeps I p \<longleftrightarrow> (\<forall>s. I s \<longrightarrow> I (snd (p s)))"

lemma keepsI: "(\<And>s. I s \<Longrightarrow> I (snd (p s))) \<Longrightarrow> keeps I p"
  by (simp add: keeps_def)

lemma keepsD: "keeps I p \<Longrightarrow> I s \<Longrightarrow> I (snd (p s))"
  by (simp add: keeps_def)

lemma keepsD_eq: "keeps I p \<Longrightarrow> I s \<Longrightarrow> p s = (r, t) \<Longrightarrow> I t"
  by (metis keepsD snd_conv)

lemma keeps_ret [keeps]: "keeps I (ret x)"
  by (simp add: keeps_def)

lemma keeps_raise [keeps]: "keeps I (raise e)"
  by (simp add: keeps_def)

lemma keeps_getE [keeps]: "keeps I (getE f)"
  by (simp add: keeps_def)

lemma keeps_modifyE: "(\<And>s. I s \<Longrightarrow> I (f s)) \<Longrightarrow> keeps I (modifyE f)"
  by (simp add: keeps_def)

lemma keeps_bindE [keeps]: "keeps I p \<Longrightarrow> (\<And>x. keeps I (k x)) \<Longrightarrow> keeps I (bindE p k)"
  by (fastforce simp: keeps_def bindE_def split: prod.split sum.split)

lemma keeps_handleE [keeps]: "keeps I p \<Longrightarrow> (\<And>e. keeps I (h e)) \<Longrightarrow> keeps I (handleE p h)"
  by (fastforce simp: keeps_def handleE_def split: prod.split sum.split)

lemma keeps_tryE [keeps]:
  "keeps I p \<Longrightarrow> (\<And>x. keeps I (k x)) \<Longrightarrow> (\<And>e. keeps I (h e)) \<Longrightarrow> keeps I (tryE p k h)"
  by (fastforce simp: keeps_def tryE_def split: prod.split sum.split)

lemma keeps_voidE [keeps]: "keeps I p \<Longrightarrow> keeps I (voidE p)"
  by (simp add: keeps_def)

lemma keeps_wrapE [keeps]: "keeps I p \<Longrightarrow> keeps I (wrapE m p)"
  by (simp add: keeps_def)

lemma keeps_ignoreE [keeps]: "keeps I p \<Longrightarrow> keeps I (ignoreE p)"
  by (simp add: keeps_def)

lemma keeps_eachE [keeps]: "(\<And>x. x \<in> set xs \<Longrightarrow> keeps I (f x)) \<Longrightarrow> keeps I (eachE f xs)"
  by (induction xs) (auto intro: keeps)

lemma keeps_mapE [keeps]: "(\<And>x. x \<in> set xs \<Longrightarrow> keeps I (f x)) \<Longrightarrow> keeps I (mapE f xs)"
  by (induction xs) (auto intro!: keeps)

lemma keeps_if [keeps]: "(b \<Longrightarrow> keeps I p) \<Longrightarrow> (\<not> b \<Longrightarrow> keeps I q) \<Longrightarrow> keeps I (if b then p else q)"
  by simp

lemma keeps_case_option [keeps]:
  "(x = None \<Longrightarrow> keeps I p) \<Longrightarrow> (\<And>y. x = Some y \<Longrightarrow> keeps I (q y)) \<Longrightarrow>
   keeps I (case x of None \<Rightarrow> p | Some y \<Rightarrow> q y)"
  by (cases x) simp_all

lemma keeps_case_sum [keeps]:
  "(\<And>e. x = Inl e \<Longrightarrow> keeps I (p e)) \<Longrightarrow> (\<And>y. x = Inr y \<Longrightarrow> keeps I (q y)) \<Longrightarrow>
   keeps I (case x of Inl e \<Rightarrow> p e | Inr y \<Rightarrow> q y)"
  by (cases x) simp_all

lemma mapE_length: "mapE f xs s = (Inr ys, t) \<Longrightarrow> length ys = length xs"
  by (induction xs arbitrary: ys s t) (auto simp: bindE_eq_Inr)

lemma mapE_eachE: "mapE f xs s = (Inr ys, t) \<Longrightarrow> eachE (\<lambda>x. voidE (f x)) xs s = (Inr (), t)"
proof (induction xs arbitrary: ys s)
  case (Cons x xs)
  then obtain y u zs where "f x s = (Inr y, u)" and "mapE f xs u = (Inr zs, t)"
    by (auto simp: bindE_eq_Inr)
  with Cons.IH [of u zs] show ?case by (auto simp: bindE_eq_Inr voidE_eq_Inr)
qed simp

end
