(* ===== verification/Tables.thy ===== *)
theory Tables
  imports Programs Domain
begin

text \<open>
  The database of \<^verbatim>\<open>internal/db\<close>: the tables of \<^verbatim>\<open>migrations/001_initial.sql\<close> as lists of
  rows in insertion order with their sequences, the constraints of the schema as the
  invariant \<open>db_ok\<close>, and how one statement and one transaction run.

  PostgreSQL is a service. What each SQL statement of the sources means is modelled; what the
  service adds is the environment \<open>env\<close>: for every round trip whether it fails, before or
  after the statement took effect, the value of \<^verbatim>\<open>now()\<close>, and how \<^verbatim>\<open>text::numeric\<close> reads
  a string. Nothing is assumed of the faults, so the lemmas hold under every pattern of them.
  Other sessions that write between two statements are not modelled.
\<close>

section \<open>Rows\<close>

record wallet_row =
  wa_id :: int
  wa_type :: string
  wa_address :: string
  wa_normalized :: string
  wa_label :: string
  wa_batch :: uuid
  wa_created :: int

record run_row =
  rr_run :: scan_run
  rr_started :: int
  rr_completed :: "int option"

record finding_row =
  pf_id :: int
  pf_address_id :: int
  pf_chain :: string
  pf_balance :: int
  pf_symbol :: string
  pf_first_seen :: int
  pf_last_seen :: int

record check_row =
  bc_id :: int
  bc_address_id :: int
  bc_chain :: string
  bc_state :: string
  bc_balance :: "int option"
  bc_symbol :: "string option"
  bc_code :: "string option"
  bc_message :: "string option"
  bc_provider :: "string option"
  bc_retry_ms :: "int option"
  bc_checked_at :: int

record retry_row =
  rq_id :: int
  rq_address_id :: int
  rq_chain :: string
  rq_code :: string
  rq_provider :: string
  rq_attempts :: nat
  rq_next :: int
  rq_last_error :: string
  rq_resolved :: "int option"

record incident_row =
  ni_id :: int
  ni_chain :: string
  ni_provider :: string
  ni_code :: string
  ni_failures :: int
  ni_status :: string
  ni_first_seen :: int

record event_row =
  ne_id :: int
  ne_finding :: "int option"
  ne_incident :: "int option"
  ne_type :: string
  ne_status :: string
  ne_attempts :: nat
  ne_last_error :: "string option"
  ne_sent :: "int option"
  ne_next :: int
  ne_created :: int

text \<open>
  A table is its rows and the next value of its \<^verbatim>\<open>BIGSERIAL\<close> sequence. \<open>tick\<close> counts the
  round trips, so that each one meets its own fault and its own time.
\<close>

record db =
  addresses :: "wallet_row list"
  runs :: "run_row list"
  findings :: "finding_row list"
  checks :: "check_row list"
  retries :: "retry_row list"
  incidents :: "incident_row list"
  events :: "event_row list"
  next_address :: int
  next_finding :: int
  next_check :: int
  next_retry :: int
  next_incident :: int
  next_event :: int
  tick :: nat

definition empty_db :: db where
  "empty_db =
     \<lparr>addresses = [], runs = [], findings = [], checks = [], retries = [], incidents = [],
      events = [], next_address = 1, next_finding = 1, next_check = 1, next_retry = 1,
      next_incident = 1, next_event = 1, tick = 0\<rparr>"

section \<open>Statements and transactions\<close>

text \<open>\<open>No_rows\<close> is \<^verbatim>\<open>pgx.ErrNoRows\<close>; \<open>Wrapped\<close> is \<^verbatim>\<open>fmt.Errorf("...: %w", err)\<close>.\<close>

datatype db_error = No_rows | Pg string | Wrapped string db_error

fun db_error_text :: "db_error \<Rightarrow> string" where
  "db_error_text No_rows = ''no rows in result set''"
| "db_error_text (Pg m) = m"
| "db_error_text (Wrapped m e) = m @ db_error_text e"

text \<open>\<open>Lost m b\<close>: the client sees the error \<open>m\<close>; \<open>b\<close> tells whether the server had acted.\<close>

datatype fault = Fine | Lost string bool

record env =
  ev_fault :: "nat \<Rightarrow> fault"
  ev_now :: "nat \<Rightarrow> int"
  ev_numeric :: "string \<Rightarrow> int option"

type_synonym 'a sql = "int \<Rightarrow> db \<Rightarrow> (db_error + 'a) \<times> db"
type_synonym 'a dbp = "(db, db_error, 'a) prog"

definition wrapD :: "string \<Rightarrow> 'a dbp \<Rightarrow> 'a dbp" where
  "wrapD m p = handleE p (\<lambda>e. raise (Wrapped m e))"

text \<open>One round trip, with \<^verbatim>\<open>now()\<close> given: \<^verbatim>\<open>now()\<close> is fixed within a transaction.\<close>

definition exec_at :: "env \<Rightarrow> int \<Rightarrow> 'a sql \<Rightarrow> 'a dbp" where
  "exec_at E now q d =
     (let d' = d\<lparr>tick := Suc (tick d)\<rparr>
      in case ev_fault E (tick d) of
           Fine \<Rightarrow> q now d'
         | Lost m acted \<Rightarrow> (Inl (Pg m), if acted then snd (q now d') else d'))"

definition exec :: "env \<Rightarrow> 'a sql \<Rightarrow> 'a dbp" where
  "exec E q d = exec_at E (ev_now E (tick d)) q d"

text \<open>
  A query whose rows are read one by one: it can fail when it is sent and when its rows are
  read.
\<close>

definition skip_sql :: "unit sql" where
  "skip_sql now d = (Inr (), d)"

definition fetch :: "env \<Rightarrow> (db_error \<Rightarrow> db_error) \<Rightarrow> (db_error \<Rightarrow> db_error) \<Rightarrow> 'a sql \<Rightarrow> 'a dbp" where
  "fetch E w1 w2 q =
     bindE (handleE (exec E q) (\<lambda>e. raise (w1 e)))
       (\<lambda>x. bindE (handleE (exec E skip_sql) (\<lambda>e. raise (w2 e))) (\<lambda>_. ret x))"

text \<open>Rolling back restores the tables; sequences are not transactional.\<close>

definition rollback :: "db \<Rightarrow> db \<Rightarrow> db" where
  "rollback old d =
     d\<lparr>addresses := addresses old, runs := runs old, findings := findings old,
       checks := checks old, retries := retries old, incidents := incidents old,
       events := events old\<rparr>"

text \<open>
  \<^verbatim>\<open>Begin\<close>, the body, \<^verbatim>\<open>Commit\<close>, with \<^verbatim>\<open>defer tx.Rollback\<close>: every error return before the
  commit rolls back; a commit whose answer is lost may have happened.
\<close>

definition transact :: "env \<Rightarrow> string \<Rightarrow> string \<Rightarrow> (int \<Rightarrow> 'a dbp) \<Rightarrow> 'a dbp" where
  "transact E msg_begin msg_commit body d =
     (let d0 = d\<lparr>tick := Suc (tick d)\<rparr>
      in case ev_fault E (tick d) of
           Lost m _ \<Rightarrow> (Inl (Wrapped msg_begin (Pg m)), d0)
         | Fine \<Rightarrow>
             (case body (ev_now E (tick d)) d0 of
                (Inl e, d1) \<Rightarrow> (Inl e, rollback d d1)
              | (Inr x, d1) \<Rightarrow>
                  (case ev_fault E (tick d1) of
                     Fine \<Rightarrow> (Inr x, d1\<lparr>tick := Suc (tick d1)\<rparr>)
                   | Lost m acted \<Rightarrow>
                       (Inl (Wrapped msg_commit (Pg m)),
                        (if acted then d1 else rollback d d1)\<lparr>tick := Suc (tick d1)\<rparr>))))"

section \<open>The constraints of the schema\<close>

definition numeric_limit :: int where
  "numeric_limit = 10 ^ 78"

definition addresses_ok :: "db \<Rightarrow> bool" where
  "addresses_ok d \<longleftrightarrow>
     sorted_wrt (<) (map wa_id (addresses d)) \<and>
     (\<forall>r \<in> set (addresses d). 1 \<le> wa_id r \<and> wa_id r < next_address d \<and>
        wa_type r \<in> set address_types) \<and>
     distinct (map (\<lambda>r. (wa_type r, wa_normalized r)) (addresses d)) \<and> 1 \<le> next_address d"

definition run_ok :: "scan_run \<Rightarrow> bool" where
  "run_ok r \<longleftrightarrow> 1 \<le> run_start r \<and> run_start r \<le> run_end r \<and> run_cursor r \<le> run_end r \<and>
     run_status r \<in> {''running'', ''paused'', ''completed'', ''failed''}"

definition runs_ok :: "db \<Rightarrow> bool" where
  "runs_ok d \<longleftrightarrow> distinct (map (run_id \<circ> rr_run) (runs d)) \<and> (\<forall>r \<in> set (runs d). run_ok (rr_run r))"

definition address_ids :: "db \<Rightarrow> int set" where
  "address_ids d = wa_id ` set (addresses d)"

definition findings_ok :: "db \<Rightarrow> bool" where
  "findings_ok d \<longleftrightarrow>
     sorted_wrt (<) (map pf_id (findings d)) \<and>
     (\<forall>r \<in> set (findings d). pf_id r < next_finding d \<and> pf_address_id r \<in> address_ids d \<and>
        pf_chain r \<in> set all_chains \<and> 0 < pf_balance r \<and> pf_balance r < numeric_limit) \<and>
     distinct (map (\<lambda>r. (pf_address_id r, pf_chain r)) (findings d))"

definition check_ok :: "check_row \<Rightarrow> bool" where
  "check_ok r \<longleftrightarrow> bc_chain r \<in> set all_chains \<and>
     (case bc_balance r of None \<Rightarrow> True | Some b \<Rightarrow> 0 \<le> b \<and> b < numeric_limit) \<and>
     (bc_state r = ''checked'' \<and> bc_balance r \<noteq> None \<and> bc_symbol r \<noteq> None \<or>
      bc_state r = ''retry'' \<and> bc_balance r = None)"

definition checks_ok :: "db \<Rightarrow> bool" where
  "checks_ok d \<longleftrightarrow>
     sorted_wrt (<) (map bc_id (checks d)) \<and>
     (\<forall>r \<in> set (checks d). bc_id r < next_check d \<and> bc_address_id r \<in> address_ids d \<and> check_ok r) \<and>
     distinct (map (\<lambda>r. (bc_address_id r, bc_chain r)) (checks d))"

definition retries_ok :: "db \<Rightarrow> bool" where
  "retries_ok d \<longleftrightarrow>
     sorted_wrt (<) (map rq_id (retries d)) \<and>
     (\<forall>r \<in> set (retries d). rq_id r < next_retry d \<and> rq_address_id r \<in> address_ids d) \<and>
     distinct (map (\<lambda>r. (rq_address_id r, rq_chain r)) (retries d))"

definition incidents_ok :: "db \<Rightarrow> bool" where
  "incidents_ok d \<longleftrightarrow>
     sorted_wrt (<) (map ni_id (incidents d)) \<and>
     (\<forall>r \<in> set (incidents d). ni_id r < next_incident d \<and> ni_status r \<in> {''active'', ''recovered''})"

definition event_types :: "string set" where
  "event_types = {''first_positive'', ''balance_changed'', ''node_error''}"

definition event_statuses :: "string set" where
  "event_statuses = {''pending'', ''sent'', ''failed''}"

definition events_ok :: "db \<Rightarrow> bool" where
  "events_ok d \<longleftrightarrow>
     sorted_wrt (<) (map ne_id (events d)) \<and>
     (\<forall>r \<in> set (events d). ne_id r < next_event d \<and>
        ne_type r \<in> event_types \<and> ne_status r \<in> event_statuses \<and>
        (\<forall>f. ne_finding r = Some f \<longrightarrow> f \<in> pf_id ` set (findings d)) \<and>
        (\<forall>i. ne_incident r = Some i \<longrightarrow> i \<in> ni_id ` set (incidents d)))"

definition db_ok :: "db \<Rightarrow> bool" where
  "db_ok d \<longleftrightarrow> addresses_ok d \<and> runs_ok d \<and> findings_ok d \<and> checks_ok d \<and> retries_ok d \<and>
     incidents_ok d \<and> events_ok d"

lemma db_ok_empty: "db_ok empty_db"
  by (simp add: db_ok_def addresses_ok_def runs_ok_def findings_ok_def checks_ok_def
      retries_ok_def incidents_ok_def events_ok_def empty_db_def)

lemmas table_ok_defs = addresses_ok_def runs_ok_def findings_ok_def checks_ok_def retries_ok_def
  incidents_ok_def events_ok_def address_ids_def

text \<open>The invariant does not depend on the number of round trips.\<close>

lemma db_ok_tick [simp]: "db_ok (d\<lparr>tick := n\<rparr>) = db_ok d"
  by (simp add: db_ok_def table_ok_defs)

text \<open>
  The tables without the sequences and the counter: what a client can read. A later state
  \<open>extends\<close> an earlier one when no sequence went back.
\<close>

definition tables :: "db \<Rightarrow> db" where
  "tables d = d\<lparr>next_address := 0, next_finding := 0, next_check := 0, next_retry := 0,
     next_incident := 0, next_event := 0, tick := 0\<rparr>"

definition seq_le :: "db \<Rightarrow> db \<Rightarrow> bool" where
  "seq_le d d' \<longleftrightarrow> next_address d \<le> next_address d' \<and> next_finding d \<le> next_finding d' \<and>
     next_check d \<le> next_check d' \<and> next_retry d \<le> next_retry d' \<and>
     next_incident d \<le> next_incident d' \<and> next_event d \<le> next_event d'"

lemma seq_le_refl [simp]: "seq_le d d"
  by (simp add: seq_le_def)

lemma seq_le_trans: "seq_le a b \<Longrightarrow> seq_le b c \<Longrightarrow> seq_le a c"
  by (auto simp: seq_le_def)

lemma seq_le_tick [simp]: "seq_le (d\<lparr>tick := n\<rparr>) e = seq_le d e" "seq_le d (e\<lparr>tick := n\<rparr>) = seq_le d e"
  by (simp_all add: seq_le_def)

lemma tables_tick [simp]: "tables (d\<lparr>tick := n\<rparr>) = tables d"
  by (simp add: tables_def)

lemma tables_rollback [simp]: "tables (rollback old d) = tables old"
  by (cases old; cases d) (simp add: tables_def rollback_def)

lemma tables_eq_iff:
  "tables d = tables e \<longleftrightarrow> addresses d = addresses e \<and> runs d = runs e \<and> findings d = findings e \<and>
     checks d = checks e \<and> retries d = retries e \<and> incidents d = incidents e \<and> events d = events e"
  by (cases d; cases e) (simp add: tables_def)

text \<open>Rolling back to a good state is good when the sequences only grew.\<close>

lemma db_ok_rollback:
  assumes "db_ok old" and "seq_le old d"
  shows "db_ok (rollback old d)"
proof -
  have s: "x < n \<Longrightarrow> n \<le> m \<Longrightarrow> x < m" for x n m :: int by linarith
  have "addresses_ok (rollback old d)" "runs_ok (rollback old d)" "findings_ok (rollback old d)"
      "checks_ok (rollback old d)" "retries_ok (rollback old d)" "incidents_ok (rollback old d)"
      "events_ok (rollback old d)"
    using assms unfolding db_ok_def seq_le_def
    by (simp_all add: table_ok_defs rollback_def) (blast intro: s order_trans)+
  then show ?thesis by (simp add: db_ok_def)
qed

text \<open>
  A statement is \<open>good\<close> when it keeps the constraints and no sequence goes back. The rules
  for good statements, programs and transactions are in \<open>keeps\<close> through \<open>good\<close>.
\<close>

definition good :: "(db, 'e, 'a) prog \<Rightarrow> bool" where
  "good p \<longleftrightarrow> (\<forall>d. db_ok d \<longrightarrow> db_ok (snd (p d)) \<and> seq_le d (snd (p d)))"

named_theorems good_rules

lemma goodI: "(\<And>d. db_ok d \<Longrightarrow> db_ok (snd (p d)) \<and> seq_le d (snd (p d))) \<Longrightarrow> good p"
  by (simp add: good_def)

lemma good_keeps: "good p \<Longrightarrow> keeps db_ok p"
  by (simp add: good_def keeps_def)

lemma goodD: "good p \<Longrightarrow> db_ok d \<Longrightarrow> db_ok (snd (p d))"
  by (simp add: good_def)

lemma good_ret [good_rules]: "good (ret x)"
  by (simp add: good_def)

lemma good_raise [good_rules]: "good (raise e)"
  by (simp add: good_def)

lemma good_getE [good_rules]: "good (getE f)"
  by (simp add: good_def)

lemma good_bindE [good_rules]: "good p \<Longrightarrow> (\<And>x. good (k x)) \<Longrightarrow> good (bindE p k)"
  unfolding good_def bindE_def
  by (auto split: prod.split sum.split) (metis snd_conv seq_le_trans)+

lemma good_handleE [good_rules]: "good p \<Longrightarrow> (\<And>e. good (h e)) \<Longrightarrow> good (handleE p h)"
  unfolding good_def handleE_def
  by (auto split: prod.split sum.split) (metis snd_conv seq_le_trans)+

lemma good_tryE [good_rules]:
  "good p \<Longrightarrow> (\<And>x. good (k x)) \<Longrightarrow> (\<And>e. good (h e)) \<Longrightarrow> good (tryE p k h)"
  unfolding good_def tryE_def
  by (auto split: prod.split sum.split) (metis snd_conv seq_le_trans)+

lemma good_voidE [good_rules]: "good p \<Longrightarrow> good (voidE p)"
  by (simp add: good_def)

lemma good_wrapD [good_rules]: "good p \<Longrightarrow> good (wrapD m p)"
  unfolding wrapD_def by (intro good_rules)

lemma good_ignoreE [good_rules]: "good p \<Longrightarrow> good (ignoreE p)"
  by (simp add: good_def)

lemma good_eachE [good_rules]: "(\<And>x. x \<in> set xs \<Longrightarrow> good (f x)) \<Longrightarrow> good (eachE f xs)"
  by (induction xs) (auto intro: good_rules)

lemma good_mapE [good_rules]: "(\<And>x. x \<in> set xs \<Longrightarrow> good (f x)) \<Longrightarrow> good (mapE f xs)"
  by (induction xs) (auto intro!: good_rules)

lemma good_if [good_rules]: "(b \<Longrightarrow> good p) \<Longrightarrow> (\<not> b \<Longrightarrow> good q) \<Longrightarrow> good (if b then p else q)"
  by simp

lemma good_case_option [good_rules]:
  "(x = None \<Longrightarrow> good p) \<Longrightarrow> (\<And>y. x = Some y \<Longrightarrow> good (q y)) \<Longrightarrow>
   good (case x of None \<Rightarrow> p | Some y \<Rightarrow> q y)"
  by (cases x) simp_all

lemma good_case_prod [good_rules]:
  "(\<And>a b. x = (a, b) \<Longrightarrow> good (q a b)) \<Longrightarrow> good (case x of (a, b) \<Rightarrow> q a b)"
  by (cases x) simp

lemma keeps_exec_at [keeps]:
  assumes "keeps I (q now)" and "\<And>d n. I d \<Longrightarrow> I (d\<lparr>tick := n\<rparr>)"
  shows "keeps I (exec_at E now q)"
  using assms by (simp add: keeps_def exec_at_def Let_def split: fault.split)

lemma keeps_exec [keeps]:
  assumes "\<And>now. keeps I (q now)" and "\<And>d n. I d \<Longrightarrow> I (d\<lparr>tick := n\<rparr>)"
  shows "keeps I (exec E q)"
  using keeps_exec_at [of I q _ E] assms by (simp add: keeps_def exec_def)

lemma keeps_wrapD [keeps]: "keeps I p \<Longrightarrow> keeps I (wrapD m p)"
  unfolding wrapD_def by (intro keeps)

lemma keeps_case_prod [keeps]:
  "(\<And>a b. x = (a, b) \<Longrightarrow> keeps I (q a b)) \<Longrightarrow> keeps I (case x of (a, b) \<Rightarrow> q a b)"
  by (cases x) simp

lemma good_exec_at [good_rules]:
  assumes "good (q now)"
  shows "good (exec_at E now q)"
  using assms unfolding good_def exec_at_def
  by (simp add: Let_def split: fault.split) (metis db_ok_tick seq_le_tick(1))

lemma good_exec [good_rules]: "(\<And>now. good (q now)) \<Longrightarrow> good (exec E q)"
  using good_exec_at [of q _ E] by (simp add: good_def exec_def)

lemma good_skip [good_rules]: "good (skip_sql now)"
  by (simp add: good_def skip_sql_def)

lemma good_fetch [good_rules]: "(\<And>now. good (q now)) \<Longrightarrow> good (fetch E w1 w2 q)"
  unfolding fetch_def by (intro good_rules)

lemma seq_le_rollback [simp]: "seq_le d (rollback old d1) = seq_le d d1"
  by (simp add: seq_le_def rollback_def)

lemma good_transact [good_rules]:
  assumes "\<And>now. good (body now)"
  shows "good (transact E mb mc body)"
proof (rule goodI)
  fix d
  assume d: "db_ok d"
  define d0 where "d0 = d\<lparr>tick := Suc (tick d)\<rparr>"
  obtain r d1 where b: "body (ev_now E (tick d)) d0 = (r, d1)" by fastforce
  have "db_ok d0" using d by (simp add: d0_def)
  with assms [of "ev_now E (tick d)"] b have 1: "db_ok d1" and "seq_le d0 d1"
    unfolding good_def by (metis snd_conv)+
  then have 2: "seq_le d d1" by (simp add: d0_def)
  with 1 d show "db_ok (snd (transact E mb mc body d)) \<and> seq_le d (snd (transact E mb mc body d))"
    unfolding transact_def Let_def using b [unfolded d0_def]
    by (auto simp: db_ok_rollback split: fault.split sum.split)
qed

text \<open>
  All or nothing: a transaction that reports an error before its commit leaves the tables as
  they were; only a commit whose answer is lost may have taken effect.
\<close>

lemma transact_atomic:
  assumes "transact E mb mc body d = (r, d')"
  shows "(\<exists>x. r = Inr x) \<or> tables d' = tables d \<or>
    (\<exists>m x d1. r = Inl (Wrapped mc (Pg m)) \<and>
       body (ev_now E (tick d)) (d\<lparr>tick := Suc (tick d)\<rparr>) = (Inr x, d1) \<and> tables d' = tables d1)"
  using assms unfolding transact_def
  by (auto simp: Let_def split: fault.splits prod.splits sum.splits if_splits)

lemma transact_Inr:
  "transact E mb mc body d = (Inr x, d') \<longleftrightarrow>
     ev_fault E (tick d) = Fine \<and>
     (\<exists>d1. body (ev_now E (tick d)) (d\<lparr>tick := Suc (tick d)\<rparr>) = (Inr x, d1) \<and>
        ev_fault E (tick d1) = Fine \<and> d' = d1\<lparr>tick := Suc (tick d1)\<rparr>)"
  unfolding transact_def by (auto simp: Let_def split: fault.splits prod.splits sum.splits)

lemma exec_at_Inr:
  "exec_at E now q d = (Inr x, d') \<longleftrightarrow>
     ev_fault E (tick d) = Fine \<and> q now (d\<lparr>tick := Suc (tick d)\<rparr>) = (Inr x, d')"
  unfolding exec_at_def by (auto simp: Let_def split: fault.splits)

lemma exec_Inr:
  "exec E q d = (Inr x, d') \<longleftrightarrow>
     ev_fault E (tick d) = Fine \<and> q (ev_now E (tick d)) (d\<lparr>tick := Suc (tick d)\<rparr>) = (Inr x, d')"
  unfolding exec_def by (rule exec_at_Inr)

lemma snd_exec:
  "snd (exec E q d) = snd (q (ev_now E (tick d)) (d\<lparr>tick := Suc (tick d)\<rparr>)) \<or>
   snd (exec E q d) = d\<lparr>tick := Suc (tick d)\<rparr>"
  by (simp add: exec_def exec_at_def Let_def split: fault.split)

lemma exec_Fine:
  "ev_fault E (tick d) = Fine \<Longrightarrow> exec E q d = q (ev_now E (tick d)) (d\<lparr>tick := Suc (tick d)\<rparr>)"
  by (simp add: exec_def exec_at_def)

lemma wrapD_Inr [simp]: "wrapD m p d = (Inr x, d') \<longleftrightarrow> p d = (Inr x, d')"
  by (auto simp: wrapD_def handleE_def split: prod.splits sum.splits)

lemma handleE_raise_Inr [simp]: "handleE p (\<lambda>e. raise (w e)) d = (Inr x, d') \<longleftrightarrow> p d = (Inr x, d')"
  by (auto simp: handleE_def split: prod.splits sum.splits)

text \<open>A statement that does not act when it fails leaves the tables alone on every error.\<close>

lemma snd_wrapD [simp]: "snd (wrapD m p d) = snd (p d)"
  by (auto simp: wrapD_def handleE_def split: prod.splits sum.splits)

text \<open>\<^verbatim>\<open>LIMIT n\<close> after \<^verbatim>\<open>ORDER BY\<close>; rows with equal keys come in insertion order.\<close>

definition select_sorted :: "('r \<Rightarrow> int) \<Rightarrow> ('r \<Rightarrow> bool) \<Rightarrow> nat \<Rightarrow> 'r list \<Rightarrow> 'r list" where
  "select_sorted key P n rs = take n (sort_key key (filter P rs))"

lemma select_sorted_id:
  assumes "sorted_wrt (<) (map key rs)"
  shows "select_sorted key P n rs = take n (filter P rs)"
proof -
  have "sorted (map key rs)" using assms by (metis strict_sorted_iff)
  then have "sorted (map key (filter P rs))" by (rule sorted_filter)
  then show ?thesis by (simp add: select_sorted_def sort_key_id_if_sorted)
qed

text \<open>\<^verbatim>\<open>min(k)\<close> and \<^verbatim>\<open>max(k)\<close> over a set of rows; NULL when there are none.\<close>

definition sql_min :: "int list \<Rightarrow> int option" where
  "sql_min ks = (if ks = [] then None else Some (fold min (tl ks) (hd ks)))"

definition sql_max :: "int list \<Rightarrow> int option" where
  "sql_max ks = (if ks = [] then None else Some (fold max (tl ks) (hd ks)))"

lemma sql_min_Min: "sql_min ks = (if ks = [] then None else Some (Min (set ks)))"
  by (cases ks) (simp_all add: sql_min_def flip: Min.set_eq_fold)

lemma sql_max_Max: "sql_max ks = (if ks = [] then None else Some (Max (set ks)))"
  by (cases ks) (simp_all add: sql_max_def flip: Max.set_eq_fold)

text \<open>
  \<^verbatim>\<open>UPDATE ... WHERE\<close>, and \<^verbatim>\<open>INSERT ... ON CONFLICT (k) DO UPDATE\<close> of the row \<open>new\<close>: the row
  with its key is updated, or there is none and the new row is appended.
\<close>

definition update_where :: "('r \<Rightarrow> bool) \<Rightarrow> ('r \<Rightarrow> 'r) \<Rightarrow> 'r list \<Rightarrow> 'r list" where
  "update_where P f rs = map (\<lambda>r. if P r then f r else r) rs"

definition has_key :: "('r \<Rightarrow> 'k) \<Rightarrow> 'k \<Rightarrow> 'r list \<Rightarrow> bool" where
  "has_key key k rs \<longleftrightarrow> list_ex (\<lambda>r. key r = k) rs"

definition upsert :: "('r \<Rightarrow> 'k) \<Rightarrow> ('r \<Rightarrow> 'r) \<Rightarrow> 'r \<Rightarrow> 'r list \<Rightarrow> 'r list" where
  "upsert key f new rs =
     (if has_key key (key new) rs then update_where (\<lambda>r. key r = key new) f rs else rs @ [new])"

lemma has_key_iff: "has_key key k rs \<longleftrightarrow> k \<in> key ` set rs"
  by (auto simp: has_key_def list_ex_iff)

lemma update_where_map: "(\<And>r. P r \<Longrightarrow> g (f r) = g r) \<Longrightarrow> map g (update_where P f rs) = map g rs"
  by (simp add: update_where_def)

lemma update_where_image: "(\<And>r. P r \<Longrightarrow> g (f r) = g r) \<Longrightarrow> g ` set (update_where P f rs) = g ` set rs"
  by (metis update_where_map list.set_map)

lemma set_update_where:
  "x \<in> set (update_where P f rs) \<longleftrightarrow> x \<in> set rs \<and> \<not> P x \<or> (\<exists>r \<in> set rs. P r \<and> x = f r)"
  by (auto simp: update_where_def split: if_splits)

lemma upsert_distinct:
  assumes "distinct (map key rs)" and "\<And>r. key r = key new \<Longrightarrow> key (f r) = key r"
  shows "distinct (map key (upsert key f new rs))"
proof -
  have "map key (update_where (\<lambda>r. key r = key new) f rs) = map key rs"
    by (rule update_where_map) (rule assms(2))
  with assms(1) show ?thesis by (auto simp: upsert_def has_key_iff)
qed

lemma upsert_sorted:
  assumes "sorted_wrt (<) (map k rs)" and "\<And>r. k (f r) = k r" and "\<And>r. r \<in> set rs \<Longrightarrow> k r < k new"
  shows "sorted_wrt (<) (map k (upsert key f new rs))"
  using assms by (auto simp: upsert_def update_where_map sorted_wrt_append)

lemma set_upsert:
  "x \<in> set (upsert key f new rs) \<Longrightarrow>
     x \<in> set rs \<and> key x \<noteq> key new \<or> (\<exists>r \<in> set rs. key r = key new \<and> x = f r) \<or>
     x = new \<and> \<not> has_key key (key new) rs"
  by (auto simp: upsert_def set_update_where has_key_iff image_iff split: if_splits)

text \<open>The row with a key.\<close>

definition row_of :: "('r \<Rightarrow> 'k) \<Rightarrow> 'k \<Rightarrow> 'r list \<Rightarrow> 'r option" where
  "row_of key k rs = List.find (\<lambda>r. key r = k) rs"

lemma row_of_None: "row_of key k rs = None \<longleftrightarrow> \<not> has_key key k rs"
  by (auto simp: row_of_def find_None_iff has_key_iff)

lemma row_of_Some: "distinct (map key rs) \<Longrightarrow> row_of key k rs = Some r \<longleftrightarrow> r \<in> set rs \<and> key r = k"
  by (induction rs) (auto simp: row_of_def)

lemma row_of_append:
  "row_of key k (rs @ ss) = (case row_of key k rs of None \<Rightarrow> row_of key k ss | Some r \<Rightarrow> Some r)"
  by (induction rs) (auto simp: row_of_def)

lemma row_of_update_where:
  assumes "\<And>r. P r \<Longrightarrow> key (f r) = key r"
  shows "row_of key k (update_where P f rs) = map_option (\<lambda>r. if P r then f r else r) (row_of key k rs)"
  using assms by (induction rs) (auto simp: row_of_def update_where_def)

lemma row_of_key: "row_of key k rs = Some r \<Longrightarrow> key r = k \<and> r \<in> set rs"
  by (auto simp: row_of_def find_Some_iff)

lemma row_of_single [simp]: "row_of key k [r] = (if key r = k then Some r else None)"
  by (simp add: row_of_def)

lemma row_of_update_other:
  assumes "k \<noteq> k0" and "\<And>r. key r = k0 \<Longrightarrow> key (f r) = key r"
  shows "row_of key k (update_where (\<lambda>r. key r = k0) f rs) = row_of key k rs"
  using assms by (induction rs) (auto simp: row_of_def update_where_def)

lemma row_of_upsert:
  assumes "\<And>r. key r = key new \<Longrightarrow> key (f r) = key r"
  shows "row_of key k (upsert key f new rs) =
    (if k = key new then Some (case row_of key k rs of None \<Rightarrow> new | Some r \<Rightarrow> f r)
     else row_of key k rs)"
proof (cases "has_key key (key new) rs")
  case True
  then have "row_of key (key new) rs \<noteq> None" by (simp add: row_of_None)
  moreover have "key r = k" if "row_of key k rs = Some r" for r
    using that by (auto simp: row_of_def find_Some_iff)
  moreover have "row_of key k (update_where (\<lambda>r. key r = key new) f rs) =
      map_option (\<lambda>r. if key r = key new then f r else r) (row_of key k rs)"
    by (rule row_of_update_where) (rule assms)
  ultimately show ?thesis using True
    by (cases "row_of key k rs") (auto simp: upsert_def)
next
  case False
  then have "row_of key (key new) rs = None" by (simp add: row_of_None)
  then show ?thesis using False
    by (auto simp: upsert_def row_of_append split: option.split)
qed

section \<open>The interface of an upserting operation\<close>

text \<open>
  Three operations of the store write the row of one key: the positive finding, the startup
  check and the retry record of an address on a chain. Their clients call them for several
  keys in a row and rely on the same contract: after a success the row of the key holds the
  value written (\<open>stored old x new\<close>), and no other key is touched, whether the call fails or
  not.
\<close>

locale upserting =
  fixes put :: "'x \<Rightarrow> 'a dbp"
    and look :: "db \<Rightarrow> 'k \<Rightarrow> 'r option"
    and key :: "'x \<Rightarrow> 'k"
    and stored :: "'r option \<Rightarrow> 'x \<Rightarrow> 'r \<Rightarrow> bool"
  assumes put_stored: "put x d = (Inr a, d') \<Longrightarrow>
      \<exists>r. look d' (key x) = Some r \<and> stored (look d (key x)) x r"
    and put_others: "k \<noteq> key x \<Longrightarrow> look (snd (put x d)) k = look d k"
begin

lemma each_others:
  "k \<notin> key ` set xs \<Longrightarrow> look (snd (eachE (\<lambda>x. voidE (put x)) xs d)) k = look d k"
proof (induction xs arbitrary: d)
  case (Cons x xs)
  obtain r d1 where p: "put x d = (r, d1)" by fastforce
  with put_others [of k x d] Cons.prems have "look d1 k = look d k" by auto
  with Cons p show ?case by (cases r) (auto simp: bindE_def voidE_def)
qed simp

lemma each_stored:
  assumes "distinct (map key xs)" and "eachE (\<lambda>x. voidE (put x)) xs d = (Inr u, d')"
    and "x \<in> set xs"
  shows "\<exists>r. look d' (key x) = Some r \<and> stored (look d (key x)) x r"
  using assms
proof (induction xs arbitrary: d)
  case (Cons y ys)
  from Cons.prems(2) obtain a d1 where p: "put y d = (Inr a, d1)"
      and rest: "eachE (\<lambda>x. voidE (put x)) ys d1 = (Inr u, d')"
    by (auto simp: bindE_eq_Inr voidE_eq_Inr)
  show ?case
  proof (cases "x = y")
    case True
    with Cons.prems(1) have "key x \<notin> key ` set ys" by auto
    from each_others [OF this, of d1] rest have "look d' (key x) = look d1 (key x)" by simp
    with put_stored [OF p] True show ?thesis by simp
  next
    case False
    with Cons.prems have x: "x \<in> set ys" by simp
    then have "key x \<in> key ` set ys" by simp
    with Cons.prems(1) have "key x \<noteq> key y" by auto
    with put_others [of "key x" y d] p have "look d1 (key x) = look d (key x)" by simp
    with Cons.IH [OF _ rest x] Cons.prems(1) show ?thesis by simp
  qed
qed simp

end

text \<open>\<^verbatim>\<open>NULLIF(s, '')\<close>.\<close>

definition nullif_empty :: "string \<Rightarrow> string option" where
  "nullif_empty s = (if s = [] then None else Some s)"

end
