(* ===== verification/Store_Addresses.thy ===== *)
theory Store_Addresses
  imports Tables
begin

text \<open>
  \<^verbatim>\<open>internal/db/store.go\<close>, the address table: the import of a batch of addresses in one
  transaction, the range queries of a scan and its keyset pagination.
\<close>

section \<open>Inserting a batch\<close>

definition address_key :: "wallet_row \<Rightarrow> string \<times> string" where
  "address_key r = (wa_type r, wa_normalized r)"

definition input_key :: "address_input \<Rightarrow> string \<times> string" where
  "input_key a = (ai_type a, ai_normalized a)"

text \<open>
  \<^verbatim>\<open>INSERT ... ON CONFLICT (address_type, normalized_address) DO NOTHING RETURNING id\<close>: the
  default of \<^verbatim>\<open>id\<close> is drawn from the sequence first, whether or not the row goes in.
\<close>

definition sql_insert_address :: "uuid \<Rightarrow> address_input \<Rightarrow> int sql" where
  "sql_insert_address batch a now d =
     (let id = next_address d; d' = d\<lparr>next_address := id + 1\<rparr>
      in if ai_type a \<notin> set address_types then (Inl (Pg ''check constraint violated''), d')
         else if has_key address_key (input_key a) (addresses d) then (Inl No_rows, d')
         else
           (Inr id,
            d'\<lparr>addresses := addresses d @
              [\<lparr>wa_id = id, wa_type = ai_type a, wa_address = ai_address a,
                wa_normalized = ai_normalized a, wa_label = ai_label a, wa_batch = batch,
                wa_created = now\<rparr>]\<rparr>))"

definition sql_address_id :: "address_input \<Rightarrow> int sql" where
  "sql_address_id a now d =
     (case row_of address_key (input_key a) (addresses d) of
        None \<Rightarrow> (Inl No_rows, d)
      | Some r \<Rightarrow> (Inr (wa_id r), d))"

definition insert_one :: "env \<Rightarrow> int \<Rightarrow> uuid \<Rightarrow> address_input \<Rightarrow> (int \<times> bool) dbp" where
  "insert_one E now batch a =
     wrapD ''insert address: ''
       (handleE
         (bindE (exec_at E now (sql_insert_address batch a)) (\<lambda>id. ret (id, True)))
         (\<lambda>e. if e = No_rows
              then bindE (exec_at E now (sql_address_id a)) (\<lambda>id. ret (id, False))
              else raise e))"

definition insertAddressesWithIDs ::
  "env \<Rightarrow> uuid \<Rightarrow> address_input list \<Rightarrow> (int list \<times> nat) dbp" where
  "insertAddressesWithIDs E batch as =
     (if as = [] then ret ([], 0)
      else transact E ''begin address import: '' ''commit address import: ''
        (\<lambda>now. bindE (mapE (insert_one E now batch) as)
           (\<lambda>rs. ret (map fst rs, length (filter snd rs)))))"

definition InsertAddresses :: "env \<Rightarrow> uuid \<Rightarrow> address_input list \<Rightarrow> nat dbp" where
  "InsertAddresses E batch as = bindE (insertAddressesWithIDs E batch as) (\<lambda>r. ret (snd r))"

definition InsertAddressesWithIDs :: "env \<Rightarrow> uuid \<Rightarrow> address_input list \<Rightarrow> int list dbp" where
  "InsertAddressesWithIDs E batch as = bindE (insertAddressesWithIDs E batch as) (\<lambda>r. ret (fst r))"

section \<open>Ranges and pagination\<close>

definition sql_address_range :: "(int option \<times> int option) sql" where
  "sql_address_range now d =
     (Inr (sql_min (map wa_id (addresses d)), sql_max (map wa_id (addresses d))), d)"

definition to_range :: "int option \<times> int option \<Rightarrow> (int \<times> int) option" where
  "to_range r = (case r of (Some a, Some b) \<Rightarrow> Some (a, b) | _ \<Rightarrow> None)"

definition AddressRange :: "env \<Rightarrow> (int \<times> int) option dbp" where
  "AddressRange E =
     bindE (wrapD ''read address range: '' (exec E sql_address_range)) (\<lambda>r. ret (to_range r))"

definition sql_last_end :: "int sql" where
  "sql_last_end now d =
     (Inr (case sql_max (map (run_end \<circ> rr_run)
                   (filter (\<lambda>r. run_status (rr_run r) = ''completed'') (runs d))) of
             None \<Rightarrow> 0 | Some k \<Rightarrow> k), d)"

definition sql_range_after :: "int \<Rightarrow> (int option \<times> int option) sql" where
  "sql_range_after k now d =
     (let ids = filter (\<lambda>i. i > k) (map wa_id (addresses d))
      in (Inr (sql_min ids, sql_max ids), d))"

definition UnscannedRange :: "env \<Rightarrow> (int \<times> int) option dbp" where
  "UnscannedRange E =
     bindE (wrapD ''read completed scan range: '' (exec E sql_last_end))
       (\<lambda>k. bindE (wrapD ''read unscanned range: '' (exec E (sql_range_after k)))
          (\<lambda>r. ret (to_range r)))"

definition to_address :: "wallet_row \<Rightarrow> address" where
  "to_address r =
     \<lparr>ad_id = wa_id r, ad_type = wa_type r, ad_address = wa_address r, ad_label = wa_label r\<rparr>"

definition sql_next_addresses :: "scan_run \<Rightarrow> nat \<Rightarrow> address list sql" where
  "sql_next_addresses run n now d =
     (Inr (map to_address
        (select_sorted wa_id (\<lambda>r. wa_id r > run_cursor run \<and> wa_id r \<le> run_end run) n
           (addresses d))), d)"

definition NextAddresses :: "env \<Rightarrow> scan_run \<Rightarrow> nat \<Rightarrow> address list dbp" where
  "NextAddresses E run n =
     fetch E (Wrapped ''read scan batch: '') (Wrapped ''read scan batch rows: '')
       (sql_next_addresses run n)"

section \<open>The invariant\<close>

lemma good_insert_address [good_rules]: "good (sql_insert_address batch a now)"
proof (rule goodI)
  fix d
  assume d: "db_ok d"
  let ?d' = "snd (sql_insert_address batch a now d)"
  have lt: "x < n \<Longrightarrow> x < n + 1" for x n :: int by simp
  have "addresses_ok ?d'"
    using d unfolding db_ok_def addresses_ok_def sql_insert_address_def Let_def
    by (auto simp: sorted_wrt_append has_key_iff address_key_def input_key_def image_iff intro: lt)
  moreover have sub: "address_ids d \<subseteq> address_ids ?d'"
    by (auto simp: address_ids_def sql_insert_address_def Let_def)
  then have "findings_ok ?d' \<and> checks_ok ?d' \<and> retries_ok ?d'"
    using d unfolding db_ok_def findings_ok_def checks_ok_def retries_ok_def
    by (auto simp: sql_insert_address_def Let_def)
  moreover have "runs_ok ?d' \<and> incidents_ok ?d' \<and> events_ok ?d'"
    using d unfolding db_ok_def runs_ok_def incidents_ok_def events_ok_def
    by (simp add: sql_insert_address_def Let_def)
  ultimately show "db_ok ?d' \<and> seq_le d ?d'"
    by (simp add: db_ok_def seq_le_def sql_insert_address_def Let_def)
qed

lemma sql_address_id_read: "snd (sql_address_id a now d) = d"
  by (simp add: sql_address_id_def split: option.split)

lemma good_reads [good_rules]:
  "good (sql_address_id a now)" "good (sql_address_range now)" "good (sql_last_end now)"
  "good (sql_range_after k now)" "good (sql_next_addresses run n now)"
  by (simp_all add: good_def sql_address_id_read sql_address_range_def sql_last_end_def
      sql_range_after_def sql_next_addresses_def Let_def)

lemma good_insert_one [good_rules]: "good (insert_one E now batch a)"
  unfolding insert_one_def by (intro good_rules)

lemma good_insertAddressesWithIDs [good_rules]: "good (insertAddressesWithIDs E batch as)"
  unfolding insertAddressesWithIDs_def by (intro good_rules)

lemma good_address_ops [good_rules]:
  "good (InsertAddresses E batch as)" "good (InsertAddressesWithIDs E batch as)"
  "good (AddressRange E)" "good (UnscannedRange E)" "good (NextAddresses E run n)"
  unfolding InsertAddresses_def InsertAddressesWithIDs_def AddressRange_def UnscannedRange_def
    NextAddresses_def
  by (intro good_rules)+

section \<open>What an import does\<close>

text \<open>The key set of the table, and that only the address table changes.\<close>

definition keys_of :: "db \<Rightarrow> (string \<times> string) set" where
  "keys_of d = address_key ` set (addresses d)"

definition same_rest :: "db \<Rightarrow> db \<Rightarrow> bool" where
  "same_rest d d' \<longleftrightarrow> runs d' = runs d \<and> findings d' = findings d \<and> checks d' = checks d \<and>
     retries d' = retries d \<and> incidents d' = incidents d \<and> events d' = events d"

lemma same_rest_refl [simp]: "same_rest d d"
  by (simp add: same_rest_def)

lemma same_rest_trans: "same_rest a b \<Longrightarrow> same_rest b c \<Longrightarrow> same_rest a c"
  by (simp add: same_rest_def)

text \<open>One address: a new row with a fresh id, or the id of the row that has its key.\<close>

lemma insert_one_spec:
  assumes "insert_one E now batch a d = (Inr (i, new), d')"
  shows "same_rest d d' \<and> row_of address_key (input_key a) (addresses d') \<noteq> None \<and>
    (if new
     then input_key a \<notin> keys_of d \<and> (\<exists>r. addresses d' = addresses d @ [r] \<and> address_key r = input_key a \<and>
            wa_id r = i \<and> wa_batch r = batch)
     else addresses d' = addresses d \<and>
          (\<exists>r. row_of address_key (input_key a) (addresses d) = Some r \<and> wa_id r = i))"
  using assms unfolding insert_one_def keys_of_def
  by (auto simp: handleE_def bindE_eq_Inr exec_at_def sql_insert_address_def sql_address_id_def
      Let_def same_rest_def has_key_iff row_of_None address_key_def input_key_def bindE_def
      split: prod.splits sum.splits if_splits option.splits fault.splits)

text \<open>The whole batch, in the words of the table it leaves.\<close>

definition imported :: "uuid \<Rightarrow> address_input list \<Rightarrow> db \<Rightarrow> int list \<Rightarrow> nat \<Rightarrow> db \<Rightarrow> bool" where
  "imported batch as d ids n d' \<longleftrightarrow>
     same_rest d d' \<and>
     (\<exists>new. addresses d' = addresses d @ new \<and> length new = n \<and>
        (\<forall>r \<in> set new. wa_batch r = batch \<and> address_key r \<in> input_key ` set as)) \<and>
     list_all2 (\<lambda>a i. \<exists>r. row_of address_key (input_key a) (addresses d') = Some r \<and> wa_id r = i) as ids"

lemma imported_Nil: "same_rest d d' \<Longrightarrow> addresses d' = addresses d \<Longrightarrow> imported batch [] d [] 0 d'"
  by (simp add: imported_def)

lemma imported_Cons:
  assumes one: "insert_one E now batch a d = (Inr (i, b), d1)"
    and rest: "imported batch as d1 ids n d'"
  shows "imported batch (a # as) d (i # ids) (if b then Suc n else n) d'"
proof -
  from rest obtain new where new: "addresses d' = addresses d1 @ new" "length new = n"
      "\<forall>r \<in> set new. wa_batch r = batch \<and> address_key r \<in> input_key ` set as"
    by (auto simp: imported_def)
  note spec = insert_one_spec [OF one]
  obtain r where r: "row_of address_key (input_key a) (addresses d1) = Some r" "wa_id r = i"
  proof (cases b)
    case True
    with spec obtain r where "input_key a \<notin> keys_of d" "addresses d1 = addresses d @ [r]"
        "address_key r = input_key a" "wa_id r = i" by auto
    then have "row_of address_key (input_key a) (addresses d1) = Some r"
      by (simp add: row_of_append row_of_None [THEN iffD2] has_key_iff keys_of_def)
    then show ?thesis using \<open>wa_id r = i\<close> by (rule that)
  next
    case False
    with spec that show ?thesis by auto
  qed
  have "same_rest d d'"
    using spec rest by (auto simp: imported_def intro: same_rest_trans)
  moreover have "\<exists>new. addresses d' = addresses d @ new \<and> length new = (if b then Suc n else n) \<and>
      (\<forall>r \<in> set new. wa_batch r = batch \<and> address_key r \<in> input_key ` set (a # as))"
    using spec new by (cases b) auto
  moreover have "row_of address_key (input_key a) (addresses d') = Some r"
    using r new by (simp add: row_of_append)
  ultimately show ?thesis using rest r unfolding imported_def by auto
qed

lemma insert_all_imported:
  "mapE (insert_one E now batch) as d = (Inr rs, d') \<Longrightarrow>
     imported batch as d (map fst rs) (length (filter snd rs)) d'"
proof (induction as arbitrary: d rs)
  case Nil
  then show ?case by (simp add: imported_Nil)
next
  case (Cons a as)
  from Cons.prems obtain i b d1 ps where 1: "insert_one E now batch a d = (Inr (i, b), d1)"
      and 2: "mapE (insert_one E now batch) as d1 = (Inr ps, d')" and 3: "rs = (i, b) # ps"
    by (auto simp: bindE_eq_Inr)
  from imported_Cons [OF 1 Cons.IH [OF 2]] 3 show ?case by (cases b) simp_all
qed

lemma imported_tick [simp]:
  "imported batch as (d\<lparr>tick := k\<rparr>) ids n d' = imported batch as d ids n d'"
  "imported batch as d ids n (d'\<lparr>tick := k\<rparr>) = imported batch as d ids n d'"
  by (simp_all add: imported_def same_rest_def)

lemma insert_imported:
  assumes "insertAddressesWithIDs E batch as d = (Inr (ids, n), d')"
  shows "imported batch as d ids n d'"
proof (cases "as = []")
  case True
  with assms show ?thesis by (simp add: insertAddressesWithIDs_def imported_Nil)
next
  case False
  with assms show ?thesis
    by (auto simp: insertAddressesWithIDs_def transact_Inr bindE_eq_Inr dest!: insert_all_imported)
qed

lemma imported_keys:
  assumes "imported batch as d ids n d'" and "db_ok d'"
  shows "keys_of d' = keys_of d \<union> input_key ` set as" and "n = card (input_key ` set as - keys_of d)"
proof -
  from assms(1) obtain new where new: "addresses d' = addresses d @ new" "length new = n"
      "\<forall>r \<in> set new. address_key r \<in> input_key ` set as"
    by (auto simp: imported_def)
  have all2: "list_all2 (\<lambda>a i. \<exists>r. row_of address_key (input_key a) (addresses d') = Some r \<and> wa_id r = i) as ids"
    using assms(1) by (simp add: imported_def)
  have sub: "input_key ` set as \<subseteq> keys_of d'"
  proof
    fix k
    assume "k \<in> input_key ` set as"
    then obtain a where a: "a \<in> set as" "k = input_key a" by auto
    with all2 have "row_of address_key (input_key a) (addresses d') \<noteq> None"
      by (auto simp: list_all2_conv_all_nth in_set_conv_nth)
    then show "k \<in> keys_of d'" using a by (simp add: row_of_None has_key_iff keys_of_def)
  qed
  have d': "keys_of d' = keys_of d \<union> address_key ` set new"
    using new by (auto simp: keys_of_def)
  have "address_key ` set new \<subseteq> input_key ` set as" using new(3) by auto
  with sub d' show "keys_of d' = keys_of d \<union> input_key ` set as" by blast
  have dist: "distinct (map address_key (addresses d'))"
    using assms(2) by (simp add: db_ok_def addresses_ok_def address_key_def [abs_def])
  then have "keys_of d \<inter> address_key ` set new = {}" using new by (auto simp: keys_of_def)
  then have "input_key ` set as - keys_of d = address_key ` set new"
    using \<open>keys_of d' = keys_of d \<union> input_key ` set as\<close> d' new(3) by blast
  moreover have "card (address_key ` set new) = n"
    using dist new by (metis distinct_append distinct_card length_map list.set_map map_append)
  ultimately show "n = card (input_key ` set as - keys_of d)" by simp
qed

lemma imported_again:
  assumes "imported batch as d ids n d'" and "imported batch2 as d' ids2 n2 d''"
    and "db_ok d'" and "db_ok d''"
  shows "ids2 = ids \<and> n2 = 0 \<and> tables d'' = tables d'"
proof -
  have "n2 = 0"
    using imported_keys(2) [OF assms(2,4)] imported_keys(1) [OF assms(1,3)] by simp
  with assms(2) have same: "addresses d'' = addresses d'" by (auto simp: imported_def)
  have "list_all2 (\<lambda>a i. \<exists>r. row_of address_key (input_key a) (addresses d') = Some r \<and> wa_id r = i) as ids"
      "list_all2 (\<lambda>a i. \<exists>r. row_of address_key (input_key a) (addresses d') = Some r \<and> wa_id r = i) as ids2"
    using assms(1,2) same by (simp_all add: imported_def)
  then have "ids2 = ids"
    unfolding list_all2_conv_all_nth by (intro nth_equalityI) (simp, metis option.inject)
  with \<open>n2 = 0\<close> same assms(2) show ?thesis by (auto simp: imported_def tables_eq_iff same_rest_def)
qed

text \<open>Without faults and with the types the importer gives, an import succeeds.\<close>

definition quiet :: "env \<Rightarrow> bool" where
  "quiet E \<longleftrightarrow> (\<forall>k. ev_fault E k = Fine)"

lemma quiet_fault [simp]: "quiet E \<Longrightarrow> ev_fault E k = Fine"
  by (simp add: quiet_def)

lemma insert_one_quiet:
  assumes "quiet E" and "ai_type a \<in> set address_types"
  shows "\<exists>p d'. insert_one E now batch a d = (Inr p, d')"
proof -
  have "has_key address_key (input_key a) (addresses d) \<Longrightarrow>
      \<exists>r. row_of address_key (input_key a) (addresses d) = Some r"
    using row_of_None [of address_key "input_key a" "addresses d"] by auto
  then show ?thesis using assms
    by (auto simp: insert_one_def wrapD_def handleE_def bindE_def exec_at_def
        sql_insert_address_def sql_address_id_def Let_def) blast
qed

lemma insert_all_quiet:
  assumes "quiet E" and "\<forall>a \<in> set as. ai_type a \<in> set address_types"
  shows "\<exists>rs d'. mapE (insert_one E now batch) as d = (Inr rs, d')"
  using assms(2)
proof (induction as arbitrary: d)
  case (Cons a as)
  obtain p d1 where "insert_one E now batch a d = (Inr p, d1)"
    using insert_one_quiet [OF assms(1)] Cons.prems by fastforce
  moreover obtain rs d' where "mapE (insert_one E now batch) as d1 = (Inr rs, d')"
    using Cons by fastforce
  ultimately show ?case by (simp add: bindE_def)
qed simp

lemma insert_quiet:
  assumes "quiet E" and "\<forall>a \<in> set as. ai_type a \<in> set address_types"
  shows "\<exists>ids n d'. insertAddressesWithIDs E batch as d = (Inr (ids, n), d')"
proof -
  obtain rs d1 where "mapE (insert_one E (ev_now E (tick d)) batch) as (d\<lparr>tick := Suc (tick d)\<rparr>) = (Inr rs, d1)"
    using insert_all_quiet [OF assms] by blast
  with assms(1) show ?thesis
    by (simp add: insertAddressesWithIDs_def transact_def bindE_def)
qed

section \<open>Theorems\<close>

text \<open>
  C7: a successful import is complete: afterwards the table has exactly the old keys and the
  keys of the batch, the reported count is the number of keys that were new, the returned
  identifiers are, in the order of the input, those of the rows with the inputs' keys, the
  old rows are untouched and no other table changed.
\<close>

theorem import_complete:
  assumes "db_ok d" and "insertAddressesWithIDs E batch as d = (Inr (ids, n), d')"
  shows "db_ok d' \<and> same_rest d d' \<and> take (length (addresses d)) (addresses d') = addresses d \<and>
    keys_of d' = keys_of d \<union> input_key ` set as \<and> n = card (input_key ` set as - keys_of d) \<and>
    length ids = length as \<and>
    list_all2 (\<lambda>a i. \<exists>r \<in> set (addresses d'). address_key r = input_key a \<and> wa_id r = i) as ids"
proof -
  have imp: "imported batch as d ids n d'" by (rule insert_imported) (rule assms(2))
  have ok: "db_ok d'" using goodD [OF good_insertAddressesWithIDs assms(1)] assms(2) by (metis snd_conv)
  have "list_all2 (\<lambda>a i. \<exists>r. row_of address_key (input_key a) (addresses d') = Some r \<and> wa_id r = i) as ids"
    using imp by (simp add: imported_def)
  then have "list_all2 (\<lambda>a i. \<exists>r \<in> set (addresses d'). address_key r = input_key a \<and> wa_id r = i) as ids"
    by (rule list_all2_mono) (auto simp: row_of_def find_Some_iff)
  then show ?thesis
    using imp ok imported_keys [OF imp ok] by (auto simp: imported_def list_all2_lengthD)
qed

text \<open>
  Importing the same addresses again is harmless: the second run reports no new row,
  returns the same identifiers and leaves every table as it was.
\<close>

theorem import_idempotent:
  assumes "db_ok d"
    and "insertAddressesWithIDs E batch as d = (Inr (ids, n), d')"
    and "insertAddressesWithIDs E' batch' as d' = (Inr (ids', n'), d'')"
  shows "ids' = ids \<and> n' = 0 \<and> tables d'' = tables d'"
proof (rule imported_again)
  show "imported batch as d ids n d'" "imported batch' as d' ids' n' d''"
    using assms(2,3) by (simp_all add: insert_imported)
  show "db_ok d'" using goodD [OF good_insertAddressesWithIDs assms(1)] assms(2) by (metis snd_conv)
  then show "db_ok d''" using goodD [OF good_insertAddressesWithIDs] assms(3) by (metis snd_conv)
qed

text \<open>
  C17: an import is all or nothing. When it reports an error, no table changed; the one
  exception is an error of the commit itself, after which the batch may be there, and then
  it is there completely. And an import of addresses of the four types that meets no fault
  of the database succeeds.
\<close>

theorem import_all_or_nothing:
  "(\<forall>e d'. insertAddressesWithIDs E batch as d = (Inl e, d') \<longrightarrow>
      tables d' = tables d \<or>
      (\<exists>m ids n. e = Wrapped ''commit address import: '' (Pg m) \<and> imported batch as d ids n d')) \<and>
   (quiet E \<and> (\<forall>a \<in> set as. ai_type a \<in> set address_types) \<longrightarrow>
      (\<exists>x d'. insertAddressesWithIDs E batch as d = (Inr x, d')))"
proof (intro conjI allI impI)
  fix e d'
  assume e: "insertAddressesWithIDs E batch as d = (Inl e, d')"
  then have "as \<noteq> []" by (auto simp: insertAddressesWithIDs_def)
  with e have t: "transact E ''begin address import: '' ''commit address import: ''
      (\<lambda>now. bindE (mapE (insert_one E now batch) as)
         (\<lambda>rs. ret (map fst rs, length (filter snd rs)))) d = (Inl e, d')"
    by (simp add: insertAddressesWithIDs_def)
  show "tables d' = tables d \<or>
      (\<exists>m ids n. e = Wrapped ''commit address import: '' (Pg m) \<and> imported batch as d ids n d')"
    using transact_atomic [OF t]
  proof (elim disjE exE conjE)
    fix m x d1
    assume m: "Inl e = Inl (Wrapped ''commit address import: '' (Pg m))" and td: "tables d' = tables d1"
      and b: "bindE (mapE (insert_one E (ev_now E (tick d)) batch) as)
           (\<lambda>rs. ret (map fst rs, length (filter snd rs))) (d\<lparr>tick := Suc (tick d)\<rparr>) = (Inr x, d1)"
    then obtain rs where "mapE (insert_one E (ev_now E (tick d)) batch) as (d\<lparr>tick := Suc (tick d)\<rparr>) = (Inr rs, d1)"
      by (auto simp: bindE_eq_Inr)
    from insert_all_imported [OF this]
    have "imported batch as d (map fst rs) (length (filter snd rs)) d1" by simp
    then have "imported batch as d (map fst rs) (length (filter snd rs)) d'"
      using td by (simp add: imported_def same_rest_def tables_eq_iff)
    with m show ?thesis by auto
  qed auto
next
  assume "quiet E \<and> (\<forall>a \<in> set as. ai_type a \<in> set address_types)"
  then show "\<exists>x d'. insertAddressesWithIDs E batch as d = (Inr x, d')"
    using insert_quiet by blast
qed

text \<open>Two spellings of one EVM address and a Bitcoin address, imported into an empty database.\<close>

definition sample_env :: env where
  "sample_env = \<lparr>ev_fault = \<lambda>_. Fine, ev_now = int, ev_numeric = big_set_string 10\<rparr>"

definition sample_batch :: "address_input list" where
  "sample_batch =
     [\<lparr>ai_type = ''evm'', ai_address = ''0xA'', ai_normalized = ''0xa'', ai_label = []\<rparr>,
      \<lparr>ai_type = ''evm'', ai_address = ''0xa'', ai_normalized = ''0xa'', ai_label = []\<rparr>,
      \<lparr>ai_type = ''btc'', ai_address = ''1B'', ai_normalized = ''1B'', ai_label = []\<rparr>]"

lemma quiet_sample [simp]: "quiet sample_env"
  by (simp add: quiet_def sample_env_def)

lemma sample_import:
  "\<exists>d'. insertAddressesWithIDs sample_env 7 sample_batch empty_db = (Inr ([1, 1, 3], 2), d')"
  by (simp add: insertAddressesWithIDs_def transact_def bindE_def insert_one_def wrapD_def
      handleE_def exec_at_def sql_insert_address_def sql_address_id_def sample_batch_def
      empty_db_def has_key_def row_of_def address_key_def input_key_def address_types_def Let_def)

theorem import_complete_witness:
  "\<exists>d'. insertAddressesWithIDs sample_env 7 sample_batch empty_db = (Inr ([1, 1, 3], 2), d') \<and>
     db_ok d' \<and> keys_of d' = {(''evm'', ''0xa''), (''btc'', ''1B'')}"
proof -
  obtain d' where d': "insertAddressesWithIDs sample_env 7 sample_batch empty_db = (Inr ([1, 1, 3], 2), d')"
    using sample_import by blast
  from import_complete [OF db_ok_empty d'] d' show ?thesis
    by (auto simp: keys_of_def empty_db_def sample_batch_def input_key_def)
qed

theorem import_idempotent_witness:
  "\<exists>d' d''. insertAddressesWithIDs sample_env 7 sample_batch empty_db = (Inr ([1, 1, 3], 2), d') \<and>
     insertAddressesWithIDs sample_env 8 sample_batch d' = (Inr ([1, 1, 3], 0), d'') \<and>
     tables d'' = tables d'"
proof -
  obtain d' where d': "insertAddressesWithIDs sample_env 7 sample_batch empty_db = (Inr ([1, 1, 3], 2), d')"
    using sample_import by blast
  have "\<forall>a \<in> set sample_batch. ai_type a \<in> set address_types"
    by (simp add: sample_batch_def address_types_def)
  then obtain ids n d'' where d'': "insertAddressesWithIDs sample_env 8 sample_batch d' = (Inr (ids, n), d'')"
    using insert_quiet [OF quiet_sample] by blast
  from import_idempotent [OF db_ok_empty d' d''] d' d'' show ?thesis by auto
qed

theorem import_all_or_nothing_witness:
  "\<exists>x d'. insertAddressesWithIDs sample_env 7 sample_batch empty_db = (Inr x, d')"
  using import_all_or_nothing [of sample_env 7 sample_batch empty_db]
  by (simp add: sample_batch_def address_types_def)

end
