(* ===== verification/Store_Runs.thy ===== *)
theory Store_Runs
  imports Store_Addresses
begin

text \<open>
  \<^verbatim>\<open>internal/db/store.go\<close>, the scan runs: the durable checkpoint of a scan, its cursor and
  its life cycle. The counters are unbounded here; a \<^verbatim>\<open>BIGINT\<close> overflow would need \<open>2 ^ 63\<close>
  processed addresses.
\<close>

definition sql_active_scan :: "scan_run sql" where
  "sql_active_scan now d =
     (case select_sorted rr_started
        (\<lambda>r. run_status (rr_run r) = ''running'' \<or> run_status (rr_run r) = ''paused'') 1 (runs d) of
        [] \<Rightarrow> (Inl No_rows, d)
      | r # _ \<Rightarrow> (Inr (rr_run r), d))"

definition ActiveScan :: "env \<Rightarrow> scan_run option dbp" where
  "ActiveScan E =
     handleE (bindE (exec E sql_active_scan) (\<lambda>r. ret (Some r)))
       (\<lambda>e. if e = No_rows then ret None else raise (Wrapped ''read active scan: '' e))"

definition sql_insert_run :: "scan_run \<Rightarrow> unit sql" where
  "sql_insert_run r now d =
     (if has_key (run_id \<circ> rr_run) (run_id r) (runs d) then (Inl (Pg ''duplicate key''), d)
      else if \<not> run_ok r then (Inl (Pg ''check constraint violated''), d)
      else (Inr (), d\<lparr>runs := runs d @ [\<lparr>rr_run = r, rr_started = now, rr_completed = None\<rparr>]\<rparr>))"

text \<open>The identifier is what \<^verbatim>\<open>uuid.New()\<close> returns.\<close>

definition CreateScan :: "env \<Rightarrow> uuid \<Rightarrow> int \<Rightarrow> int \<Rightarrow> scan_run dbp" where
  "CreateScan E u startID endID =
     (let run = \<lparr>run_id = u, run_start = startID, run_end = endID, run_cursor = startID - 1,
                 run_status = ''running'', run_processed = 0, run_empty = 0, run_positive = 0,
                 run_errors = 0\<rparr>
      in bindE (wrapD ''create scan: '' (exec E (sql_insert_run run))) (\<lambda>_. ret run))"

text \<open>An \<^verbatim>\<open>UPDATE\<close> of the run \<open>u\<close> in a given status; a violated check leaves the table alone.\<close>

definition sql_update_run :: "uuid \<Rightarrow> string \<Rightarrow> (int \<Rightarrow> run_row \<Rightarrow> run_row) \<Rightarrow> unit sql" where
  "sql_update_run u status f now d =
     (let rs = update_where (\<lambda>r. run_id (rr_run r) = u \<and> run_status (rr_run r) = status) (f now) (runs d)
      in if list_all (\<lambda>r. run_ok (rr_run r)) rs then (Inr (), d\<lparr>runs := rs\<rparr>)
         else (Inl (Pg ''check constraint violated''), d))"

definition advance_run :: "int \<Rightarrow> int \<Rightarrow> int \<Rightarrow> int \<Rightarrow> int \<Rightarrow> run_row \<Rightarrow> run_row" where
  "advance_run cursor processed empties positive failures r =
     r\<lparr>rr_run := (rr_run r)\<lparr>run_cursor := cursor,
         run_processed := run_processed (rr_run r) + processed,
         run_empty := run_empty (rr_run r) + empties,
         run_positive := run_positive (rr_run r) + positive,
         run_errors := run_errors (rr_run r) + failures\<rparr>\<rparr>"

definition set_run_status :: "string \<Rightarrow> run_row \<Rightarrow> run_row" where
  "set_run_status status r = r\<lparr>rr_run := (rr_run r)\<lparr>run_status := status\<rparr>\<rparr>"

definition AdvanceScan :: "env \<Rightarrow> uuid \<Rightarrow> int \<Rightarrow> int \<Rightarrow> int \<Rightarrow> int \<Rightarrow> int \<Rightarrow> unit dbp" where
  "AdvanceScan E u cursor processed empties positive failures =
     wrapD ''advance scan: ''
       (exec E (sql_update_run u ''running''
          (\<lambda>now. advance_run cursor processed empties positive failures)))"

definition CompleteScan :: "env \<Rightarrow> uuid \<Rightarrow> unit dbp" where
  "CompleteScan E u =
     exec E (sql_update_run u ''running''
       (\<lambda>now r. (set_run_status ''completed'' r)\<lparr>rr_completed := Some now\<rparr>))"

definition ResumeScan :: "env \<Rightarrow> uuid \<Rightarrow> unit dbp" where
  "ResumeScan E u = exec E (sql_update_run u ''paused'' (\<lambda>now. set_run_status ''running''))"

definition PauseScan :: "env \<Rightarrow> uuid \<Rightarrow> unit dbp" where
  "PauseScan E u = exec E (sql_update_run u ''running'' (\<lambda>now. set_run_status ''paused''))"

section \<open>The invariant\<close>

lemma db_ok_runs:
  assumes "db_ok d" and "distinct (map (run_id \<circ> rr_run) rs)" and "\<forall>r \<in> set rs. run_ok (rr_run r)"
  shows "db_ok (d\<lparr>runs := rs\<rparr>)"
  using assms by (simp add: db_ok_def table_ok_defs)

lemma good_active_scan [good_rules]: "good (sql_active_scan now)"
  by (simp add: good_def sql_active_scan_def split: list.split)

lemma good_insert_run [good_rules]: "good (sql_insert_run r now)"
proof (rule goodI)
  fix d
  assume d: "db_ok d"
  then have "distinct (map (run_id \<circ> rr_run) (runs d))" "\<forall>r \<in> set (runs d). run_ok (rr_run r)"
    by (simp_all add: db_ok_def runs_ok_def)
  with d show "db_ok (snd (sql_insert_run r now d)) \<and> seq_le d (snd (sql_insert_run r now d))"
    by (auto simp: sql_insert_run_def has_key_iff seq_le_def intro!: db_ok_runs)
qed

lemma good_update_run [good_rules]:
  assumes "\<And>now r. run_id (rr_run (f now r)) = run_id (rr_run r)"
  shows "good (sql_update_run u st f now)"
proof (rule goodI)
  fix d
  assume d: "db_ok d"
  then have "distinct (map (run_id \<circ> rr_run) (runs d))"
    by (simp add: db_ok_def runs_ok_def)
  with d show "db_ok (snd (sql_update_run u st f now d)) \<and> seq_le d (snd (sql_update_run u st f now d))"
    using assms
    by (auto simp: sql_update_run_def Let_def update_where_map list_all_iff seq_le_def
        intro!: db_ok_runs)
qed

lemma run_updates_keep_id [simp]:
  "run_id (rr_run (advance_run c p e s f r)) = run_id (rr_run r)"
  "run_id (rr_run (set_run_status st r)) = run_id (rr_run r)"
  by (simp_all add: advance_run_def set_run_status_def)

lemma good_run_ops [good_rules]:
  "good (ActiveScan E)" "good (CreateScan E u a b)" "good (AdvanceScan E u c p e s f)"
  "good (CompleteScan E u)" "good (ResumeScan E u)" "good (PauseScan E u)"
  unfolding ActiveScan_def CreateScan_def AdvanceScan_def CompleteScan_def ResumeScan_def
    PauseScan_def Let_def
  by (intro good_rules; simp)+

section \<open>The life cycle of a run\<close>

datatype run_op =
    Op_create uuid int int
  | Op_advance uuid int int int int int
  | Op_complete uuid
  | Op_resume uuid
  | Op_pause uuid

fun run_prog :: "env \<Rightarrow> run_op \<Rightarrow> unit dbp" where
  "run_prog E (Op_create u a b) = voidE (CreateScan E u a b)"
| "run_prog E (Op_advance u c p e s f) = AdvanceScan E u c p e s f"
| "run_prog E (Op_complete u) = CompleteScan E u"
| "run_prog E (Op_resume u) = ResumeScan E u"
| "run_prog E (Op_pause u) = PauseScan E u"

text \<open>The transitions of the status, and what else may change of a run.\<close>

definition run_transition :: "run_op \<Rightarrow> run_row \<Rightarrow> run_row \<Rightarrow> bool" where
  "run_transition op r r' \<longleftrightarrow>
     run_id (rr_run r') = run_id (rr_run r) \<and> run_start (rr_run r') = run_start (rr_run r) \<and>
     run_end (rr_run r') = run_end (rr_run r) \<and> rr_started r' = rr_started r \<and>
     (r' = r \<or>
      (run_status (rr_run r), run_status (rr_run r')) \<in>
        {(''running'', ''running''), (''running'', ''completed''), (''running'', ''paused''),
         (''paused'', ''running'')}) \<and>
     (run_cursor (rr_run r') = run_cursor (rr_run r) \<or> (\<exists>u c p e s f. op = Op_advance u c p e s f \<and>
        run_id (rr_run r) = u \<and> run_cursor (rr_run r') = c))"

lemma update_run_rows:
  assumes "snd (sql_update_run u st f now d) = d'" and "r \<in> set (runs d)"
  shows "r \<in> set (runs d') \<or>
    run_id (rr_run r) = u \<and> run_status (rr_run r) = st \<and> f now r \<in> set (runs d')"
proof -
  let ?g = "\<lambda>r. if run_id (rr_run r) = u \<and> run_status (rr_run r) = st then f now r else r"
  consider "runs d' = runs d" | "runs d' = map ?g (runs d)"
    using assms(1) by (auto simp: sql_update_run_def Let_def update_where_def split: if_splits)
  then show ?thesis
  proof cases
    case 2
    with assms(2) have "?g r \<in> set (runs d')" by simp
    then show ?thesis by (auto split: if_splits)
  qed (use assms(2) in simp)
qed

lemma exec_update_rows:
  assumes "r \<in> set (runs d)"
  shows "r \<in> set (runs (snd (exec E (sql_update_run u st f) d))) \<or>
    run_id (rr_run r) = u \<and> run_status (rr_run r) = st \<and>
    (\<exists>now. f now r \<in> set (runs (snd (exec E (sql_update_run u st f) d))))"
  using snd_exec [of E "sql_update_run u st f" d]
    update_run_rows [OF refl, of r "d\<lparr>tick := Suc (tick d)\<rparr>" u st f "ev_now E (tick d)"] assms
  by auto

lemma create_keeps_rows:
  assumes "r \<in> set (runs d)"
  shows "r \<in> set (runs (snd (CreateScan E u a b d)))"
proof -
  have "r \<in> set (runs (snd (sql_insert_run q now d')))" if "runs d' = runs d" for q now d'
    using assms that by (simp add: sql_insert_run_def)
  then have "r \<in> set (runs (snd (exec E (sql_insert_run q) d)))" for q
    using snd_exec [of E "sql_insert_run q" d] assms by auto
  then show ?thesis
    unfolding CreateScan_def Let_def bindE_def
    by (auto split: prod.split sum.split) (metis snd_conv snd_wrapD)+
qed

lemma run_transition_refl: "run_transition op r r"
  by (simp add: run_transition_def)

lemma run_prog_rows:
  assumes "r \<in> set (runs d)"
  shows "\<exists>r'. r' \<in> set (runs (snd (run_prog E op d))) \<and> run_transition op r r'"
proof (cases op)
  case (Op_create u a b)
  with create_keeps_rows [OF assms] have "r \<in> set (runs (snd (run_prog E op d)))"
    by (simp add: Op_create)
  then show ?thesis using run_transition_refl by blast
next
  case (Op_advance u c p e s f)
  then show ?thesis
    using exec_update_rows [OF assms, of E u "''running''" "\<lambda>now. advance_run c p e s f"]
    by (auto simp: AdvanceScan_def run_transition_def advance_run_def
        intro: exI [of _ r])
next
  case (Op_complete u)
  then show ?thesis
    using exec_update_rows [OF assms, of E u "''running''"
        "\<lambda>now r. (set_run_status ''completed'' r)\<lparr>rr_completed := Some now\<rparr>"]
    by (auto simp: CompleteScan_def run_transition_def set_run_status_def)
next
  case (Op_resume u)
  then show ?thesis
    using exec_update_rows [OF assms, of E u "''paused''" "\<lambda>now. set_run_status ''running''"]
    by (auto simp: ResumeScan_def run_transition_def set_run_status_def)
next
  case (Op_pause u)
  then show ?thesis
    using exec_update_rows [OF assms, of E u "''running''" "\<lambda>now. set_run_status ''paused''"]
    by (auto simp: PauseScan_def run_transition_def set_run_status_def)
qed


definition paused_run :: run_row where
  "paused_run =
     \<lparr>rr_run = \<lparr>run_id = 3, run_start = 1, run_end = 9, run_cursor = 4, run_status = ''paused'',
        run_processed = 4, run_empty = 4, run_positive = 0, run_errors = 0\<rparr>,
      rr_started = 0, rr_completed = None\<rparr>"


end
