(* ===== verification/Store_Events.thy ===== *)
theory Store_Events
  imports Store_Runs
begin

text \<open>
  \<^verbatim>\<open>internal/db/store.go\<close>, the notification outbox: events, node incidents, the result of a
  delivery with its back-off, and the events that are due.
\<close>

section \<open>Creating events and incidents\<close>

definition sql_insert_event :: "int option \<Rightarrow> int option \<Rightarrow> string \<Rightarrow> int sql" where
  "sql_insert_event finding incident eventType now d =
     (let id = next_event d; d' = d\<lparr>next_event := id + 1\<rparr>
      in if eventType \<notin> event_types
         then (Inl (Pg ''check constraint violated''), d')
         else if (case finding of None \<Rightarrow> False | Some f \<Rightarrow> f \<notin> set (map pf_id (findings d))) \<or>
                 (case incident of None \<Rightarrow> False | Some i \<Rightarrow> i \<notin> set (map ni_id (incidents d)))
         then (Inl (Pg ''foreign key violated''), d')
         else
           (Inr id,
            d'\<lparr>events := events d @
              [\<lparr>ne_id = id, ne_finding = finding, ne_incident = incident, ne_type = eventType,
                ne_status = ''pending'', ne_attempts = 0, ne_last_error = None, ne_sent = None,
                ne_next = now, ne_created = now\<rparr>]\<rparr>))"

definition CreateNotificationEvent :: "env \<Rightarrow> int option \<Rightarrow> string \<Rightarrow> int dbp" where
  "CreateNotificationEvent E findingID eventType = exec E (sql_insert_event findingID None eventType)"

definition sql_insert_incident :: "string \<Rightarrow> string \<Rightarrow> string \<Rightarrow> int \<Rightarrow> int sql" where
  "sql_insert_incident chain provider code failures now d =
     (let id = next_incident d
      in (Inr id,
          d\<lparr>next_incident := id + 1,
            incidents := incidents d @
              [\<lparr>ni_id = id, ni_chain = chain, ni_provider = provider, ni_code = code,
                ni_failures = failures, ni_status = ''active'', ni_first_seen = now\<rparr>]\<rparr>))"

definition CreateNodeIncident :: "env \<Rightarrow> string \<Rightarrow> string \<Rightarrow> string \<Rightarrow> int \<Rightarrow> int dbp" where
  "CreateNodeIncident E chain provider code failures =
     exec E (sql_insert_incident chain provider code failures)"

definition CreateNodeNotificationEvent :: "env \<Rightarrow> int \<Rightarrow> int dbp" where
  "CreateNodeNotificationEvent E incidentID =
     exec E (sql_insert_event None (Some incidentID) ''node_error'')"

section \<open>Reading events\<close>

definition sql_event_type :: "int \<Rightarrow> string sql" where
  "sql_event_type eventID now d =
     (case row_of ne_id eventID (events d) of
        None \<Rightarrow> (Inl No_rows, d) | Some e \<Rightarrow> (Inr (ne_type e), d))"

definition NotificationType :: "env \<Rightarrow> int \<Rightarrow> string dbp" where
  "NotificationType E eventID = exec E (sql_event_type eventID)"

record node_view =
  nv_event :: int
  nv_chain :: string
  nv_provider :: string
  nv_code :: string
  nv_failures :: int

definition sql_node_event :: "int \<Rightarrow> node_view sql" where
  "sql_node_event eventID now d =
     (case row_of ne_id eventID (events d) of
        None \<Rightarrow> (Inl No_rows, d)
      | Some e \<Rightarrow>
          (case ne_incident e of
             None \<Rightarrow> (Inl No_rows, d)
           | Some i \<Rightarrow>
               (case row_of ni_id i (incidents d) of
                  None \<Rightarrow> (Inl No_rows, d)
                | Some n \<Rightarrow>
                    (Inr \<lparr>nv_event = ne_id e, nv_chain = ni_chain n, nv_provider = ni_provider n,
                          nv_code = ni_code n, nv_failures = ni_failures n\<rparr>, d))))"

definition LoadNodeNotification :: "env \<Rightarrow> int \<Rightarrow> node_view dbp" where
  "LoadNodeNotification E eventID = exec E (sql_node_event eventID)"

record positive_view =
  pv_chain :: string
  pv_balance :: string
  pv_symbol :: string

record notification_view =
  vw_event :: int
  vw_type :: string
  vw_address :: string
  vw_label :: string
  vw_findings :: "positive_view list"

text \<open>
  The join of the event, its finding and the address. \<^verbatim>\<open>ORDER BY chain\<close> sorts the six chain
  names alphabetically.
\<close>

definition sql_positive_event :: "int \<Rightarrow> (event_row \<times> wallet_row) sql" where
  "sql_positive_event eventID now d =
     (case row_of ne_id eventID (events d) of
        None \<Rightarrow> (Inl No_rows, d)
      | Some e \<Rightarrow>
          (case ne_finding e of
             None \<Rightarrow> (Inl No_rows, d)
           | Some i \<Rightarrow>
               (case row_of pf_id i (findings d) of
                  None \<Rightarrow> (Inl No_rows, d)
                | Some f \<Rightarrow>
                    (case row_of wa_id (pf_address_id f) (addresses d) of
                       None \<Rightarrow> (Inl No_rows, d)
                     | Some a \<Rightarrow> (Inr (e, a), d)))))"

definition chain_rank :: "string \<Rightarrow> int" where
  "chain_rank c =
     int (length (takeWhile (\<lambda>x. x \<noteq> c)
       [ChainArbitrum, ChainBSC, ChainBTC, ChainEthereum, ChainSolana, ChainTRON]))"

definition sql_positives_of :: "int \<Rightarrow> positive_view list sql" where
  "sql_positives_of addressID now d =
     (Inr (map (\<lambda>f. \<lparr>pv_chain = pf_chain f, pv_balance = show_int (pf_balance f), pv_symbol = pf_symbol f\<rparr>)
        (sort_key (chain_rank \<circ> pf_chain)
          (filter (\<lambda>f. pf_address_id f = addressID) (findings d)))), d)"

definition LoadNotification :: "env \<Rightarrow> int \<Rightarrow> notification_view dbp" where
  "LoadNotification E eventID =
     bindE (wrapD ''load notification: '' (exec E (sql_positive_event eventID)))
       (\<lambda>(e, a). bindE
          (fetch E (Wrapped ''load notification findings: '') (Wrapped ''read notification findings: '')
             (sql_positives_of (wa_id a)))
          (\<lambda>fs. ret \<lparr>vw_event = ne_id e, vw_type = ne_type e, vw_address = wa_address a,
                     vw_label = wa_label a, vw_findings = fs\<rparr>))"

section \<open>Delivery results\<close>

text \<open>\<^verbatim>\<open>LEAST(3600, power(2, LEAST(attempts, 11)))\<close> seconds, of the attempts made before.\<close>

definition backoff :: "nat \<Rightarrow> int" where
  "backoff attempts = second * min 3600 (2 ^ min attempts 11)"

definition mark_event :: "string \<Rightarrow> string \<Rightarrow> int \<Rightarrow> event_row \<Rightarrow> event_row" where
  "mark_event status message now e =
     e\<lparr>ne_status := status, ne_last_error := nullif_empty message,
       ne_sent := (if status = ''sent'' then Some now else ne_sent e),
       ne_attempts := ne_attempts e + 1,
       ne_next := (if status = ''sent'' then now else now + backoff (ne_attempts e))\<rparr>"

definition sql_mark :: "int \<Rightarrow> string \<Rightarrow> string \<Rightarrow> unit sql" where
  "sql_mark eventID status message now d =
     (if has_key ne_id eventID (events d) \<and> status \<notin> event_statuses
      then (Inl (Pg ''check constraint violated''), d)
      else (Inr (), d\<lparr>events := update_where (\<lambda>e. ne_id e = eventID) (mark_event status message now)
                        (events d)\<rparr>))"

definition MarkNotification :: "env \<Rightarrow> int \<Rightarrow> string \<Rightarrow> string \<Rightarrow> unit dbp" where
  "MarkNotification E eventID status message = exec E (sql_mark eventID status message)"

definition event_due :: "int \<Rightarrow> event_row \<Rightarrow> bool" where
  "event_due now e \<longleftrightarrow> ne_status e = ''pending'' \<or> ne_status e = ''failed'' \<and> ne_next e \<le> now"

definition sql_pending :: "nat \<Rightarrow> int list sql" where
  "sql_pending limit now d =
     (Inr (map ne_id (select_sorted ne_created (event_due now) limit (events d))), d)"

definition PendingNotificationIDs :: "env \<Rightarrow> nat \<Rightarrow> int list dbp" where
  "PendingNotificationIDs E limit = fetch E id id (sql_pending limit)"

section \<open>The invariant\<close>

lemma db_ok_events:
  assumes "db_ok d" and "events_ok (d\<lparr>events := es\<rparr>)"
  shows "db_ok (d\<lparr>events := es\<rparr>)"
  using assms by (simp add: db_ok_def table_ok_defs)

lemma good_event_reads [good_rules]:
  "good (sql_event_type i now)" "good (sql_node_event i now)" "good (sql_positive_event i now)"
  "good (sql_positives_of a now)" "good (sql_pending n now)"
  by (auto simp: good_def sql_event_type_def sql_node_event_def sql_positive_event_def
      sql_positives_of_def sql_pending_def split: option.split)

lemma good_insert_event [good_rules]: "good (sql_insert_event f i ty now)"
proof (rule goodI)
  fix d
  assume d: "db_ok d"
  have lt: "x < n \<Longrightarrow> x < n + 1" for x n :: int by simp
  have "events_ok (snd (sql_insert_event f i ty now d))"
    using d unfolding db_ok_def events_ok_def sql_insert_event_def Let_def
    by (auto simp: sorted_wrt_append event_statuses_def intro: lt split: option.splits)
  moreover have "addresses_ok (snd (sql_insert_event f i ty now d)) = addresses_ok d \<and>
      runs_ok (snd (sql_insert_event f i ty now d)) = runs_ok d \<and>
      findings_ok (snd (sql_insert_event f i ty now d)) = findings_ok d \<and>
      checks_ok (snd (sql_insert_event f i ty now d)) = checks_ok d \<and>
      retries_ok (snd (sql_insert_event f i ty now d)) = retries_ok d \<and>
      incidents_ok (snd (sql_insert_event f i ty now d)) = incidents_ok d"
    unfolding table_ok_defs by (simp add: sql_insert_event_def Let_def)
  ultimately show "db_ok (snd (sql_insert_event f i ty now d)) \<and>
      seq_le d (snd (sql_insert_event f i ty now d))"
    using d by (simp add: db_ok_def seq_le_def) (simp add: sql_insert_event_def Let_def)
qed

lemma good_insert_incident [good_rules]: "good (sql_insert_incident c p e n now)"
proof (rule goodI)
  fix d
  assume d: "db_ok d"
  have lt: "x < n \<Longrightarrow> x < n + 1" for x n :: int by simp
  have "incidents_ok (snd (sql_insert_incident c p e n now d)) \<and>
      events_ok (snd (sql_insert_incident c p e n now d))"
    using d unfolding db_ok_def incidents_ok_def events_ok_def sql_insert_incident_def Let_def
    by (auto simp: sorted_wrt_append intro: lt)
  with d show "db_ok (snd (sql_insert_incident c p e n now d)) \<and>
      seq_le d (snd (sql_insert_incident c p e n now d))"
    unfolding db_ok_def
    by (simp add: seq_le_def) (simp add: sql_insert_incident_def Let_def table_ok_defs)
qed

lemma mark_event_keeps [simp]:
  "ne_id (mark_event st m now e) = ne_id e" "ne_finding (mark_event st m now e) = ne_finding e"
  "ne_incident (mark_event st m now e) = ne_incident e" "ne_type (mark_event st m now e) = ne_type e"
  "ne_status (mark_event st m now e) = st" "ne_created (mark_event st m now e) = ne_created e"
  by (simp_all add: mark_event_def)

lemma good_mark [good_rules]: "good (sql_mark i st m now)"
proof (rule goodI)
  fix d
  assume d: "db_ok d"
  then have "events_ok d" by (simp add: db_ok_def)
  then have "events_ok (snd (sql_mark i st m now d))"
    by (auto simp: sql_mark_def events_ok_def update_where_map set_update_where has_key_iff)
  with d show "db_ok (snd (sql_mark i st m now d)) \<and> seq_le d (snd (sql_mark i st m now d))"
    by (auto simp: sql_mark_def seq_le_def intro!: db_ok_events)
qed

lemma good_event_ops [good_rules]:
  "good (CreateNotificationEvent E f ty)" "good (CreateNodeIncident E c p e k)"
  "good (CreateNodeNotificationEvent E i)" "good (NotificationType E i)"
  "good (LoadNodeNotification E i)" "good (LoadNotification E i)"
  "good (MarkNotification E i st m)" "good (PendingNotificationIDs E n)"
  unfolding CreateNotificationEvent_def CreateNodeIncident_def CreateNodeNotificationEvent_def
    NotificationType_def LoadNodeNotification_def LoadNotification_def MarkNotification_def
    PendingNotificationIDs_def
  by (intro good_rules)+

section \<open>Theorems\<close>

lemma fetch_Inr:
  "fetch E w1 w2 q d = (Inr x, d') \<longleftrightarrow>
     (\<exists>d1. exec E q d = (Inr x, d1) \<and> ev_fault E (tick d1) = Fine \<and> d' = d1\<lparr>tick := Suc (tick d1)\<rparr>)"
  by (auto simp: fetch_def bindE_eq_Inr exec_Inr skip_sql_def)

lemma sql_mark_row:
  assumes "sql_mark i st m now d = (Inr u, d')"
  shows "row_of ne_id k (events d') =
    map_option (\<lambda>e. if ne_id e = i then mark_event st m now e else e) (row_of ne_id k (events d))"
  using assms by (auto simp: sql_mark_def row_of_update_where split: if_splits)

lemma backoff_bounds: "second \<le> backoff n \<and> backoff n \<le> 2048 * second \<and> backoff n = second * 2 ^ min n 11"
proof -
  have "(2 :: int) ^ min n 11 \<le> 2 ^ 11" by (rule power_increasing) simp_all
  then show ?thesis by (simp add: backoff_def second_def)
qed

text \<open>
  The back-off of the outbox. Recording a delivery counts one attempt and touches no
  other event. A sent event is never due again, at no time; a failed one is due exactly from
  \<open>2 ^ min attempts 11\<close> seconds later on, so after at least 1 and at most 2048 seconds.
\<close>

theorem delivery_backoff:
  assumes "row_of ne_id i (events d) = Some e" and "MarkNotification E i st m d = (Inr u, d')"
  shows "\<exists>e'. row_of ne_id i (events d') = Some e' \<and> ne_attempts e' = Suc (ne_attempts e) \<and>
    (\<forall>k. k \<noteq> i \<longrightarrow> row_of ne_id k (events d') = row_of ne_id k (events d)) \<and>
    (st = ''sent'' \<longrightarrow> (\<forall>t. \<not> event_due t e')) \<and>
    (st = ''failed'' \<longrightarrow>
       (\<forall>t. event_due t e' \<longleftrightarrow> ev_now E (tick d) + second * 2 ^ min (ne_attempts e) 11 \<le> t) \<and>
       ev_now E (tick d) + second \<le> ne_next e' \<and> ne_next e' \<le> ev_now E (tick d) + 2048 * second)"
proof -
  let ?now = "ev_now E (tick d)"
  from assms(2) have "sql_mark i st m ?now (d\<lparr>tick := Suc (tick d)\<rparr>) = (Inr u, d')"
    by (simp add: MarkNotification_def exec_Inr)
  note row = sql_mark_row [OF this]
  have "ne_id e = i" using row_of_key [OF assms(1)] by simp
  with row assms(1) have e': "row_of ne_id i (events d') = Some (mark_event st m ?now e)" by simp
  have "row_of ne_id k (events d') = row_of ne_id k (events d)" if "k \<noteq> i" for k
    using row [of k] that row_of_key [of ne_id k "events d"]
    by (cases "row_of ne_id k (events d)") auto
  moreover have "ne_attempts (mark_event st m ?now e) = Suc (ne_attempts e)"
    by (simp add: mark_event_def)
  moreover have "\<not> event_due t (mark_event ''sent'' m ?now e)" for t
    by (simp add: event_due_def)
  moreover have "event_due t (mark_event ''failed'' m ?now e) \<longleftrightarrow>
      ?now + second * 2 ^ min (ne_attempts e) 11 \<le> t" for t
    using backoff_bounds [of "ne_attempts e"] by (simp add: event_due_def mark_event_def)
  moreover have "?now + second \<le> ne_next (mark_event ''failed'' m ?now e) \<and>
      ne_next (mark_event ''failed'' m ?now e) \<le> ?now + 2048 * second"
    using backoff_bounds [of "ne_attempts e"] by (simp add: mark_event_def)
  ultimately show ?thesis using e' by blast
qed

lemma pending_ids:
  assumes "db_ok d" and "PendingNotificationIDs E n d = (Inr ids, d')"
  shows "ids = map ne_id (take n (sort_key ne_created (filter (event_due (ev_now E (tick d))) (events d))))"
    and "tables d' = tables d" and "distinct ids"
proof -
  let ?due = "filter (event_due (ev_now E (tick d))) (events d)"
  show ids: "ids = map ne_id (take n (sort_key ne_created ?due))" and "tables d' = tables d"
    using assms(2)
    by (auto simp: PendingNotificationIDs_def fetch_Inr exec_Inr sql_pending_def select_sorted_def)
  have "distinct (map ne_id (events d))"
    using assms(1) strict_sorted_iff by (auto simp: db_ok_def events_ok_def)
  then have "distinct (map ne_id ?due)" by (simp add: distinct_map_filter)
  then have "distinct (map ne_id (sort_key ne_created ?due))" by (simp add: distinct_map)
  then show "distinct ids" unfolding ids take_map [symmetric] by (rule distinct_take)
qed

text \<open>
  The outbox hands out only due events, each once, at most as many as asked for, oldest
  first; and when it hands out fewer than asked for, it hands out every event that is due.
\<close>

theorem pending_due:
  assumes "db_ok d" and "PendingNotificationIDs E n d = (Inr ids, d')"
  shows "tables d' = tables d \<and> length ids \<le> n \<and> distinct ids \<and>
    (\<exists>es. ids = map ne_id es \<and> sorted (map ne_created es) \<and>
       set es \<subseteq> {e \<in> set (events d). event_due (ev_now E (tick d)) e}) \<and>
    (length ids < n \<longrightarrow> set ids = ne_id ` {e \<in> set (events d). event_due (ev_now E (tick d)) e})"
proof -
  let ?now = "ev_now E (tick d)"
  let ?due = "filter (event_due ?now) (events d)"
  let ?es = "take n (sort_key ne_created ?due)"
  note ids = pending_ids(1) [OF assms] and d' = pending_ids(2) [OF assms]
  have sub: "set ?es \<subseteq> {e \<in> set (events d). event_due ?now e}"
    using set_take_subset [of n "sort_key ne_created ?due"] by auto
  have all: "set ids = ne_id ` {e \<in> set (events d). event_due ?now e}" if "length ids < n"
  proof -
    from that have "length (sort_key ne_created ?due) \<le> n" by (simp add: ids)
    then have "?es = sort_key ne_created ?due" by simp
    then show ?thesis by (auto simp: ids)
  qed
  have "sorted (map ne_created ?es)" by (simp add: take_map [symmetric] sorted_wrt_take)
  moreover have "distinct ids" by (rule pending_ids(3) [OF assms])
  moreover have "length ids \<le> n" by (simp add: ids)
  ultimately show ?thesis using d' sub all ids by blast
qed

definition failed_event :: event_row where
  "failed_event =
     \<lparr>ne_id = 1, ne_finding = None, ne_incident = None, ne_type = ''node_error'',
      ne_status = ''failed'', ne_attempts = 3, ne_last_error = None, ne_sent = None, ne_next = 0,
      ne_created = 0\<rparr>"

definition event_db :: db where
  "event_db = empty_db\<lparr>events := [failed_event], next_event := 2\<rparr>"

lemma event_db_ok: "db_ok event_db"
  by (simp add: db_ok_def table_ok_defs empty_db_def event_db_def failed_event_def
      event_types_def event_statuses_def)

theorem delivery_backoff_witness:
  "\<exists>d' e'. MarkNotification sample_env 1 ''failed'' ''HTTP 500'' event_db = (Inr (), d') \<and>
     row_of ne_id 1 (events d') = Some e' \<and> ne_attempts e' = 4 \<and> \<not> event_due 0 e'"
proof -
  obtain d' where d': "MarkNotification sample_env 1 ''failed'' ''HTTP 500'' event_db = (Inr (), d')"
    by (simp add: MarkNotification_def exec_def exec_at_def sample_env_def sql_mark_def
        event_statuses_def)
  have "row_of ne_id 1 (events event_db) = Some failed_event"
    by (simp add: event_db_def row_of_def failed_event_def)
  from delivery_backoff [OF this d'] d' show ?thesis
    by (auto simp: failed_event_def sample_env_def event_db_def empty_db_def second_def)
qed

theorem pending_due_witness:
  "\<exists>d'. PendingNotificationIDs sample_env 5 event_db = (Inr [1], d') \<and> tables d' = tables event_db"
proof -
  obtain d' where d': "PendingNotificationIDs sample_env 5 event_db = (Inr [1], d')"
    by (simp add: PendingNotificationIDs_def fetch_def bindE_def handleE_def exec_def exec_at_def
        sample_env_def sql_pending_def skip_sql_def select_sorted_def event_db_def failed_event_def
        event_due_def empty_db_def)
  from pending_due [OF event_db_ok d'] d' show ?thesis by auto
qed

end
