(* ===== verification/Store_Findings.thy ===== *)
theory Store_Findings
  imports Store_Events
begin

text \<open>
  \<^verbatim>\<open>internal/db/store.go\<close>, the balances: the positive findings of one address with their
  notification event in one transaction, the results of the startup check, and the export.
\<close>

section \<open>Positive findings\<close>

record positive_finding =
  fi_address_id :: int
  fi_chain :: string
  fi_balance :: string
  fi_symbol :: string

definition finding_key :: "finding_row \<Rightarrow> int \<times> string" where
  "finding_key r = (pf_address_id r, pf_chain r)"

definition fi_key :: "positive_finding \<Rightarrow> int \<times> string" where
  "fi_key f = (fi_address_id f, fi_chain f)"

definition sql_select_finding :: "positive_finding \<Rightarrow> (int \<times> string) sql" where
  "sql_select_finding f now d =
     (case row_of finding_key (fi_key f) (findings d) of
        None \<Rightarrow> (Inl No_rows, d)
      | Some r \<Rightarrow> (Inr (pf_id r, show_int (pf_balance r)), d))"

definition balance_fits :: "int \<Rightarrow> bool" where
  "balance_fits b \<longleftrightarrow> 0 < b \<and> b < numeric_limit"

definition sql_insert_finding :: "env \<Rightarrow> positive_finding \<Rightarrow> int sql" where
  "sql_insert_finding E f now d =
     (let id = next_finding d; d' = d\<lparr>next_finding := id + 1\<rparr>
      in case ev_numeric E (fi_balance f) of
           None \<Rightarrow> (Inl (Pg ''invalid numeric''), d')
         | Some b \<Rightarrow>
             if \<not> balance_fits b \<or> fi_chain f \<notin> set all_chains
             then (Inl (Pg ''check constraint violated''), d')
             else if fi_address_id f \<notin> set (map wa_id (addresses d))
             then (Inl (Pg ''foreign key violated''), d')
             else if has_key finding_key (fi_key f) (findings d)
             then (Inl (Pg ''duplicate key''), d')
             else
               (Inr id,
                d'\<lparr>findings := findings d @
                  [\<lparr>pf_id = id, pf_address_id = fi_address_id f, pf_chain = fi_chain f,
                    pf_balance = b, pf_symbol = fi_symbol f, pf_first_seen = now,
                    pf_last_seen = now\<rparr>]\<rparr>))"

definition sql_update_finding :: "env \<Rightarrow> positive_finding \<Rightarrow> unit sql" where
  "sql_update_finding E f now d =
     (case ev_numeric E (fi_balance f) of
        None \<Rightarrow> (Inl (Pg ''invalid numeric''), d)
      | Some b \<Rightarrow>
          if has_key finding_key (fi_key f) (findings d) \<and> \<not> balance_fits b
          then (Inl (Pg ''check constraint violated''), d)
          else
            (Inr (),
             d\<lparr>findings := update_where (\<lambda>r. finding_key r = fi_key f)
                 (\<lambda>r. r\<lparr>pf_balance := b, pf_symbol := fi_symbol f, pf_last_seen := now\<rparr>)
                 (findings d)\<rparr>))"

text \<open>One round of the loop: the row id, whether the balance changed, whether the row is new.\<close>

definition save_one :: "env \<Rightarrow> int \<Rightarrow> positive_finding \<Rightarrow> (int \<times> bool \<times> bool) dbp" where
  "save_one E now f =
     wrapD ''upsert positive finding: ''
       (tryE (exec_at E now (sql_select_finding f))
          (\<lambda>(id, previous).
             bindE (exec_at E now (sql_update_finding E f))
               (\<lambda>_. ret (id, previous \<noteq> fi_balance f, False)))
          (\<lambda>e. if e = No_rows
               then bindE (exec_at E now (sql_insert_finding E f)) (\<lambda>id. ret (id, True, True))
               else raise e))"

definition SavePositiveFindings :: "env \<Rightarrow> positive_finding list \<Rightarrow> int option dbp" where
  "SavePositiveFindings E fs =
     (if fs = [] then ret None
      else transact E ''begin positive finding: '' ''commit positive findings: ''
        (\<lambda>now. bindE (mapE (save_one E now) fs)
           (\<lambda>rs. case List.find (\<lambda>(id, changed, created). changed) rs of
              None \<Rightarrow> ret None
            | Some (fid, _, _) \<Rightarrow>
                let eventType = (if list_ex (\<lambda>(id, changed, created). created) rs
                                 then ''first_positive'' else ''balance_changed'')
                in bindE
                     (wrapD ''create positive notification: ''
                        (exec_at E now (sql_insert_event (Some fid) None eventType)))
                     (\<lambda>eventID. ret (Some eventID)))))"

section \<open>Startup checks\<close>

text \<open>\<^verbatim>\<open>BalanceAtomic\<close> is empty for no balance, \<^verbatim>\<open>RetryAfterMS\<close> nil for none.\<close>

record wallet_check =
  wc_address_id :: int
  wc_chain :: string
  wc_state :: string
  wc_balance :: string
  wc_symbol :: string
  wc_code :: string
  wc_message :: string
  wc_provider :: string
  wc_retry_ms :: "int option"
  wc_checked_at :: int

definition check_key :: "check_row \<Rightarrow> int \<times> string" where
  "check_key r = (bc_address_id r, bc_chain r)"

definition wc_key :: "wallet_check \<Rightarrow> int \<times> string" where
  "wc_key c = (wc_address_id c, wc_chain c)"

definition set_check :: "check_row \<Rightarrow> check_row \<Rightarrow> check_row" where
  "set_check new r = new\<lparr>bc_id := bc_id r\<rparr>"

definition new_check :: "env \<Rightarrow> wallet_check \<Rightarrow> int \<Rightarrow> check_row option" where
  "new_check E c i =
     (case (if wc_balance c = [] then Some None
            else map_option Some (ev_numeric E (wc_balance c))) of
        None \<Rightarrow> None
      | Some b \<Rightarrow>
          Some \<lparr>bc_id = i, bc_address_id = wc_address_id c, bc_chain = wc_chain c,
                bc_state = wc_state c, bc_balance = b, bc_symbol = nullif_empty (wc_symbol c),
                bc_code = nullif_empty (wc_code c), bc_message = nullif_empty (wc_message c),
                bc_provider = nullif_empty (wc_provider c), bc_retry_ms = wc_retry_ms c,
                bc_checked_at = wc_checked_at c\<rparr>)"

definition sql_save_check :: "env \<Rightarrow> wallet_check \<Rightarrow> unit sql" where
  "sql_save_check E c now d =
     (let d' = d\<lparr>next_check := next_check d + 1\<rparr>
      in case new_check E c (next_check d) of
           None \<Rightarrow> (Inl (Pg ''invalid numeric''), d')
         | Some new \<Rightarrow>
             if \<not> check_ok new then (Inl (Pg ''check constraint violated''), d')
             else if wc_address_id c \<notin> set (map wa_id (addresses d))
             then (Inl (Pg ''foreign key violated''), d')
             else (Inr (), d'\<lparr>checks := upsert check_key (set_check new) new (checks d)\<rparr>))"

text \<open>\<open>clock\<close> is \<^verbatim>\<open>time.Now()\<close>, used when \<^verbatim>\<open>CheckedAt\<close> is the zero time, here 0.\<close>

definition SaveWalletBalanceCheck :: "env \<Rightarrow> int \<Rightarrow> wallet_check \<Rightarrow> unit dbp" where
  "SaveWalletBalanceCheck E clock c =
     exec E (sql_save_check E (if wc_checked_at c = 0 then c\<lparr>wc_checked_at := clock\<rparr> else c))"

section \<open>The export\<close>

text \<open>
  The rows given to the CSV writer, which writes to \<^verbatim>\<open>w\<close>; \<open>fmt\<close> is the time format.
\<close>

definition export_header :: "string list" where
  "export_header = [''address_type'', ''address'', ''label'', ''chain'', ''balance_atomic'',
     ''asset_symbol'', ''first_seen_at'', ''last_seen_at'']"

definition sql_export :: "(finding_row \<times> wallet_row) list sql" where
  "sql_export now d =
     (Inr (concat (map (\<lambda>f. case row_of wa_id (pf_address_id f) (addresses d) of
                         None \<Rightarrow> [] | Some a \<Rightarrow> [(f, a)])
             (sort_key pf_id (findings d)))), d)"

definition export_row :: "(int \<Rightarrow> string) \<Rightarrow> finding_row \<times> wallet_row \<Rightarrow> string list" where
  "export_row fmt fa =
     (case fa of (f, a) \<Rightarrow>
        [wa_type a, wa_address a, wa_label a, pf_chain f, show_int (pf_balance f), pf_symbol f,
         fmt (pf_first_seen f), fmt (pf_last_seen f)])"

definition ExportFindings :: "env \<Rightarrow> (int \<Rightarrow> string) \<Rightarrow> string list list dbp" where
  "ExportFindings E fmt =
     bindE (fetch E id id sql_export) (\<lambda>rows. ret (export_header # map (export_row fmt) rows))"

section \<open>The invariant\<close>

lemma good_select_finding [good_rules]: "good (sql_select_finding f now)"
  by (auto simp: good_def sql_select_finding_def split: option.split)

lemma good_insert_finding [good_rules]: "good (sql_insert_finding E f now)"
proof (rule goodI)
  fix d
  assume d: "db_ok d"
  let ?d' = "snd (sql_insert_finding E f now d)"
  have lt: "x < n \<Longrightarrow> x < n + 1" for x n :: int by simp
  have "findings_ok ?d'"
    using d unfolding db_ok_def findings_ok_def address_ids_def sql_insert_finding_def Let_def
    by (auto simp: sorted_wrt_append has_key_iff finding_key_def fi_key_def balance_fits_def
        image_iff intro: lt split: option.splits)
  moreover have sub: "pf_id ` set (findings d) \<subseteq> pf_id ` set (findings ?d')"
    by (auto simp: sql_insert_finding_def Let_def split: option.splits)
  then have "events_ok ?d'"
    using d unfolding db_ok_def events_ok_def
    by (auto simp: sql_insert_finding_def Let_def split: option.splits)
  moreover have "addresses_ok ?d' = addresses_ok d" "runs_ok ?d' = runs_ok d"
      "checks_ok ?d' = checks_ok d" "retries_ok ?d' = retries_ok d" "incidents_ok ?d' = incidents_ok d"
    unfolding table_ok_defs by (simp_all add: sql_insert_finding_def Let_def split: option.splits)
  moreover have "seq_le d ?d'"
    by (simp add: seq_le_def sql_insert_finding_def Let_def split: option.splits)
  ultimately show "db_ok ?d' \<and> seq_le d ?d'" using d by (simp add: db_ok_def)
qed

lemma good_update_finding [good_rules]: "good (sql_update_finding E f now)"
proof (rule goodI)
  fix d
  assume d: "db_ok d"
  let ?d' = "snd (sql_update_finding E f now d)"
  have ok: "findings_ok d" using d by (simp add: db_ok_def)
  have "findings_ok ?d'"
  proof (cases "\<exists>b. ev_numeric E (fi_balance f) = Some b \<and>
      has_key finding_key (fi_key f) (findings d) \<and> balance_fits b")
    case True
    with ok show ?thesis
      unfolding findings_ok_def address_ids_def
      by (auto simp: sql_update_finding_def update_where_map set_update_where balance_fits_def)
  next
    case False
    have "update_where (\<lambda>r. finding_key r = fi_key f) g (findings d) = findings d"
      if "\<not> has_key finding_key (fi_key f) (findings d)" for g
      using that by (auto simp: update_where_def has_key_iff image_iff intro!: map_idI)
    with False have "?d' = d" by (auto simp: sql_update_finding_def split: option.split)
    with ok show ?thesis by simp
  qed
  moreover have "events_ok ?d'"
    using d unfolding db_ok_def events_ok_def
    by (simp add: sql_update_finding_def update_where_image split: option.splits)
  moreover have "addresses_ok ?d' = addresses_ok d" "runs_ok ?d' = runs_ok d"
      "checks_ok ?d' = checks_ok d" "retries_ok ?d' = retries_ok d" "incidents_ok ?d' = incidents_ok d"
    unfolding table_ok_defs by (simp_all add: sql_update_finding_def split: option.splits)
  moreover have "seq_le d ?d'"
    by (simp add: seq_le_def sql_update_finding_def split: option.splits)
  ultimately show "db_ok ?d' \<and> seq_le d ?d'" using d by (simp add: db_ok_def)
qed

lemma good_save_one [good_rules]: "good (save_one E now f)"
  unfolding save_one_def by (intro good_rules)

lemma good_SavePositiveFindings [good_rules]: "good (SavePositiveFindings E fs)"
  unfolding SavePositiveFindings_def Let_def by (intro good_rules)

lemma set_check_keeps [simp]:
  "bc_id (set_check new r) = bc_id r" "bc_address_id (set_check new r) = bc_address_id new"
  "bc_chain (set_check new r) = bc_chain new" "bc_state (set_check new r) = bc_state new"
  "bc_balance (set_check new r) = bc_balance new" "bc_symbol (set_check new r) = bc_symbol new"
  by (simp_all add: set_check_def)

lemma checks_ok_upsert:
  assumes "checks_ok d" and "check_ok new" and "bc_address_id new \<in> address_ids d"
    and "bc_id new = next_check d"
  shows "checks_ok (d\<lparr>next_check := next_check d + 1,
    checks := upsert check_key (set_check new) new (checks d)\<rparr>)"
proof (cases "has_key check_key (check_key new) (checks d)")
  case True
  let ?u = "update_where (\<lambda>r. check_key r = check_key new) (set_check new) (checks d)"
  have "map check_key ?u = map check_key (checks d)"
    by (simp add: update_where_def) (simp add: check_key_def)
  then have k: "map (\<lambda>r. (bc_address_id r, bc_chain r)) ?u = map (\<lambda>r. (bc_address_id r, bc_chain r)) (checks d)"
    by (simp add: check_key_def [abs_def])
  have "\<forall>r \<in> set ?u. bc_id r < next_check d + 1 \<and> bc_address_id r \<in> address_ids d \<and> check_ok r"
    using assms by (fastforce simp: set_update_where checks_ok_def check_ok_def)
  then show ?thesis using assms True k
    by (simp add: checks_ok_def upsert_def update_where_map address_ids_def)
next
  case False
  have lt: "x < n \<Longrightarrow> x < n + 1" for x n :: int by simp
  with False assms show ?thesis
    by (auto simp: checks_ok_def upsert_def sorted_wrt_append has_key_iff check_key_def
        address_ids_def image_iff)
qed

lemma new_check_fields:
  assumes "new_check E c i = Some new"
  shows "bc_id new = i" "check_key new = wc_key c" "bc_address_id new = wc_address_id c"
    "bc_state new = wc_state c" "bc_symbol new = nullif_empty (wc_symbol c)"
    "bc_code new = nullif_empty (wc_code c)" "bc_message new = nullif_empty (wc_message c)"
    "bc_provider new = nullif_empty (wc_provider c)" "bc_retry_ms new = wc_retry_ms c"
    "bc_balance new = (if wc_balance c = [] then None else ev_numeric E (wc_balance c))"
  using assms by (auto simp: new_check_def check_key_def wc_key_def split: option.splits if_splits)

lemma good_save_check [good_rules]: "good (sql_save_check E c now)"
proof (rule goodI)
  fix d
  assume d: "db_ok d"
  let ?d' = "snd (sql_save_check E c now d)"
  have ok: "checks_ok d" using d by (simp add: db_ok_def)
  then have "checks_ok (d\<lparr>next_check := next_check d + 1\<rparr>)"
    by (fastforce simp: checks_ok_def address_ids_def)
  then have "checks_ok ?d'"
    unfolding sql_save_check_def Let_def
    by (auto split: option.splits intro!: checks_ok_upsert [OF ok]
        simp: address_ids_def new_check_fields)
  moreover have "addresses_ok ?d' = addresses_ok d" "runs_ok ?d' = runs_ok d"
      "findings_ok ?d' = findings_ok d" "retries_ok ?d' = retries_ok d"
      "incidents_ok ?d' = incidents_ok d" "events_ok ?d' = events_ok d"
    unfolding table_ok_defs by (simp_all add: sql_save_check_def Let_def split: option.splits)
  moreover have "seq_le d ?d'"
    by (simp add: seq_le_def sql_save_check_def Let_def split: option.splits)
  ultimately show "db_ok ?d' \<and> seq_le d ?d'" using d by (simp add: db_ok_def)
qed

lemma good_finding_ops [good_rules]:
  "good (SaveWalletBalanceCheck E t c)" "good (sql_export now)" "good (ExportFindings E fmt)"
proof -
  show "good (SaveWalletBalanceCheck E t c)"
    unfolding SaveWalletBalanceCheck_def by (intro good_rules)
  show "good (sql_export now)" for now by (simp add: good_def sql_export_def)
  then show "good (ExportFindings E fmt)"
    unfolding ExportFindings_def by (intro good_rules)
qed

section \<open>What saving findings does\<close>

definition finding_at :: "db \<Rightarrow> int \<times> string \<Rightarrow> finding_row option" where
  "finding_at d k = row_of finding_key k (findings d)"

definition stored_finding ::
  "env \<Rightarrow> finding_row option \<Rightarrow> positive_finding \<Rightarrow> finding_row \<Rightarrow> bool" where
  "stored_finding E old f r \<longleftrightarrow>
     ev_numeric E (fi_balance f) = Some (pf_balance r) \<and> pf_symbol r = fi_symbol f \<and>
     (case old of None \<Rightarrow> True
      | Some q \<Rightarrow> pf_id r = pf_id q \<and> pf_first_seen r = pf_first_seen q)"

lemma finding_key_update [simp]:
  "finding_key (r\<lparr>pf_balance := b, pf_symbol := s, pf_last_seen := t\<rparr>) = finding_key r"
  by (simp add: finding_key_def)

lemma keeps_finding_statements:
  assumes "k \<noteq> fi_key f"
  shows "keeps (\<lambda>d. finding_at d k = v) (sql_select_finding f now)"
    and "keeps (\<lambda>d. finding_at d k = v) (sql_update_finding E f now)"
    and "keeps (\<lambda>d. finding_at d k = v) (sql_insert_finding E f now)"
proof -
  show "keeps (\<lambda>d. finding_at d k = v) (sql_select_finding f now)"
    by (simp add: keeps_def sql_select_finding_def split: option.split)
  show "keeps (\<lambda>d. finding_at d k = v) (sql_update_finding E f now)"
    using assms
    by (simp add: keeps_def sql_update_finding_def finding_at_def row_of_update_other
        split: option.split)
  show "keeps (\<lambda>d. finding_at d k = v) (sql_insert_finding E f now)"
    using assms
    by (simp add: keeps_def sql_insert_finding_def finding_at_def Let_def row_of_append
        finding_key_def fi_key_def split: option.split)
qed

lemma finding_at_tick [simp]: "finding_at (d\<lparr>tick := n\<rparr>) k = finding_at d k"
  by (simp add: finding_at_def)

lemma save_one_others: "k \<noteq> fi_key f \<Longrightarrow> keeps (\<lambda>d. finding_at d k = v) (save_one E now f)"
  unfolding save_one_def
  by (intro keeps keeps_finding_statements) simp_all

lemma save_one_spec:
  assumes "save_one E now f d = (Inr (i, changed, created), d')"
  shows "\<exists>r. finding_at d' (fi_key f) = Some r \<and> pf_id r = i \<and>
    stored_finding E (finding_at d (fi_key f)) f r \<and> events d' = events d \<and>
    (case finding_at d (fi_key f) of
       None \<Rightarrow> changed \<and> created
     | Some q \<Rightarrow> \<not> created \<and> changed = (show_int (pf_balance q) \<noteq> fi_balance f))"
proof (cases "finding_at d (fi_key f)")
  case None
  with assms show ?thesis
    unfolding save_one_def finding_at_def
    by (auto simp: tryE_eq_Inr bindE_eq_Inr exec_at_Inr exec_at_def sql_select_finding_def
        sql_insert_finding_def Let_def row_of_append finding_key_def
        fi_key_def stored_finding_def split: option.splits if_splits fault.splits)
next
  case (Some q)
  then have q: "row_of finding_key (fi_key f) (findings d) = Some q" by (simp add: finding_at_def)
  then have k: "finding_key q = fi_key f" using row_of_key by fastforce
  from assms q obtain b where b: "ev_numeric E (fi_balance f) = Some b" "i = pf_id q"
      "\<not> created" "changed = (show_int (pf_balance q) \<noteq> fi_balance f)" "events d' = events d"
      "findings d' = update_where (\<lambda>r. finding_key r = fi_key f)
         (\<lambda>r. r\<lparr>pf_balance := b, pf_symbol := fi_symbol f, pf_last_seen := now\<rparr>) (findings d)"
    unfolding save_one_def
    by (auto simp: tryE_eq_Inr bindE_eq_Inr exec_at_Inr exec_at_def sql_select_finding_def
        sql_update_finding_def Let_def split: option.splits if_splits fault.splits)
  with q k Some show ?thesis
    by (simp add: finding_at_def row_of_update_where stored_finding_def)
qed

interpretation fnd: upserting "save_one E now" finding_at fi_key "stored_finding E" for E now
proof
  fix x d d'
  fix a :: "int \<times> bool \<times> bool"
  assume "save_one E now x d = (Inr a, d')"
  then show "\<exists>r. finding_at d' (fi_key x) = Some r \<and> stored_finding E (finding_at d (fi_key x)) x r"
    using save_one_spec [of E now x d] by (cases a) blast
next
  fix k x d
  assume "k \<noteq> fi_key x"
  from keepsD [OF save_one_others [OF this] refl]
  show "finding_at (snd (save_one E now x d)) k = finding_at d k" .
qed

definition flags_of :: "db \<Rightarrow> positive_finding \<Rightarrow> bool \<times> bool" where
  "flags_of d f =
     (case finding_at d (fi_key f) of
        None \<Rightarrow> (True, True)
      | Some q \<Rightarrow> (show_int (pf_balance q) \<noteq> fi_balance f, False))"

text \<open>The rounds of the loop see the balances from before the call, as the keys differ.\<close>

lemma save_all_spec:
  assumes "distinct (map fi_key fs)" and "mapE (save_one E now) fs d = (Inr rs, d')"
  shows "events d' = events d \<and> map snd rs = map (flags_of d) fs \<and>
    list_all2 (\<lambda>f r. \<exists>q. finding_at d' (fi_key f) = Some q \<and> pf_id q = fst r) fs rs"
  using assms
proof (induction fs arbitrary: d rs)
  case (Cons f fs)
  from Cons.prems(2) obtain i ch cr d1 qs where 1: "save_one E now f d = (Inr (i, ch, cr), d1)"
      and 2: "mapE (save_one E now) fs d1 = (Inr qs, d')" and rs: "rs = (i, ch, cr) # qs"
    by (auto simp: bindE_eq_Inr)
  note s = save_one_spec [OF 1]
  have flags: "flags_of d1 g = flags_of d g" if "g \<in> set fs" for g
  proof -
    have "fi_key g \<in> fi_key ` set fs" using that by simp
    then have "fi_key g \<noteq> fi_key f" using Cons.prems(1) by auto
    from keepsD_eq [OF save_one_others [OF this] refl 1] show ?thesis by (simp add: flags_of_def)
  qed
  have "fi_key f \<notin> fi_key ` set fs" using Cons.prems(1) by simp
  from fnd.each_others [OF this, of E now d1] mapE_eachE [OF 2]
  have "finding_at d' (fi_key f) = finding_at d1 (fi_key f)" by simp
  moreover have "(ch, cr) = flags_of d f"
    using s by (auto simp: flags_of_def split: option.splits)
  ultimately show ?case using Cons.IH [OF _ 2] Cons.prems(1) s rs flags by auto
qed simp

definition balance_of :: "db \<Rightarrow> int \<times> string \<Rightarrow> int option" where
  "balance_of d k = map_option pf_balance (finding_at d k)"

text \<open>The event of a batch of findings, from the balances before.\<close>

definition finding_event :: "db \<Rightarrow> positive_finding list \<Rightarrow> (positive_finding \<Rightarrow> int) \<Rightarrow> string option" where
  "finding_event d fs n =
     (if list_all (\<lambda>f. balance_of d (fi_key f) = Some (n f)) fs then None
      else Some (if list_ex (\<lambda>f. balance_of d (fi_key f) = None) fs
                 then ''first_positive'' else ''balance_changed''))"

lemma flags_balance:
  assumes "fi_balance f = show_int (n f)"
  shows "flags_of d f = (balance_of d (fi_key f) \<noteq> Some (n f), balance_of d (fi_key f) = None)"
  using assms by (auto simp: flags_of_def balance_of_def split: option.splits)

lemma find_flags:
  "map snd rs = map g fs \<Longrightarrow>
   (List.find (\<lambda>(i, ch, cr). ch) rs = None) = list_all (\<lambda>f. \<not> fst (g f)) fs \<and>
   list_ex (\<lambda>(i, ch, cr). cr) rs = list_ex (\<lambda>f. snd (g f)) fs"
proof (induction rs arbitrary: fs)
  case (Cons r rs)
  then obtain f gs where "fs = f # gs" "snd r = g f" "map snd rs = map g gs" by (cases fs) auto
  with Cons.IH show ?case by (cases r) auto
qed simp

lemma sql_insert_event_Inr:
  assumes "sql_insert_event (Some i) None ty now d = (Inr e, d')"
  shows "findings d' = findings d \<and> (\<exists>row. events d' = events d @ [row] \<and> ne_id row = e \<and>
    ne_type row = ty \<and> ne_status row = ''pending'' \<and> ne_finding row = Some i)"
  using assms by (auto simp: sql_insert_event_def Let_def split: if_splits)

text \<open>The last step of \<^verbatim>\<open>SavePositiveFindings\<close>: the event of the findings \<open>rs\<close> just written.\<close>

definition event_step :: "int \<Rightarrow> (int \<times> bool \<times> bool) list \<Rightarrow> int option \<Rightarrow> db \<Rightarrow> db \<Rightarrow> bool" where
  "event_step now rs r d d' \<longleftrightarrow>
     (case List.find (\<lambda>(i, ch, cr). ch) rs of
        None \<Rightarrow> r = None \<and> d' = d
      | Some (i, _, _) \<Rightarrow> \<exists>e. r = Some e \<and>
          sql_insert_event (Some i) None
            (if list_ex (\<lambda>(i, ch, cr). cr) rs then ''first_positive'' else ''balance_changed'')
            now (d\<lparr>tick := Suc (tick d)\<rparr>) = (Inr e, d'))"

lemma SavePositiveFindings_Inr:
  assumes "SavePositiveFindings E fs d = (Inr r, d')" and "fs \<noteq> []"
  obtains now rs d0 d1 d2 where "mapE (save_one E now) fs d0 = (Inr rs, d1)"
    and "events d0 = events d" "findings d0 = findings d"
    and "event_step now rs r d1 d2" and "events d' = events d2" "findings d' = findings d2"
  using assms
  by (fastforce simp: SavePositiveFindings_def event_step_def transact_Inr bindE_eq_Inr exec_at_Inr
      Let_def split: option.splits prod.splits
      intro: that [of "ev_now E (tick d)" "d\<lparr>tick := Suc (tick d)\<rparr>"])

lemma event_step_findings: "event_step now rs r d d' \<Longrightarrow> findings d' = findings d"
  by (auto simp: event_step_def split: option.splits prod.splits dest: sql_insert_event_Inr)

lemma changed_findings:
  assumes "map snd rs = map (flags_of d) fs" and "\<forall>f \<in> set fs. fi_balance f = show_int (n f)"
  shows "finding_event d fs n =
    (if List.find (\<lambda>(i, ch, cr). ch) rs = None then None
     else Some (if list_ex (\<lambda>(i, ch, cr). cr) rs then ''first_positive'' else ''balance_changed''))"
proof -
  have "flags_of d f = (balance_of d (fi_key f) \<noteq> Some (n f), balance_of d (fi_key f) = None)"
    if "f \<in> set fs" for f
    using flags_balance assms(2) that by simp
  then have "list_all (\<lambda>f. \<not> fst (flags_of d f)) fs = list_all (\<lambda>f. balance_of d (fi_key f) = Some (n f)) fs"
      "list_ex (\<lambda>f. snd (flags_of d f)) fs = list_ex (\<lambda>f. balance_of d (fi_key f) = None) fs"
    by (auto simp: list_all_iff list_ex_iff)
  with find_flags [OF assms(1)] show ?thesis by (simp only: finding_event_def)
qed

lemma changed_event:
  assumes flags: "map snd rs = map (flags_of d) fs" and bal: "\<forall>f \<in> set fs. fi_balance f = show_int (n f)"
    and ids: "list_all2 (\<lambda>f x. \<exists>q. finding_at d1 (fi_key f) = Some q \<and> pf_id q = fst x) fs rs"
    and step: "event_step now rs r d1 d2"
  shows "case finding_event d fs n of
     None \<Rightarrow> r = None \<and> events d2 = events d1
   | Some ty \<Rightarrow> \<exists>e row q. r = Some e \<and> events d2 = events d1 @ [row] \<and> ne_id row = e \<and>
       ne_type row = ty \<and> ne_status row = ''pending'' \<and> ne_finding row = Some (pf_id q) \<and>
       q \<in> set (findings d1) \<and> finding_key q \<in> fi_key ` set fs"
proof (cases "List.find (\<lambda>(i, ch, cr). ch) rs")
  case None
  with step changed_findings [OF flags bal] show ?thesis by (simp add: event_step_def)
next
  case (Some p)
  obtain i ch cr where p: "p = (i, ch, cr)" by (cases p)
  with Some have "(i, ch, cr) \<in> set rs" by (metis find_Some_iff nth_mem)
  with ids obtain f q where f: "f \<in> set fs" and q: "finding_at d1 (fi_key f) = Some q" "pf_id q = i"
    by (auto simp: list_all2_conv_all_nth in_set_conv_nth) (metis fst_conv)
  have "q \<in> set (findings d1)" and "finding_key q = fi_key f"
    using q row_of_key [of finding_key] by (auto simp: finding_at_def)
  moreover from Some p step obtain e where "r = Some e" and
      i: "sql_insert_event (Some i) None
        (if list_ex (\<lambda>(i, ch, cr). cr) rs then ''first_positive'' else ''balance_changed'')
        now (d1\<lparr>tick := Suc (tick d1)\<rparr>) = (Inr e, d2)"
    by (auto simp: event_step_def)
  ultimately show ?thesis
    using sql_insert_event_Inr [OF i] changed_findings [OF flags bal] Some f q by (auto split: if_splits)
qed

section \<open>Theorems\<close>

text \<open>
  C9: saving the positive balances of an address. After a success every finding holds the
  balance given and no other finding changed. An event is created exactly when a balance is
  new or differs from the one stored, one event for the whole call, pending, of type
  \<^verbatim>\<open>first_positive\<close> if some chain had no finding and \<^verbatim>\<open>balance_changed\<close> otherwise, and
  it points to one of the findings written.
\<close>

theorem saved_findings:
  assumes numeric: "\<forall>n. ev_numeric E (show_int n) = Some n"
    and keys: "distinct (map fi_key fs)" and bal: "\<forall>f \<in> set fs. fi_balance f = show_int (n f)"
    and run: "SavePositiveFindings E fs d = (Inr r, d')"
  shows "(\<forall>f \<in> set fs. balance_of d' (fi_key f) = Some (n f)) \<and>
    (\<forall>k. k \<notin> fi_key ` set fs \<longrightarrow> finding_at d' k = finding_at d k) \<and>
    (case finding_event d fs n of
       None \<Rightarrow> r = None \<and> events d' = events d
     | Some ty \<Rightarrow> \<exists>e row q. r = Some e \<and> events d' = events d @ [row] \<and> ne_id row = e \<and>
         ne_type row = ty \<and> ne_status row = ''pending'' \<and> ne_finding row = Some (pf_id q) \<and>
         q \<in> set (findings d') \<and> finding_key q \<in> fi_key ` set fs)"
proof (cases "fs = []")
  case True
  with run show ?thesis by (simp add: SavePositiveFindings_def finding_event_def)
next
  case False
  obtain now rs d0 d1 d2 where m: "mapE (save_one E now) fs d0 = (Inr rs, d1)"
    and d0: "events d0 = events d" "findings d0 = findings d"
    and ev: "event_step now rs r d1 d2" and d2: "events d' = events d2" "findings d' = findings d2"
    by (rule SavePositiveFindings_Inr [OF run False])
  have at0: "finding_at d0 k = finding_at d k" for k by (simp add: finding_at_def d0)
  have fl: "flags_of d0 = flags_of d" by (simp add: flags_of_def [abs_def] at0)
  note s = save_all_spec [OF keys m, unfolded fl d0]
  have find2: "findings d' = findings d1" using event_step_findings [OF ev] d2 by simp
  then have at: "finding_at d' k = finding_at d1 k" for k by (simp add: finding_at_def)
  have "balance_of d' (fi_key f) = Some (n f)" if "f \<in> set fs" for f
    using fnd.each_stored [OF keys mapE_eachE [OF m] that] bal numeric that
    by (auto simp: balance_of_def at stored_finding_def)
  moreover have "finding_at d' k = finding_at d k" if "k \<notin> fi_key ` set fs" for k
    using fnd.each_others [OF that, of E now d0] mapE_eachE [OF m] by (simp add: at at0)
  ultimately show ?thesis
    using changed_event [OF conjunct1 [OF conjunct2 [OF s]] bal _ ev, unfolded conjunct1 [OF s]] s
    unfolding d2(1) find2 by blast
qed

definition sample_wallet :: wallet_row where
  "sample_wallet = \<lparr>wa_id = 1, wa_type = ''btc'', wa_address = ''1B'', wa_normalized = ''1B'',
     wa_label = [], wa_batch = 7, wa_created = 0\<rparr>"

definition wallet_db :: db where
  "wallet_db = empty_db\<lparr>addresses := [sample_wallet], next_address := 2\<rparr>"

definition sample_finding :: "int \<Rightarrow> positive_finding" where
  "sample_finding n = \<lparr>fi_address_id = 1, fi_chain = ''btc'', fi_balance = show_int n, fi_symbol = ''BTC''\<rparr>"

theorem saved_findings_witness:
  "\<exists>d'. SavePositiveFindings sample_env [sample_finding 5] wallet_db = (Inr (Some 1), d') \<and>
     balance_of d' (1, ''btc'') = Some 5 \<and>
     (\<exists>row. events d' = [row] \<and> ne_type row = ''first_positive'')"
proof -
  have empty: "findings wallet_db = []" "events wallet_db = []" "next_event wallet_db = 1"
    by (simp_all add: wallet_db_def empty_db_def)
  obtain d' where d': "SavePositiveFindings sample_env [sample_finding 5] wallet_db = (Inr (Some 1), d')"
    by (simp add: SavePositiveFindings_def transact_def bindE_def save_one_def wrapD_def handleE_def
        tryE_def exec_at_def sample_env_def sql_select_finding_def sql_insert_finding_def
        sql_insert_event_def sample_finding_def wallet_db_def empty_db_def row_of_def has_key_def
        big_set_string_show_int balance_fits_def numeric_limit_def all_chains_def
        sample_wallet_def event_types_def Let_def)
  have num: "\<forall>n. ev_numeric sample_env (show_int n) = Some n"
    by (simp add: sample_env_def big_set_string_show_int)
  have "balance_of wallet_db k = None" for k
    by (simp add: balance_of_def finding_at_def empty row_of_def)
  then have "finding_event wallet_db [sample_finding 5] (\<lambda>_. 5) = Some ''first_positive''"
    by (simp add: finding_event_def)
  with saved_findings [OF num _ _ d', of "\<lambda>_. 5"] d' show ?thesis
    by (auto simp: sample_finding_def fi_key_def empty)
qed

section \<open>What saving a startup check does\<close>

definition check_at :: "db \<Rightarrow> int \<times> string \<Rightarrow> check_row option" where
  "check_at d k = row_of check_key k (checks d)"

definition stored_check :: "env \<Rightarrow> check_row option \<Rightarrow> wallet_check \<Rightarrow> check_row \<Rightarrow> bool" where
  "stored_check E old c r \<longleftrightarrow>
     bc_state r = wc_state c \<and>
     bc_balance r = (if wc_balance c = [] then None else ev_numeric E (wc_balance c)) \<and>
     bc_symbol r = nullif_empty (wc_symbol c) \<and> bc_code r = nullif_empty (wc_code c) \<and>
     bc_message r = nullif_empty (wc_message c) \<and> bc_provider r = nullif_empty (wc_provider c) \<and>
     bc_retry_ms r = wc_retry_ms c \<and> check_ok r \<and>
     (case old of None \<Rightarrow> True | Some q \<Rightarrow> bc_id r = bc_id q)"

lemma check_ok_id [simp]: "check_ok (new\<lparr>bc_id := i\<rparr>) = check_ok new"
  by (simp add: check_ok_def)

lemma check_key_set [simp]: "check_key (set_check new r) = check_key new"
  by (simp add: check_key_def)

lemma sql_save_check_spec:
  assumes "sql_save_check E c now d = (Inr u, d')"
  shows "\<exists>r. check_at d' (wc_key c) = Some r \<and> stored_check E (check_at d (wc_key c)) c r"
proof -
  from assms obtain new where new: "new_check E c (next_check d) = Some new" "check_ok new"
      "checks d' = upsert check_key (set_check new) new (checks d)"
    by (auto simp: sql_save_check_def Let_def split: option.splits if_splits)
  note f = new_check_fields [OF new(1)]
  have "check_at d' (wc_key c) =
      Some (case check_at d (wc_key c) of None \<Rightarrow> new | Some r \<Rightarrow> set_check new r)"
    by (simp add: check_at_def new(3) row_of_upsert f)
  moreover have "stored_check E None c new"
    by (simp add: stored_check_def f new(2))
  moreover have "stored_check E (Some q) c (set_check new q)" for q
    by (simp add: stored_check_def set_check_def f new(2))
  ultimately show ?thesis by (cases "check_at d (wc_key c)") simp_all
qed

lemma keeps_save_check:
  "k \<noteq> wc_key c \<Longrightarrow> keeps (\<lambda>d. check_at d k = v) (sql_save_check E c now)"
  by (auto simp: keeps_def sql_save_check_def check_at_def Let_def row_of_upsert
      dest: new_check_fields(2) split: option.splits)

lemma wc_key_clock [simp]: "wc_key (c\<lparr>wc_checked_at := t\<rparr>) = wc_key c"
  by (simp add: wc_key_def)

lemma stored_check_clock [simp]:
  "stored_check E old (c\<lparr>wc_checked_at := t\<rparr>) r = stored_check E old c r"
  by (simp add: stored_check_def)

lemma check_at_tick [simp]: "check_at (d\<lparr>tick := n\<rparr>) k = check_at d k"
  by (simp add: check_at_def)

interpretation chk: upserting "SaveWalletBalanceCheck E clock" check_at wc_key "stored_check E"
  for E clock
proof
  fix x d d'
  fix a :: unit
  assume "SaveWalletBalanceCheck E clock x d = (Inr a, d')"
  then show "\<exists>r. check_at d' (wc_key x) = Some r \<and> stored_check E (check_at d (wc_key x)) x r"
    by (auto simp: SaveWalletBalanceCheck_def exec_Inr dest!: sql_save_check_spec split: if_splits)
next
  fix k x d
  assume k: "k \<noteq> wc_key x"
  have "keeps (\<lambda>d'. check_at d' k = check_at d k) (SaveWalletBalanceCheck E clock x)"
    unfolding SaveWalletBalanceCheck_def
    by (intro keeps keeps_save_check) (use k in auto)
  from keepsD [OF this refl]
  show "check_at (snd (SaveWalletBalanceCheck E clock x d)) k = check_at d k" .
qed

end
