(* ===== verification/Tasks.thy ===== *)
theory Tasks
  imports Health Providers Store_Findings
begin

text \<open>
  \<^verbatim>\<open>internal/scanner/scanner.go\<close>, what a worker does for one address: \<^verbatim>\<open>checkAddress\<close> and
  \<^verbatim>\<open>checkWithRetry\<close>. A worker runs concurrently with others, so its code is a \<open>task\<close>: a tree
  whose nodes are its interactions (taking and giving back a semaphore slot, the provider
  query, the calls of the health tracker, sleeping) and whose branches are the answers.
\<close>

section \<open>Tasks\<close>

text \<open>
  \<open>Lock\<close> and \<open>Sleep\<close> are the two \<^verbatim>\<open>select\<close> statements: the answer is false when the
  context is done. \<open>Crash\<close> is a nil dereference.
\<close>

datatype 'r task =
    Done 'r
  | Crash
  | Lock string "bool \<Rightarrow> 'r task"
  | Unlock string "'r task"
  | Query string string "go_error + balance \<Rightarrow> 'r task"
  | Tracker health_call "bool \<times> int \<Rightarrow> 'r task"
  | Sleep int "bool \<Rightarrow> 'r task"

record scan_config =
  sc_batch :: nat
  sc_workers :: int
  sc_max_retries :: int
  sc_base_delay :: int
  sc_threshold :: int

text \<open>
  The scanner: its configuration, the chains with a provider, the semaphores with their
  sizes, and the text of \<^verbatim>\<open>ctx.Err()\<close>.
\<close>

record scanner =
  sn_config :: scan_config
  sn_providers :: "string list"
  sn_limits :: "string \<rightharpoonup> nat"
  sn_ctx_error :: string

definition new_scanner :: "scan_config \<Rightarrow> string list \<Rightarrow> (string \<rightharpoonup> int) \<Rightarrow> string \<Rightarrow> scanner \<times> health" where
  "new_scanner cfg providers limits ctx_error =
     (\<lparr>sn_config = cfg, sn_providers = providers,
       sn_limits = (\<lambda>c. map_option (\<lambda>size. if size < 1 then 1 else nat size) (limits c)),
       sn_ctx_error = ctx_error\<rparr>,
      NewHealthTracker (sc_threshold cfg))"

record scan_failure =
  sf_chain :: string
  sf_code :: string
  sf_provider :: string
  sf_message :: string

record node_alert =
  na_chain :: string
  na_provider :: string
  na_code :: string
  na_failures :: int

record address_result =
  ar_address :: address
  ar_findings :: "positive_finding list"
  ar_errors :: "scan_failure list"
  ar_alerts :: "node_alert list"
  ar_pause :: bool

definition asProviderError :: "go_error \<Rightarrow> string \<Rightarrow> provider_error" where
  "asProviderError e fallback =
     (case e of
        Perr pe \<Rightarrow> pe
      | Other_error m \<Rightarrow>
          \<lparr>pe_code = ''rpc_error'', pe_provider = fallback, pe_status = 0, pe_retry_after = 0,
           pe_temporary = False, pe_err = Some m\<rparr>)"

definition chainsFor :: "string \<Rightarrow> string list" where
  "chainsFor addressType =
     (if addressType = TypeEVM then [ChainEthereum, ChainArbitrum, ChainBSC]
      else if addressType = TypeBTC then [ChainBTC]
      else if addressType = TypeSOL then [ChainSolana]
      else if addressType = TypeTRX then [ChainTRON]
      else [])"

definition retry_delay :: "scanner \<Rightarrow> provider_error \<Rightarrow> nat \<Rightarrow> int" where
  "retry_delay s pe attempt =
     (if pe_retry_after pe \<le> 0
      then wrap64 (sc_base_delay (sn_config s) * wrap64 (2 ^ attempt))
      else pe_retry_after pe)"

text \<open>
  The retry loop from attempt \<open>attempt\<close> on, with \<open>n\<close> attempts left; \<open>k\<close> is what the
  caller does with the result.
\<close>

primrec attempts :: "scanner \<Rightarrow> string \<Rightarrow> string \<Rightarrow> nat \<Rightarrow> nat \<Rightarrow> (go_error + balance \<Rightarrow> 'r task) \<Rightarrow> 'r task" where
  "attempts s chain addr 0 attempt k = k (Inl (Other_error ''unreachable retry state''))"
| "attempts s chain addr (Suc n) attempt k =
     (let after = (\<lambda>res. case res of
            Inr b \<Rightarrow> Tracker (H_success chain) (\<lambda>_. k (Inr b))
          | Inl e \<Rightarrow>
              let pe = asProviderError e chain
              in if \<not> pe_temporary pe \<or> int attempt = sc_max_retries (sn_config s)
                 then Tracker (H_failure chain) (\<lambda>_. k (Inl (Perr pe)))
                 else Sleep (retry_delay s pe attempt)
                        (\<lambda>fired. if fired then attempts s chain addr n (Suc attempt) k
                                 else k (Inl (Other_error (sn_ctx_error s)))))
      in if sn_limits s chain \<noteq> None
         then Lock chain (\<lambda>taken.
                if taken then Query chain addr (\<lambda>res. Unlock chain (after res))
                else k (Inl (Other_error (sn_ctx_error s))))
         else Query chain addr after)"

definition max_attempts :: "scanner \<Rightarrow> nat" where
  "max_attempts s = nat (sc_max_retries (sn_config s) + 1)"

definition checkWithRetry :: "scanner \<Rightarrow> string \<Rightarrow> string \<Rightarrow> (go_error + balance \<Rightarrow> 'r task) \<Rightarrow> 'r task" where
  "checkWithRetry s chain addr k = attempts s chain addr (max_attempts s) 0 k"

definition new_finding :: "address \<Rightarrow> balance \<Rightarrow> int \<Rightarrow> positive_finding" where
  "new_finding a b n =
     \<lparr>fi_address_id = ad_id a, fi_chain = bal_chain b, fi_balance = show_int n, fi_symbol = bal_symbol b\<rparr>"

definition add_error :: "string \<Rightarrow> string \<Rightarrow> string \<Rightarrow> string \<Rightarrow> address_result \<Rightarrow> address_result" where
  "add_error chain code provider message r =
     r\<lparr>ar_errors := ar_errors r @
        [\<lparr>sf_chain = chain, sf_code = code, sf_provider = provider, sf_message = message\<rparr>]\<rparr>"

definition add_alert :: "string \<Rightarrow> provider_error \<Rightarrow> int \<Rightarrow> address_result \<Rightarrow> address_result" where
  "add_alert chain pe failures r =
     r\<lparr>ar_alerts := ar_alerts r @
        [\<lparr>na_chain = chain, na_provider = pe_provider pe, na_code = pe_code pe,
          na_failures = failures\<rparr>]\<rparr>"

text \<open>The loop body after the query of one chain; \<open>next\<close> is the rest of the loop.\<close>

definition chain_answer ::
  "address \<Rightarrow> string \<Rightarrow> address_result \<Rightarrow> (address_result \<Rightarrow> address_result task) \<Rightarrow>
   go_error + balance \<Rightarrow> address_result task" where
  "chain_answer a chain r rest res =
     (case res of
        Inl e \<Rightarrow>
          let pe = asProviderError e chain;
              r = add_error chain (pe_code pe) (pe_provider pe) (error_text pe) r
          in Tracker (H_query chain) (\<lambda>(unhealthy, _).
               if unhealthy then
                 let r = r\<lparr>ar_pause := True\<rparr>
                 in Tracker (H_alert chain) (\<lambda>(alert, failures).
                      rest (if alert then add_alert chain pe failures r else r))
               else rest r)
      | Inr b \<Rightarrow>
          (case bal_atomic b of
             None \<Rightarrow> Crash
           | Some n \<Rightarrow>
               rest (if n > 0 then r\<lparr>ar_findings := ar_findings r @ [new_finding a b n]\<rparr> else r)))"

primrec check_chains :: "scanner \<Rightarrow> address \<Rightarrow> string list \<Rightarrow> address_result \<Rightarrow> address_result task" where
  "check_chains s a [] r = Done r"
| "check_chains s a (chain # cs) r =
     (if chain \<notin> set (sn_providers s)
      then check_chains s a cs
             (add_error chain ''provider_unconfigured'' [] ''provider is not configured'' r)
      else checkWithRetry s chain (ad_address a) (chain_answer a chain r (check_chains s a cs)))"

definition empty_result :: "address \<Rightarrow> address_result" where
  "empty_result a =
     \<lparr>ar_address = a, ar_findings = [], ar_errors = [], ar_alerts = [], ar_pause = False\<rparr>"

definition checkAddress :: "scanner \<Rightarrow> address \<Rightarrow> address_result task" where
  "checkAddress s a = check_chains s a (chainsFor (ad_type a)) (empty_result a)"

section \<open>Slots are taken and given back in pairs\<close>

text \<open>
  \<open>paired s h t\<close>: a task that holds the slot \<open>h\<close> (or none) takes one only when it has none,
  gives back the one it has, queries a chain with a semaphore only while it holds its slot,
  and holds none when it ends.
\<close>

primrec paired :: "scanner \<Rightarrow> string option \<Rightarrow> 'r task \<Rightarrow> bool" where
  "paired s h (Done r) = (h = None)"
| "paired s h Crash = True"
| "paired s h (Lock c k) = (h = None \<and> paired s (Some c) (k True) \<and> paired s None (k False))"
| "paired s h (Unlock c t) = (h = Some c \<and> paired s None t)"
| "paired s h (Query c a k) = ((sn_limits s c \<noteq> None \<longrightarrow> h = Some c) \<and> (\<forall>x. paired s h (k x)))"
| "paired s h (Tracker e k) = (\<forall>x. paired s h (k x))"
| "paired s h (Sleep d k) = (h = None \<and> (\<forall>b. paired s h (k b)))"

lemma paired_attempts:
  "(\<And>x. paired s None (k x)) \<Longrightarrow> paired s None (attempts s c a n i k)"
  by (induction n arbitrary: i) (auto simp: Let_def split: sum.split)

lemma paired_answer: "(\<And>r. paired s None (rest r)) \<Longrightarrow> paired s None (chain_answer a c r rest x)"
  by (auto simp: chain_answer_def Let_def split: sum.split option.split)

lemma paired_chains: "paired s None (check_chains s a cs r)"
  by (induction cs arbitrary: r)
    (auto simp: checkWithRetry_def intro!: paired_attempts paired_answer)

lemma paired_checkAddress: "paired s None (checkAddress s a)"
  by (simp add: checkAddress_def paired_chains)

section \<open>The length of a task\<close>

text \<open>\<open>within n t\<close>: the task ends within \<open>n\<close> interactions, the delivery of its result included.\<close>

primrec steps_within :: "'r task \<Rightarrow> nat \<Rightarrow> bool" where
  "steps_within (Done r) = (\<lambda>n. 1 \<le> n)"
| "steps_within Crash = (\<lambda>n. 1 \<le> n)"
| "steps_within (Lock c k) = (\<lambda>n. 1 \<le> n \<and> (\<forall>b. steps_within (k b) (n - 1)))"
| "steps_within (Unlock c t) = (\<lambda>n. 1 \<le> n \<and> steps_within t (n - 1))"
| "steps_within (Query c a k) = (\<lambda>n. 1 \<le> n \<and> (\<forall>x. steps_within (k x) (n - 1)))"
| "steps_within (Tracker e k) = (\<lambda>n. 1 \<le> n \<and> (\<forall>x. steps_within (k x) (n - 1)))"
| "steps_within (Sleep d k) = (\<lambda>n. 1 \<le> n \<and> (\<forall>b. steps_within (k b) (n - 1)))"

lemma steps_within_mono: "steps_within t n \<Longrightarrow> n \<le> m \<Longrightarrow> steps_within t m"
proof (induction t arbitrary: n m)
  case (Lock c k)
  then show ?case by (auto intro: Lock.IH [OF rangeI, where n = "n - 1"])
next
  case (Unlock c t)
  then show ?case by (auto intro: Unlock.IH [where n = "n - 1"])
next
  case (Query c a k)
  then show ?case by (auto intro: Query.IH [OF rangeI, where n = "n - 1"])
next
  case (Tracker e k)
  then show ?case by (auto intro: Tracker.IH [OF rangeI, where n = "n - 1"])
next
  case (Sleep d k)
  then show ?case by (auto intro: Sleep.IH [OF rangeI, where n = "n - 1"])
qed auto

lemma steps_attempts:
  assumes "\<And>x. steps_within (k x) m"
  shows "steps_within (attempts s c a n i k) (4 * n + m)"
proof (induction n arbitrary: i)
  case 0
  show ?case using assms by simp
next
  case (Suc n)
  have k: "steps_within (k x) j" if "m \<le> j" for x j using assms that steps_within_mono by blast
  have rec: "steps_within (attempts s c a n (Suc i) k) j" if "4 * n + m \<le> j" for j
    using Suc.IH that steps_within_mono by blast
  show ?case by (auto simp: Let_def split: sum.split intro!: k rec)
qed

definition task_bound :: "scanner \<Rightarrow> nat \<Rightarrow> nat" where
  "task_bound s n = n * (4 * max_attempts s + 2) + 1"

lemma task_bound_mono: "m \<le> n \<Longrightarrow> task_bound s m \<le> task_bound s n"
  unfolding task_bound_def by (intro add_right_mono mult_le_mono1)

lemma steps_answer:
  assumes "\<And>r. steps_within (rest r) m"
  shows "steps_within (chain_answer a c r rest x) (2 + m)"
proof -
  have "steps_within (rest r) j" if "m \<le> j" for r j using assms that steps_within_mono by blast
  then show ?thesis
    by (auto simp: chain_answer_def Let_def split: sum.split option.split)
qed

lemma steps_chains: "steps_within (check_chains s a cs r) (task_bound s (length cs))"
proof (induction cs arbitrary: r)
  case Nil
  then show ?case by (simp add: task_bound_def)
next
  case (Cons c cs)
  let ?m = "task_bound s (length cs)"
  have eq: "task_bound s (length (c # cs)) = 4 * max_attempts s + (2 + ?m)"
    by (simp add: task_bound_def)
  show ?case
  proof (cases "c \<in> set (sn_providers s)")
    case False
    have "steps_within (check_chains s a cs r') (task_bound s (length (c # cs)))" for r'
      by (rule steps_within_mono [OF Cons.IH]) (simp add: task_bound_mono)
    with False show ?thesis by simp
  next
    case True
    have "steps_within (attempts s c (ad_address a) (max_attempts s) 0
        (chain_answer a c r (check_chains s a cs))) (4 * max_attempts s + (2 + ?m))"
      by (intro steps_attempts steps_answer Cons.IH)
    with True show ?thesis unfolding eq by (simp add: checkWithRetry_def)
  qed
qed

section \<open>What a result says\<close>

text \<open>
  \<open>log\<close> is the list of provider answers of an address so far, with their cs. A result is
  faithful to the log when its findings are exactly the positive balances among the answers,
  it has an error for exactly the chains without a successful answer, in their order, and no
  chain was asked more often than the configuration allows.
\<close>

type_synonym query_log = "(string \<times> (go_error + balance)) list"

definition succeeded :: "query_log \<Rightarrow> string \<Rightarrow> bool" where
  "succeeded log c \<longleftrightarrow> list_ex (\<lambda>(d, x). d = c \<and> (case x of Inl _ \<Rightarrow> False | Inr _ \<Rightarrow> True)) log"

definition findings_in :: "address \<Rightarrow> query_log \<Rightarrow> positive_finding list" where
  "findings_in a log =
     concat (map (\<lambda>(c, x). case x of
       Inl _ \<Rightarrow> []
     | Inr b \<Rightarrow> (case bal_atomic b of None \<Rightarrow> [] | Some n \<Rightarrow> if n > 0 then [new_finding a b n] else []))
       log)"

definition asked :: "query_log \<Rightarrow> string \<Rightarrow> nat" where
  "asked log c = length (filter (\<lambda>(d, x). d = c) log)"

definition faithful :: "scanner \<Rightarrow> address \<Rightarrow> string list \<Rightarrow> query_log \<Rightarrow> address_result \<Rightarrow> bool" where
  "faithful s a cs log r \<longleftrightarrow>
     ar_address r = a \<and> ar_findings r = findings_in a log \<and>
     map sf_chain (ar_errors r) = filter (\<lambda>c. \<not> succeeded log c) cs \<and>
     (\<forall>c. asked log c \<le> max_attempts s) \<and> fst ` set log \<subseteq> set cs"

definition valid_answer :: "go_error + balance \<Rightarrow> bool" where
  "valid_answer x \<longleftrightarrow> (case x of Inl _ \<Rightarrow> True | Inr b \<Rightarrow> bal_atomic b \<noteq> None)"

text \<open>Every result the task can end with is faithful, whatever valid answers it gets.\<close>

primrec tells :: "(query_log \<Rightarrow> 'r \<Rightarrow> bool) \<Rightarrow> 'r task \<Rightarrow> query_log \<Rightarrow> bool" where
  "tells P (Done r) = (\<lambda>log. P log r)"
| "tells P Crash = (\<lambda>log. False)"
| "tells P (Lock c k) = (\<lambda>log. \<forall>b. tells P (k b) log)"
| "tells P (Unlock c t) = (\<lambda>log. tells P t log)"
| "tells P (Query c a k) = (\<lambda>log. \<forall>x. valid_answer x \<longrightarrow> tells P (k x) (log @ [(c, x)]))"
| "tells P (Tracker e k) = (\<lambda>log. \<forall>x. tells P (k x) log)"
| "tells P (Sleep d k) = (\<lambda>log. \<forall>b. tells P (k b) log)"

text \<open>
  The retry loop adds at most \<open>n\<close> answers of its chain, all of them errors but possibly the
  last, and reports a balance exactly when the last answer is that balance.
\<close>

definition attempts_log :: "string \<Rightarrow> nat \<Rightarrow> (go_error + balance) \<Rightarrow> query_log \<Rightarrow> bool" where
  "attempts_log c n x new \<longleftrightarrow>
     length new \<le> n \<and>
     (case x of
        Inr b \<Rightarrow> bal_atomic b \<noteq> None \<and>
          (\<exists>es. new = map (\<lambda>e. (c, Inl e)) es @ [(c, Inr b)])
      | Inl _ \<Rightarrow> \<exists>es. new = map (\<lambda>e. (c, Inl e)) es)"

lemma attempts_log_Cons:
  assumes "attempts_log c n x new"
  shows "attempts_log c (Suc n) x ((c, Inl e) # new)"
  using assms unfolding attempts_log_def
  by (auto split: sum.splits) (metis append_Cons list.simps(9))+

lemma tells_attempts:
  assumes "\<And>x new. attempts_log c n x new \<Longrightarrow> tells P (k x) (log @ new)"
  shows "tells P (attempts s c a n i k) log"
  using assms
proof (induction n arbitrary: i log)
  case 0
  have "attempts_log c 0 (Inl e) []" for e by (simp add: attempts_log_def)
  from 0 [OF this] show ?case by simp
next
  case (Suc n)
  have one: "attempts_log c (Suc n) (Inl e') [(c, Inl e)]" for e e'
    by (auto simp: attempts_log_def intro: exI [of _ "[e]"])
  have none: "attempts_log c (Suc n) (Inl e) []" for e by (simp add: attempts_log_def)
  have okay: "attempts_log c (Suc n) (Inr b) [(c, Inr b)]" if "bal_atomic b \<noteq> None" for b
    using that by (auto simp: attempts_log_def)
  have rec: "tells P (attempts s c a n (Suc i) k) (log @ [(c, Inl e)])" for e
  proof (rule Suc.IH)
    fix x new
    assume "attempts_log c n x new"
    from Suc.prems [OF attempts_log_Cons [OF this, of e]]
    show "tells P (k x) ((log @ [(c, Inl e)]) @ new)" by simp
  qed
  show ?case
    using Suc.prems [OF one] Suc.prems [OF none] Suc.prems [OF okay] rec
    by (auto simp: Let_def valid_answer_def split: sum.splits)
qed

lemma succeeded_append: "succeeded (log @ new) c = (succeeded log c \<or> succeeded new c)"
  by (simp add: succeeded_def)

lemma asked_append: "asked (log @ new) c = asked log c + asked new c"
  by (simp add: asked_def)

lemma findings_in_append: "findings_in a (log @ new) = findings_in a log @ findings_in a new"
  by (simp add: findings_in_def)

lemma succeeded_logged: "succeeded log c \<Longrightarrow> c \<in> fst ` set log"
  by (force simp: succeeded_def list_ex_iff)

lemma asked_logged: "c \<notin> fst ` set log \<Longrightarrow> asked log c = 0"
  by (force simp: asked_def filter_empty_conv)

lemma attempts_log_props:
  assumes "attempts_log c n x new"
  shows "fst ` set new \<subseteq> {c}" and "asked new d \<le> (if d = c then n else 0)"
    and "succeeded new c = (case x of Inl _ \<Rightarrow> False | Inr _ \<Rightarrow> True)"
    and "findings_in a new = (case x of Inl _ \<Rightarrow> [] | Inr b \<Rightarrow>
      (case bal_atomic b of None \<Rightarrow> [] | Some k \<Rightarrow> if k > 0 then [new_finding a b k] else []))"
proof -
  obtain es where es: "new = map (\<lambda>e. (c, Inl e)) es @ (case x of Inl _ \<Rightarrow> [] | Inr b \<Rightarrow> [(c, Inr b)])"
    using assms by (auto simp: attempts_log_def split: sum.splits)
  have len: "length new \<le> n" using assms by (simp add: attempts_log_def)
  show sub: "fst ` set new \<subseteq> {c}" by (auto simp: es split: sum.splits)
  show "asked new d \<le> (if d = c then n else 0)"
  proof (cases "d = c")
    case True
    have "asked new d \<le> length new" unfolding asked_def by (rule length_filter_le)
    with len True show ?thesis by simp
  next
    case False
    with sub asked_logged [of d new] show ?thesis by auto
  qed
  show "succeeded new c = (case x of Inl _ \<Rightarrow> False | Inr _ \<Rightarrow> True)"
    by (auto simp: succeeded_def es list_ex_iff split: sum.splits)
  have "concat (map (\<lambda>(c, x). case x of Inl _ \<Rightarrow> []
       | Inr b \<Rightarrow> (case bal_atomic b of None \<Rightarrow> [] | Some n \<Rightarrow> if n > 0 then [new_finding a b n] else []))
       (map (\<lambda>e. (c, Inl e)) es)) = []"
    by (induction es) simp_all
  then show "findings_in a new = (case x of Inl _ \<Rightarrow> [] | Inr b \<Rightarrow>
      (case bal_atomic b of None \<Rightarrow> [] | Some k \<Rightarrow> if k > 0 then [new_finding a b k] else []))"
    by (auto simp: findings_in_def es split: sum.split)
qed

lemma faithful_other_fields [simp]:
  "faithful s a cs log (r\<lparr>ar_pause := p\<rparr>) = faithful s a cs log r"
  "faithful s a cs log (add_alert c pe n r) = faithful s a cs log r"
  by (simp_all add: faithful_def add_alert_def)

lemma faithful_step:
  assumes r: "faithful s a ds log r" and c: "c \<notin> set ds"
    and new: "attempts_log c (max_attempts s) x new"
  shows "case x of
      Inl _ \<Rightarrow> faithful s a (ds @ [c]) (log @ new) (add_error c code prov msg r)
    | Inr b \<Rightarrow> (\<forall>n. bal_atomic b = Some n \<longrightarrow> faithful s a (ds @ [c]) (log @ new)
        (if n > 0 then r\<lparr>ar_findings := ar_findings r @ [new_finding a b n]\<rparr> else r))"
proof -
  note p = attempts_log_props [OF new]
  have logged: "fst ` set log \<subseteq> set ds" using r by (simp add: faithful_def)
  then have c': "c \<notin> fst ` set log" using c by auto
  have s: "succeeded (log @ new) d = succeeded log d" if "d \<in> set ds" for d
    using that c p(1) succeeded_logged [of new d] by (auto simp: succeeded_append)
  then have old: "filter (\<lambda>d. \<not> succeeded (log @ new) d) ds = filter (\<lambda>d. \<not> succeeded log d) ds"
    by (auto intro: filter_cong)
  have sc: "succeeded (log @ new) c = (case x of Inl _ \<Rightarrow> False | Inr _ \<Rightarrow> True)"
    using p(3) c' succeeded_logged [of log c] by (auto simp: succeeded_append)
  have asked: "asked (log @ new) d \<le> max_attempts s" for d
  proof (cases "d = c")
    case True
    with p(2) [of d] asked_logged [OF c'] show ?thesis by (simp add: asked_append)
  next
    case False
    with p(2) [of d] r show ?thesis by (simp add: asked_append faithful_def)
  qed
  have sub: "fst ` set (log @ new) \<subseteq> set (ds @ [c])" using logged p(1) by auto
  show ?thesis
  proof (cases x)
    case (Inl e)
    with r old sc asked sub p(4) show ?thesis
      by (simp add: faithful_def add_error_def findings_in_append)
  next
    case (Inr b)
    with r old sc asked sub p(4) show ?thesis
      by (auto simp: faithful_def findings_in_append)
  qed
qed

lemma faithful_unconfigured:
  assumes "faithful s a ds log r" and "c \<notin> set ds"
  shows "faithful s a (ds @ [c]) log (add_error c code prov msg r)"
proof -
  have "\<not> succeeded log c" using assms succeeded_logged [of log c] by (auto simp: faithful_def)
  with assms show ?thesis by (auto simp: faithful_def add_error_def)
qed

lemma tells_chains:
  assumes "faithful s a ds log r" and "distinct (ds @ cs)"
  shows "tells (faithful s a (ds @ cs)) (check_chains s a cs r) log"
  using assms
proof (induction cs arbitrary: ds log r)
  case Nil
  then show ?case by simp
next
  case (Cons c cs)
  then have c: "c \<notin> set ds" and d: "distinct ((ds @ [c]) @ cs)" by auto
  have more: "tells (faithful s a (ds @ c # cs)) (check_chains s a cs r') log'"
    if "faithful s a (ds @ [c]) log' r'" for log' r'
    using Cons.IH [OF that d] by simp
  show ?case
  proof (cases "c \<in> set (sn_providers s)")
    case False
    then show ?thesis using more [OF faithful_unconfigured [OF Cons.prems(1) c]] by simp
  next
    case True
    have "tells (faithful s a (ds @ c # cs)) (chain_answer a c r (check_chains s a cs) x) (log @ new)"
      if new: "attempts_log c (max_attempts s) x new" for x new
    proof (cases x)
      case (Inl e)
      have "faithful s a (ds @ [c]) (log @ new) (add_error c code prov msg r)" for code prov msg
        using faithful_step [OF Cons.prems(1) c new, of code prov msg] Inl by simp
      then show ?thesis
        by (auto simp: Inl chain_answer_def Let_def intro!: more)
    next
      case (Inr b)
      with new obtain n where n: "bal_atomic b = Some n" by (auto simp: attempts_log_def)
      have "faithful s a (ds @ [c]) (log @ new)
          (if n > 0 then r\<lparr>ar_findings := ar_findings r @ [new_finding a b n]\<rparr> else r)"
        using faithful_step [OF Cons.prems(1) c new] Inr n by simp
      from more [OF this] show ?thesis by (simp add: Inr chain_answer_def n)
    qed
    then have "tells (faithful s a (ds @ c # cs))
        (checkWithRetry s c (ad_address a) (chain_answer a c r (check_chains s a cs))) log"
      unfolding checkWithRetry_def by (rule tells_attempts)
    with True show ?thesis by simp
  qed
qed

lemma chainsFor_distinct: "distinct (chainsFor t)"
  by (simp add: chainsFor_def)

lemma length_chainsFor: "length (chainsFor t) \<le> 3"
  by (simp add: chainsFor_def)

lemma tells_checkAddress:
  "tells (faithful s a (chainsFor (ad_type a))) (checkAddress s a) []"
proof -
  have "faithful s a [] [] (empty_result a)"
    by (simp add: faithful_def empty_result_def findings_in_def asked_def)
  from tells_chains [OF this, of "chainsFor (ad_type a)"] chainsFor_distinct [of "ad_type a"]
  show ?thesis by (simp add: checkAddress_def)
qed

lemma steps_checkAddress: "steps_within (checkAddress s a) (task_bound s 3)"
  unfolding checkAddress_def
  by (rule steps_within_mono [OF steps_chains]) (rule task_bound_mono [OF length_chainsFor])

text \<open>The four providers answer validly, by their interface.\<close>

lemma providers_valid:
  "valid_answer (EVMCheck ff dec p call)" "valid_answer (BTCCheck ff dec2 call)"
  "valid_answer (SolanaCheck ff dec3 call)" "valid_answer (TRONCheck ff dec4 call)"
  using evm.balance_known btc.balance_known sol.balance_known tron.balance_known
  by (force simp: valid_answer_def split: sum.split)+

end
