(* ===== verification/Slots.thy ===== *)
theory Slots
  imports Prelude "HOL-Library.Multiset"
begin

text \<open>
  The interface of a pool of request slots keyed by chain, as its clients use it: try to take
  a slot, give one back, and let other operations run in between. Two parts of the code
  provide it, the adaptive limiter of the API and the semaphores of the scanner, and both are
  shown to meet it in their own theories.

  The pool is shared by goroutines, and each operation is atomic (a mutex, a channel
  operation), so an execution is a sequence of operations in any order. \<open>slot_run\<close> runs one
  and keeps, beside the pool, the multiset of chains whose slot is out. A client gives back
  only a slot it took: a run that frees a slot nobody holds is no run (\<open>None\<close>).
\<close>

datatype ('x, 'y, 'z) slot_event = Try 'x string | Free 'y string | Other 'z

fun slot_step ::
  "('x \<Rightarrow> string \<Rightarrow> 's \<Rightarrow> bool \<times> 's) \<Rightarrow> ('y \<Rightarrow> string \<Rightarrow> 's \<Rightarrow> 's) \<Rightarrow> ('z \<Rightarrow> 's \<Rightarrow> 's) \<Rightarrow>
   ('x, 'y, 'z) slot_event \<Rightarrow> 's \<times> string multiset \<Rightarrow> ('s \<times> string multiset) option" where
  "slot_step try free oth (Try x c) (s, h) =
     (case try x c s of (ok, t) \<Rightarrow> Some (t, if ok then add_mset c h else h))"
| "slot_step try free oth (Free y c) (s, h) =
     (if c \<in># h then Some (free y c s, h - {#c#}) else None)"
| "slot_step try free oth (Other z) (s, h) = Some (oth z s, h)"

fun slot_run ::
  "('x \<Rightarrow> string \<Rightarrow> 's \<Rightarrow> bool \<times> 's) \<Rightarrow> ('y \<Rightarrow> string \<Rightarrow> 's \<Rightarrow> 's) \<Rightarrow> ('z \<Rightarrow> 's \<Rightarrow> 's) \<Rightarrow>
   ('x, 'y, 'z) slot_event list \<Rightarrow> 's \<times> string multiset \<Rightarrow> ('s \<times> string multiset) option" where
  "slot_run try free oth [] p = Some p"
| "slot_run try free oth (e # es) p =
     (case slot_step try free oth e p of None \<Rightarrow> None | Some q \<Rightarrow> slot_run try free oth es q)"

locale slot_pool =
  fixes try_slot :: "'x \<Rightarrow> string \<Rightarrow> 's \<Rightarrow> bool \<times> 's"
    and free_slot :: "'y \<Rightarrow> string \<Rightarrow> 's \<Rightarrow> 's"
    and other :: "'z \<Rightarrow> 's \<Rightarrow> 's"
    and holds :: "'s \<Rightarrow> string multiset \<Rightarrow> bool"
    and within :: "'s \<Rightarrow> string multiset \<Rightarrow> bool"
  assumes try_granted: "holds s h \<Longrightarrow> try_slot x c s = (True, t) \<Longrightarrow> holds t (add_mset c h)"
    and try_denied: "holds s h \<Longrightarrow> try_slot x c s = (False, t) \<Longrightarrow> holds t h"
    and free_held: "holds s h \<Longrightarrow> c \<in># h \<Longrightarrow> holds (free_slot y c s) (h - {#c#})"
    and other_keeps: "holds s h \<Longrightarrow> holds (other z s) h"
    and holds_within: "holds s h \<Longrightarrow> within s h"
begin

lemma step_holds:
  assumes "holds s h" and "slot_step try_slot free_slot other e (s, h) = Some (t, k)"
  shows "holds t k"
proof (cases e)
  case (Try x c)
  then show ?thesis
    using assms try_granted try_denied by (auto split: prod.splits if_splits)
next
  case (Free y c)
  then show ?thesis using assms free_held by (auto split: if_splits)
next
  case (Other z)
  then show ?thesis using assms other_keeps by auto
qed

lemma run_holds:
  assumes "holds s h" and "slot_run try_slot free_slot other es (s, h) = Some (t, k)"
  shows "holds t k"
  using assms
proof (induction es arbitrary: s h)
  case Nil
  then show ?case by simp
next
  case (Cons e es)
  then obtain u j where "slot_step try_slot free_slot other e (s, h) = Some (u, j)"
    and "slot_run try_slot free_slot other es (u, j) = Some (t, k)"
    by (auto split: option.splits)
  with Cons.IH step_holds [OF Cons.prems(1)] show ?case by blast
qed

lemma run_within:
  "holds s h \<Longrightarrow> slot_run try_slot free_slot other es (s, h) = Some (t, k) \<Longrightarrow> within t k"
  using run_holds holds_within by blast

end

text \<open>A pool that never starves an idle system: with no slot out, a try succeeds.\<close>

locale live_slot_pool = slot_pool +
  assumes idle_grants: "holds s {#} \<Longrightarrow> fst (try_slot x c s)"
begin

lemma drained_grants:
  assumes "holds s h" and "slot_run try_slot free_slot other es (s, h) = Some (t, {#})"
  shows "fst (try_slot x c t)"
  using run_holds [OF assms] idle_grants by blast

end

end
