(* ===== verification/Pool.thy ===== *)
theory Pool
  imports Tasks Slots
begin

text \<open>
  \<^verbatim>\<open>processBatch\<close> of \<^verbatim>\<open>internal/scanner/scanner.go\<close>: the worker pool of one batch. The
  goroutines interleave at their interactions, so the pool is a machine that makes one
  interaction per step; a \<open>choice\<close> names the goroutine that moves and the answer it gets.
  Everything the scheduler, the network and the clock decide is in the list of choices.
\<close>

section \<open>Semaphores\<close>

text \<open>A buffered channel per chain: the number of values in it, and its capacity.\<close>

type_synonym sems = "string \<Rightarrow> nat"

definition sem_size :: "(string \<rightharpoonup> nat) \<Rightarrow> string \<Rightarrow> nat" where
  "sem_size limits c = (case limits c of None \<Rightarrow> 1 | Some k \<Rightarrow> if k < 1 then 1 else k)"

definition sem_try :: "(string \<rightharpoonup> nat) \<Rightarrow> unit \<Rightarrow> string \<Rightarrow> sems \<Rightarrow> bool \<times> sems" where
  "sem_try limits u c f = (if f c < sem_size limits c then (True, f(c := f c + 1)) else (False, f))"

definition sem_free :: "unit \<Rightarrow> string \<Rightarrow> sems \<Rightarrow> sems" where
  "sem_free u c f = f(c := f c - 1)"

definition sem_other :: "unit \<Rightarrow> sems \<Rightarrow> sems" where
  "sem_other u f = f"

definition sem_holds :: "(string \<rightharpoonup> nat) \<Rightarrow> sems \<Rightarrow> string multiset \<Rightarrow> bool" where
  "sem_holds limits f h \<longleftrightarrow> (\<forall>c. f c = count h c \<and> count h c \<le> sem_size limits c)"

definition sem_within :: "(string \<rightharpoonup> nat) \<Rightarrow> sems \<Rightarrow> string multiset \<Rightarrow> bool" where
  "sem_within limits f h \<longleftrightarrow> (\<forall>c. count h c \<le> sem_size limits c)"

lemma sem_size_pos: "1 \<le> sem_size limits c"
  by (auto simp: sem_size_def split: option.split)

interpretation sem: live_slot_pool "sem_try limits" sem_free sem_other "sem_holds limits"
  "sem_within limits" for limits
proof
  fix s h c t and x :: unit
  assume "sem_holds limits s h" and "sem_try limits x c s = (True, t)"
  then show "sem_holds limits t (add_mset c h)"
    by (auto simp: sem_holds_def sem_try_def split: if_splits)
next
  fix s h c t and x :: unit
  assume "sem_holds limits s h" and "sem_try limits x c s = (False, t)"
  then show "sem_holds limits t h"
    by (auto simp: sem_holds_def sem_try_def split: if_splits)
next
  fix s h c and y :: unit
  assume "sem_holds limits s h" and "c \<in># h"
  then show "sem_holds limits (sem_free y c s) (h - {#c#})"
    by (auto simp: sem_holds_def sem_free_def intro: le_trans [OF diff_le_self])
next
  fix s h and z :: unit
  assume "sem_holds limits s h"
  then show "sem_holds limits (sem_other z s) h" by (simp add: sem_other_def)
next
  fix s h
  assume "sem_holds limits s h"
  then show "sem_within limits s h" by (simp add: sem_holds_def sem_within_def)
next
  fix s c and x :: unit
  assume "sem_holds limits s {#}"
  moreover have "0 < sem_size limits c" using sem_size_pos [of limits c] by simp
  ultimately show "fst (sem_try limits x c s)"
    by (simp add: sem_holds_def sem_try_def)
qed

section \<open>The machine\<close>

text \<open>
  A worker is idle or runs the task of an address. The results channel is buffered for the
  whole batch, so sending never blocks and the list of results is the order of arrival.
  \<open>pl_log\<close> is a history variable: the provider answers, which the code does not keep.
\<close>

type_synonym worker = "(address \<times> address_result task) option"

record pool =
  pl_jobs :: "address list"
  pl_workers :: "worker list"
  pl_results :: "address_result list"
  pl_sems :: sems
  pl_tracker :: health
  pl_cancelled :: bool
  pl_log :: "(address \<times> string \<times> (go_error + balance)) list"

datatype answer = A_go | A_flag bool | A_reply "go_error + balance"

datatype choice = Cancel | Take nat | Act nat answer

fun tracker_step :: "health_call \<Rightarrow> health \<Rightarrow> (bool \<times> int) \<times> health" where
  "tracker_step (H_alert c) h = TakeAlert c h"
| "tracker_step e h = (case health_step e h of (b, h') \<Rightarrow> ((b, 0), h'))"

fun task_step ::
  "scanner \<Rightarrow> address \<Rightarrow> address_result task \<Rightarrow> answer \<Rightarrow> pool \<Rightarrow> (worker \<times> pool) option" where
  "task_step s a (Done r) A_go p = Some (None, p\<lparr>pl_results := pl_results p @ [r]\<rparr>)"
| "task_step s a (Lock c k) (A_flag b) p =
     (if b then
        (case sem_try (sn_limits s) () c (pl_sems p) of
           (True, f) \<Rightarrow> Some (Some (a, k True), p\<lparr>pl_sems := f\<rparr>)
         | (False, f) \<Rightarrow> None)
      else if pl_cancelled p then Some (Some (a, k False), p) else None)"
| "task_step s a (Unlock c t) A_go p =
     (if pl_sems p c = 0 then None
      else Some (Some (a, t), p\<lparr>pl_sems := sem_free () c (pl_sems p)\<rparr>))"
| "task_step s a (Query c addr k) (A_reply x) p =
     Some (Some (a, k x), p\<lparr>pl_log := pl_log p @ [(a, c, x)]\<rparr>)"
| "task_step s a (Tracker e k) A_go p =
     (case tracker_step e (pl_tracker p) of
        (out, h) \<Rightarrow> Some (Some (a, k out), p\<lparr>pl_tracker := h\<rparr>))"
| "task_step s a (Sleep d k) (A_flag b) p =
     (if b \<or> pl_cancelled p then Some (Some (a, k b), p) else None)"
| "task_step s a t ans p = None"

text \<open>What the step of a task says, by the interaction the task is at.\<close>

fun_cases task_DoneE: "task_step s a (Done r) ans p = Some (w, q)"
  and task_LockE: "task_step s a (Lock c k) ans p = Some (w, q)"
  and task_UnlockE: "task_step s a (Unlock c t) ans p = Some (w, q)"
  and task_QueryE: "task_step s a (Query c addr k) ans p = Some (w, q)"
  and task_TrackerE: "task_step s a (Tracker e k) ans p = Some (w, q)"
  and task_SleepE: "task_step s a (Sleep d k) ans p = Some (w, q)"
  and task_CrashE: "task_step s a Crash ans p = Some (w, q)"

fun pool_step :: "scanner \<Rightarrow> choice \<Rightarrow> pool \<Rightarrow> pool option" where
  "pool_step s Cancel p = (if pl_cancelled p then None else Some (p\<lparr>pl_cancelled := True\<rparr>))"
| "pool_step s (Take i) p =
     (if i < length (pl_workers p) \<and> pl_workers p ! i = None then
        (case pl_jobs p of
           [] \<Rightarrow> None
         | a # as \<Rightarrow>
             Some (p\<lparr>pl_jobs := as, pl_workers := (pl_workers p)[i := Some (a, checkAddress s a)]\<rparr>))
      else None)"
| "pool_step s (Act i ans) p =
     (if i < length (pl_workers p) then
        (case pl_workers p ! i of
           None \<Rightarrow> None
         | Some (a, t) \<Rightarrow>
             (case task_step s a t ans p of
                None \<Rightarrow> None
              | Some (w, p') \<Rightarrow> Some (p'\<lparr>pl_workers := (pl_workers p)[i := w]\<rparr>)))
      else None)"

fun pool_run :: "scanner \<Rightarrow> choice list \<Rightarrow> pool \<Rightarrow> pool option" where
  "pool_run s [] p = Some p"
| "pool_run s (ch # chs) p =
     (case pool_step s ch p of None \<Rightarrow> None | Some p' \<Rightarrow> pool_run s chs p')"

definition start_pool :: "scanner \<Rightarrow> health \<Rightarrow> bool \<Rightarrow> address list \<Rightarrow> pool" where
  "start_pool s h cancelled as =
     (let workers = sc_workers (sn_config s);
          workers = (if workers > int (length as) then int (length as) else workers)
      in \<lparr>pl_jobs = as, pl_workers = replicate (nat workers) None, pl_results = [],
          pl_sems = (\<lambda>_. 0), pl_tracker = h, pl_cancelled = cancelled, pl_log = []\<rparr>)"

text \<open>The channel of results is closed when the jobs are handed out and the workers are done.\<close>

definition finished :: "pool \<Rightarrow> bool" where
  "finished p \<longleftrightarrow> pl_jobs p = [] \<and> list_all (\<lambda>w. w = None) (pl_workers p)"

definition processBatch ::
  "scanner \<Rightarrow> choice list \<Rightarrow> health \<Rightarrow> bool \<Rightarrow> address list \<Rightarrow> (address_result list \<times> health) option" where
  "processBatch s chs h cancelled as =
     (case pool_run s chs (start_pool s h cancelled as) of
        None \<Rightarrow> None
      | Some p \<Rightarrow> if finished p then Some (pl_results p, pl_tracker p) else None)"

section \<open>Sums over the workers\<close>

definition msum :: "('x \<Rightarrow> 'a multiset) \<Rightarrow> 'x list \<Rightarrow> 'a multiset" where
  "msum f xs = sum_list (map f xs)"

lemma msum_simps [simp]: "msum f [] = {#}" "msum f (x # xs) = f x + msum f xs"
  by (simp_all add: msum_def)

lemma msum_update: "i < length xs \<Longrightarrow> msum f (xs[i := x]) + f (xs ! i) = msum f xs + f x"
  by (induction xs arbitrary: i) (auto split: nat.split simp: ac_simps)

lemma msum_nth: "i < length xs \<Longrightarrow> f (xs ! i) \<subseteq># msum f xs"
proof (induction xs arbitrary: i)
  case (Cons x xs)
  then show ?case by (cases i) (auto intro: subset_mset.add_increasing)
qed simp

lemma msum_two:
  "i < length xs \<Longrightarrow> j < length xs \<Longrightarrow> i \<noteq> j \<Longrightarrow> f (xs ! i) + f (xs ! j) \<subseteq># msum f xs"
proof (induction xs arbitrary: i j)
  case (Cons x xs)
  show ?case
  proof (cases i)
    case 0
    with Cons.prems obtain j' where "j = Suc j'" "j' < length xs" by (cases j) auto
    with 0 msum_nth [of j' xs f] show ?thesis by simp
  next
    case i: (Suc i')
    show ?thesis
    proof (cases j)
      case 0
      with i Cons.prems msum_nth [of i' xs f] show ?thesis by (simp add: add.commute)
    next
      case (Suc j')
      with i Cons have "f (xs ! i') + f (xs ! j') \<subseteq># msum f xs" by simp
      with i Suc show ?thesis by (simp add: subset_mset.add_increasing)
    qed
  qed
qed simp

section \<open>The invariant of the pool\<close>

definition held :: "string option list \<Rightarrow> string multiset" where
  "held hs = msum (\<lambda>h. case h of None \<Rightarrow> {#} | Some c \<Rightarrow> {#c#}) hs"

definition busy :: "worker list \<Rightarrow> address multiset" where
  "busy ws = msum (\<lambda>w. case w of None \<Rightarrow> {#} | Some (a, t) \<Rightarrow> {#a#}) ws"

definition log_of :: "pool \<Rightarrow> address \<Rightarrow> query_log" where
  "log_of p a = map snd (filter (\<lambda>(b, x). b = a) (pl_log p))"

definition result_ok :: "scanner \<Rightarrow> pool \<Rightarrow> address_result \<Rightarrow> bool" where
  "result_ok s p r \<longleftrightarrow>
     faithful s (ar_address r) (chainsFor (ad_type (ar_address r))) (log_of p (ar_address r)) r"

definition worker_ok :: "scanner \<Rightarrow> pool \<Rightarrow> string option \<Rightarrow> worker \<Rightarrow> bool" where
  "worker_ok s p h w \<longleftrightarrow>
     (case w of
        None \<Rightarrow> h = None
      | Some (a, t) \<Rightarrow> paired s h t \<and> tells (faithful s a (chainsFor (ad_type a))) t (log_of p a))"

text \<open>\<open>hs\<close> gives, for every worker, the slot it holds.\<close>

definition pool_inv :: "scanner \<Rightarrow> address list \<Rightarrow> string option list \<Rightarrow> pool \<Rightarrow> bool" where
  "pool_inv s as hs p \<longleftrightarrow>
     length hs = length (pl_workers p) \<and>
     (\<forall>i < length hs. worker_ok s p (hs ! i) (pl_workers p ! i)) \<and>
     sem_holds (sn_limits s) (pl_sems p) (held hs) \<and>
     mset (pl_jobs p) + busy (pl_workers p) + mset (map ar_address (pl_results p)) = mset as \<and>
     (\<forall>r \<in> set (pl_results p). result_ok s p r) \<and> (\<forall>a \<in> set (pl_jobs p). log_of p a = [])"

definition valid_choice :: "choice \<Rightarrow> bool" where
  "valid_choice ch \<longleftrightarrow> (case ch of Act i (A_reply x) \<Rightarrow> valid_answer x | _ \<Rightarrow> True)"

text \<open>In a batch without repetitions an address is in one place only.\<close>

lemma one_place:
  assumes inv: "pool_inv s as hs p" and dist: "distinct as"
    and i: "i < length (pl_workers p)" "pl_workers p ! i = Some (a, t)"
  shows "a \<notin> set (pl_jobs p)" and "r \<in> set (pl_results p) \<Longrightarrow> ar_address r \<noteq> a"
    and "j < length (pl_workers p) \<Longrightarrow> j \<noteq> i \<Longrightarrow> pl_workers p ! j = Some (b, u) \<Longrightarrow> b \<noteq> a"
proof -
  let ?f = "\<lambda>w :: worker. case w of None \<Rightarrow> {#} | Some (a, t) \<Rightarrow> {#a#}"
  have total: "mset (pl_jobs p) + busy (pl_workers p) + mset (map ar_address (pl_results p)) = mset as"
    using inv by (simp add: pool_inv_def)
  have one: "count (mset as) a \<le> 1"
    using dist by (simp add: distinct_count_atmost_1)
  have ai: "{#a#} \<subseteq># busy (pl_workers p)"
    unfolding busy_def using msum_nth [OF i(1), of ?f] i(2) by simp
  then have "1 \<le> count (busy (pl_workers p)) a" by simp
  moreover have "count (mset (pl_jobs p)) a + count (busy (pl_workers p)) a +
      count (mset (map ar_address (pl_results p))) a = count (mset as) a"
    unfolding total [symmetric] by simp
  ultimately have z: "count (mset (pl_jobs p)) a = 0" "count (mset (map ar_address (pl_results p))) a = 0"
      "count (busy (pl_workers p)) a \<le> 1"
    using one by linarith+
  from z(1) show "a \<notin> set (pl_jobs p)" by (metis count_eq_zero_iff set_mset_mset)
  from z(2) have "a \<notin> ar_address ` set (pl_results p)"
    by (metis count_eq_zero_iff set_mset_mset list.set_map)
  then show "r \<in> set (pl_results p) \<Longrightarrow> ar_address r \<noteq> a" by auto
  show "j < length (pl_workers p) \<Longrightarrow> j \<noteq> i \<Longrightarrow> pl_workers p ! j = Some (b, u) \<Longrightarrow> b \<noteq> a"
  proof
    assume j: "j < length (pl_workers p)" "j \<noteq> i" "pl_workers p ! j = Some (b, u)" and "b = a"
    with msum_two [OF i(1) j(1), of ?f] i(2) have "{#a, a#} \<subseteq># busy (pl_workers p)"
      by (simp add: busy_def)
    then have "2 \<le> count (busy (pl_workers p)) a"
      by (metis count_add_mset count_single mset_subset_eq_count numeral_2_eq_2 One_nat_def)
    with z(3) show False by simp
  qed
qed

lemma log_of_other:
  "pl_log p' = pl_log p @ map (Pair a) new \<Longrightarrow> b \<noteq> a \<Longrightarrow> log_of p' b = log_of p b"
  by (induction new arbitrary: p' rule: rev_induct) (auto simp: log_of_def filter_empty_conv)

lemma log_of_self: "pl_log p' = pl_log p @ map (Pair a) new \<Longrightarrow> log_of p' a = log_of p a @ new"
  by (simp add: log_of_def o_def)

text \<open>
  The step of the worker \<open>i\<close> on \<open>a\<close>: its slot becomes \<open>h\<close>, its state \<open>w\<close>, and the log
  grows by answers about \<open>a\<close>.
\<close>

lemma inv_worker_step:
  assumes inv: "pool_inv s as hs p" and dist: "distinct as"
    and i: "i < length (pl_workers p)" "pl_workers p ! i = Some (a, t)"
    and p': "pl_workers p' = (pl_workers p)[i := Some (a, u)]" "pl_jobs p' = pl_jobs p"
      "pl_results p' = pl_results p" "pl_log p' = pl_log p @ map (Pair a) new"
    and sem: "sem_holds (sn_limits s) (pl_sems p') (held (hs[i := h]))"
    and w: "paired s h u" "tells (faithful s a (chainsFor (ad_type a))) u (log_of p a @ new)"
  shows "pool_inv s as (hs[i := h]) p'"
proof -
  let ?f = "\<lambda>w :: worker. case w of None \<Rightarrow> {#} | Some (a, t) \<Rightarrow> {#a#}"
  have len: "length hs = length (pl_workers p)" using inv by (simp add: pool_inv_def)
  note place = one_place [OF inv dist i]
  have old: "log_of p' b = log_of p b" if "b \<noteq> a" for b by (rule log_of_other [OF p'(4) that])
  have "worker_ok s p' (hs[i := h] ! j) (pl_workers p' ! j)" if j: "j < length hs" for j
  proof (cases "j = i")
    case True
    with w j i len show ?thesis
      by (simp add: worker_ok_def p'(1) log_of_self [OF p'(4)])
  next
    case False
    have "worker_ok s p (hs ! j) (pl_workers p ! j)" using inv j by (simp add: pool_inv_def)
    with False place(3) [of j] j len old show ?thesis
      by (auto simp: worker_ok_def p'(1) split: option.splits prod.splits)
  qed
  moreover have "busy (pl_workers p') = busy (pl_workers p)"
    using msum_update [OF i(1), of ?f "Some (a, u)"] i(2) by (simp add: busy_def p'(1))
  moreover have "\<forall>r \<in> set (pl_results p'). result_ok s p' r"
    using inv place(2) old by (simp add: pool_inv_def result_ok_def p'(3))
  moreover have "\<forall>b \<in> set (pl_jobs p'). log_of p' b = []"
    using inv place(1) old by (metis pool_inv_def p'(2))
  ultimately show ?thesis
    using inv sem len by (simp add: pool_inv_def p'(1,2,3))
qed

lemma held_update: "i < length hs \<Longrightarrow>
    held (hs[i := h]) + (case hs ! i of None \<Rightarrow> {#} | Some c \<Rightarrow> {#c#}) =
    held hs + (case h of None \<Rightarrow> {#} | Some c \<Rightarrow> {#c#})"
  unfolding held_def by (rule msum_update)

lemma held_lock: "i < length hs \<Longrightarrow> hs ! i = None \<Longrightarrow> held (hs[i := Some c]) = add_mset c (held hs)"
  using held_update [of i hs "Some c"] by simp

lemma held_unlock: "i < length hs \<Longrightarrow> hs ! i = Some c \<Longrightarrow> held (hs[i := None]) = held hs - {#c#} \<and> c \<in># held hs"
  using held_update [of i hs None] by (auto intro!: diff_union_swap) (metis add_diff_cancel_right' union_single_eq_member add_mset_add_single)+

text \<open>A step that keeps the slots.\<close>

lemma inv_same_slot:
  assumes inv: "pool_inv s as hs p" and dist: "distinct as"
    and i: "i < length (pl_workers p)" "pl_workers p ! i = Some (a, t)"
    and p': "pl_workers p' = (pl_workers p)[i := Some (a, u)]" "pl_jobs p' = pl_jobs p"
      "pl_results p' = pl_results p" "pl_log p' = pl_log p @ map (Pair a) new" "pl_sems p' = pl_sems p"
    and w: "paired s (hs ! i) u" "tells (faithful s a (chainsFor (ad_type a))) u (log_of p a @ new)"
  shows "pool_inv s as hs p'"
proof -
  have "sem_holds (sn_limits s) (pl_sems p') (held (hs[i := hs ! i]))"
    using inv p'(5) by (simp add: pool_inv_def)
  from inv_worker_step [OF inv dist i p'(1-4) this w] show ?thesis by simp
qed

lemma inv_task_done:
  assumes inv: "pool_inv s as hs p" and i: "i < length (pl_workers p)" "pl_workers p ! i = Some (a, t)"
    and hi: "hs ! i = None" and fr: "faithful s a (chainsFor (ad_type a)) (log_of p a) r"
  shows "pool_inv s as hs (p\<lparr>pl_results := pl_results p @ [r], pl_workers := (pl_workers p)[i := None]\<rparr>)"
    (is "pool_inv s as hs ?q")
proof -
  have len: "length hs = length (pl_workers p)" using inv by (simp add: pool_inv_def)
  have log: "log_of ?q b = log_of p b" for b by (simp add: log_of_def)
  have ra: "ar_address r = a" using fr by (simp add: faithful_def)
  have "worker_ok s ?q (hs ! j) (pl_workers ?q ! j)" if j: "j < length hs" for j
  proof (cases "j = i")
    case True
    with hi j len show ?thesis by (simp add: worker_ok_def)
  next
    case False
    have "worker_ok s p (hs ! j) (pl_workers p ! j)" using inv j by (simp add: pool_inv_def)
    with False show ?thesis by (auto simp: worker_ok_def log split: option.splits)
  qed
  moreover have "busy (pl_workers ?q) + {#a#} = busy (pl_workers p)"
    using msum_update [OF i(1), of "\<lambda>w :: worker. case w of None \<Rightarrow> {#} | Some (a, t) \<Rightarrow> {#a#}" None] i(2)
    by (simp add: busy_def)
  then have "mset (pl_jobs ?q) + busy (pl_workers ?q) + mset (map ar_address (pl_results ?q)) = mset as"
    using ra inv by (simp add: pool_inv_def flip: \<open>busy (pl_workers ?q) + {#a#} = busy (pl_workers p)\<close>)
  moreover have "\<forall>x \<in> set (pl_results ?q). result_ok s ?q x"
    using inv fr ra by (auto simp: pool_inv_def result_ok_def log)
  ultimately show ?thesis
    using inv len by (simp add: pool_inv_def log)
qed

lemma inv_task_lock:
  assumes inv: "pool_inv s as hs p" and dist: "distinct as"
    and i: "i < length (pl_workers p)" "pl_workers p ! i = Some (a, Lock c k)"
    and step: "task_step s a (Lock c k) ans p = Some (w, p1)"
  shows "\<exists>hs'. pool_inv s as hs' (p1\<lparr>pl_workers := (pl_workers p)[i := w]\<rparr>)"
proof -
  have il: "i < length hs" using inv i by (simp add: pool_inv_def)
  with inv i have ok: "paired s (hs ! i) (Lock c k)" "tells (faithful s a (chainsFor (ad_type a))) (Lock c k) (log_of p a)"
    by (auto simp: pool_inv_def worker_ok_def split: option.splits prod.splits)
  have sem: "sem_holds (sn_limits s) (pl_sems p) (held hs)" using inv by (simp add: pool_inv_def)
  from step consider
      f where "sem_try (sn_limits s) () c (pl_sems p) = (True, f)" "w = Some (a, k True)" "p1 = p\<lparr>pl_sems := f\<rparr>"
    | "w = Some (a, k False)" "p1 = p"
    by (elim task_LockE) (auto split: if_splits prod.splits bool.splits)
  then show ?thesis
  proof cases
    case 1
    have "sem_holds (sn_limits s) f (held (hs[i := Some c]))"
      using sem.try_granted [OF sem 1(1)] held_lock [OF il] ok(1) by simp
    with 1 ok show ?thesis
      by (intro exI [of _ "hs[i := Some c]"]
          inv_worker_step [OF inv dist i, where new = "[]" and u = "k True" and h = "Some c"]) simp_all
  next
    case 2
    with ok show ?thesis
      by (intro exI [of _ hs] inv_same_slot [OF inv dist i, where new = "[]" and u = "k False"]) simp_all
  qed
qed

lemma inv_task_step:
  assumes inv: "pool_inv s as hs p" and dist: "distinct as"
    and i: "i < length (pl_workers p)" "pl_workers p ! i = Some (a, t)"
    and ans: "valid_choice (Act i ans)" and step: "task_step s a t ans p = Some (w, p1)"
  shows "\<exists>hs'. pool_inv s as hs' (p1\<lparr>pl_workers := (pl_workers p)[i := w]\<rparr>)"
proof -
  have il: "i < length hs" using inv i by (simp add: pool_inv_def)
  with inv i have ok: "paired s (hs ! i) t" "tells (faithful s a (chainsFor (ad_type a))) t (log_of p a)"
    by (auto simp: pool_inv_def worker_ok_def split: option.splits prod.splits)
  note same = inv_same_slot [OF inv dist i]
  show ?thesis
  proof (cases t)
    case (Done r)
    from step [unfolded Done] show ?thesis
      by (rule task_DoneE) (use inv_task_done [OF inv i] ok Done in auto)
  next
    case Crash
    with step show ?thesis by (auto elim: task_CrashE)
  next
    case (Lock c k)
    with inv_task_lock [OF inv dist] i step show ?thesis by blast
  next
    case (Unlock c u)
    from step [unfolded Unlock] have w: "w = Some (a, u)" "p1 = p\<lparr>pl_sems := sem_free () c (pl_sems p)\<rparr>"
      by (auto elim!: task_UnlockE split: if_splits)
    have "sem_holds (sn_limits s) (sem_free () c (pl_sems p)) (held (hs[i := None]))"
      using inv sem.free_held [of "sn_limits s" "pl_sems p" "held hs" c] held_unlock [OF il, of c] ok(1) Unlock
      by (simp add: pool_inv_def)
    with w ok Unlock show ?thesis
      by (intro exI [of _ "hs[i := None]"]
          inv_worker_step [OF inv dist i, where new = "[]" and u = u and h = None]) simp_all
  next
    case (Query c addr k)
    from step [unfolded Query] show ?thesis
    proof (rule task_QueryE)
      fix x
      assume "ans = A_reply x" "w = Some (a, k x)" "p1 = p\<lparr>pl_log := pl_log p @ [(a, c, x)]\<rparr>"
      with ans ok Query show ?thesis
        by (intro exI [of _ hs] same [where new = "[(c, x)]" and u = "k x"]) (simp_all add: valid_choice_def)
    qed
  next
    case (Tracker e k)
    from step [unfolded Tracker] obtain x y h where "w = Some (a, k (x, y))" "p1 = p\<lparr>pl_tracker := h\<rparr>"
      by (auto elim!: task_TrackerE split: prod.splits)
    with ok Tracker show ?thesis by (intro exI [of _ hs] same [where new = "[]" and u = "k (x, y)"]) simp_all
  next
    case (Sleep d k)
    from step [unfolded Sleep] obtain b where "w = Some (a, k b)" "p1 = p"
      by (auto elim!: task_SleepE split: if_splits)
    with ok Sleep show ?thesis by (intro exI [of _ hs] same [where new = "[]" and u = "k b"]) auto
  qed
qed

lemma worker_ok_cong: "log_of q = log_of p \<Longrightarrow> worker_ok s q = worker_ok s p"
  by (intro ext) (simp add: worker_ok_def split: option.split)

lemma pool_inv_cancelled [simp]: "pool_inv s as hs (p\<lparr>pl_cancelled := b\<rparr>) = pool_inv s as hs p"
proof -
  let ?q = "p\<lparr>pl_cancelled := b\<rparr>"
  have log: "log_of ?q = log_of p" by (rule ext) (simp add: log_of_def)
  show ?thesis by (simp add: pool_inv_def worker_ok_cong [OF log] result_ok_def log)
qed

lemma inv_take:
  assumes inv: "pool_inv s as hs p" and i: "i < length (pl_workers p)" "pl_workers p ! i = None"
    and jobs: "pl_jobs p = a # js"
  shows "pool_inv s as hs
    (p\<lparr>pl_jobs := js, pl_workers := (pl_workers p)[i := Some (a, checkAddress s a)]\<rparr>)" (is "pool_inv s as hs ?q")
proof -
  have len: "length hs = length (pl_workers p)" using inv by (simp add: pool_inv_def)
  have log: "log_of ?q b = log_of p b" for b by (simp add: log_of_def)
  have fresh: "log_of p a = []" using inv jobs by (simp add: pool_inv_def)
  have hi: "hs ! i = None" using inv i len by (force simp: pool_inv_def worker_ok_def)
  have "worker_ok s ?q (hs ! j) (pl_workers ?q ! j)" if j: "j < length hs" for j
  proof (cases "j = i")
    case True
    with hi i j len fresh show ?thesis
      by (simp add: worker_ok_def log paired_checkAddress tells_checkAddress)
  next
    case False
    have "worker_ok s p (hs ! j) (pl_workers p ! j)" using inv j by (simp add: pool_inv_def)
    with False show ?thesis by (auto simp: worker_ok_def log split: option.splits)
  qed
  moreover have "busy (pl_workers ?q) = busy (pl_workers p) + {#a#}"
    using msum_update [OF i(1), of "\<lambda>w :: worker. case w of None \<Rightarrow> {#} | Some (a, t) \<Rightarrow> {#a#}"
        "Some (a, checkAddress s a)"] i(2)
    by (simp add: busy_def)
  ultimately show ?thesis
    using inv jobs len by (simp add: pool_inv_def result_ok_def log ac_simps)
qed

lemma inv_pool_step:
  assumes "pool_inv s as hs p" and "distinct as" and "valid_choice ch" and "pool_step s ch p = Some q"
  shows "\<exists>hs'. pool_inv s as hs' q"
proof (cases ch)
  case Cancel
  with assms show ?thesis by (intro exI [of _ hs]) (auto split: if_splits)
next
  case (Take i)
  with assms(4) obtain a js where "i < length (pl_workers p)" "pl_workers p ! i = None" "pl_jobs p = a # js"
    and "q = p\<lparr>pl_jobs := js, pl_workers := (pl_workers p)[i := Some (a, checkAddress s a)]\<rparr>"
    by (auto split: if_splits list.splits)
  with inv_take [OF assms(1)] show ?thesis by blast
next
  case (Act i ans)
  with assms(4) obtain a t w p1 where "i < length (pl_workers p)" "pl_workers p ! i = Some (a, t)"
    and "task_step s a t ans p = Some (w, p1)" and "q = p1\<lparr>pl_workers := (pl_workers p)[i := w]\<rparr>"
    by (auto split: if_splits option.splits prod.splits)
  with inv_task_step [OF assms(1,2)] assms(3) Act show ?thesis by blast
qed

lemma inv_pool_run:
  "pool_inv s as hs p \<Longrightarrow> distinct as \<Longrightarrow> list_all valid_choice chs \<Longrightarrow> pool_run s chs p = Some q \<Longrightarrow>
    \<exists>hs'. pool_inv s as hs' q"
proof (induction chs arbitrary: hs p)
  case Nil
  then show ?case by auto
next
  case (Cons ch chs)
  then obtain p1 where "pool_step s ch p = Some p1" and rest: "pool_run s chs p1 = Some q"
    by (auto split: option.splits)
  with Cons.prems inv_pool_step obtain hs1 where "pool_inv s as hs1 p1" by fastforce
  with Cons.IH rest Cons.prems show ?case by simp
qed

lemma msum_replicate: "f x = {#} \<Longrightarrow> msum f (replicate n x) = {#}"
  by (induction n) simp_all

lemma inv_start: "pool_inv s as (replicate (length (pl_workers (start_pool s h b as))) None) (start_pool s h b as)"
  by (simp add: pool_inv_def start_pool_def Let_def worker_ok_def held_def busy_def msum_replicate
      sem_holds_def log_of_def)

lemma inv_reachable:
  assumes "distinct as" and "list_all valid_choice chs" and "pool_run s chs (start_pool s h b as) = Some p"
  obtains hs where "pool_inv s as hs p"
  using inv_pool_run [OF inv_start assms] by blast

text \<open>The queries of a chain under way.\<close>

definition in_flight :: "string \<Rightarrow> worker list \<Rightarrow> nat" where
  "in_flight c ws =
     length (filter (\<lambda>w. case w of Some (a, Query d x k) \<Rightarrow> d = c | _ \<Rightarrow> False) ws)"

section \<open>A concrete batch\<close>

text \<open>
  Two workers, one BTC slot and two attempts: the first address is retried after a rate limit
  while the second is checked, the slot passing between them.
\<close>

definition pool_scanner :: scanner where
  "pool_scanner =
     fst (new_scanner \<lparr>sc_batch = 2, sc_workers = 3, sc_max_retries = 1, sc_base_delay = 500, sc_threshold = 1\<rparr>
       [ChainBTC] [ChainBTC \<mapsto> 1] ''context canceled'')"

definition pool_addresses :: "address list" where
  "pool_addresses =
     [\<lparr>ad_id = 1, ad_type = TypeBTC, ad_address = ''bc1a'', ad_label = []\<rparr>,
      \<lparr>ad_id = 2, ad_type = TypeBTC, ad_address = ''bc1b'', ad_label = []\<rparr>]"

definition pool_balance :: "int \<Rightarrow> balance" where
  "pool_balance n =
     \<lparr>bal_atomic = Some n, bal_symbol = ''BTC'', bal_chain = ChainBTC, bal_provider = ''a''\<rparr>"

definition pool_refused :: go_error where
  "pool_refused = Perr \<lparr>pe_code = ''rate_limited'', pe_provider = ''a'', pe_status = 429,
     pe_retry_after = 0, pe_temporary = True, pe_err = None\<rparr>"

definition pool_prefix :: "choice list" where
  "pool_prefix =
     [Take 0, Take 1, Act 0 (A_flag True), Act 0 (A_reply (Inl pool_refused)), Act 0 A_go,
      Act 1 (A_flag True)]"

definition pool_suffix :: "choice list" where
  "pool_suffix =
     [Act 0 (A_flag True), Act 1 (A_reply (Inr (pool_balance 0))), Act 1 A_go,
      Act 0 (A_flag True), Act 1 A_go, Act 0 (A_reply (Inr (pool_balance 7))), Act 0 A_go,
      Act 0 A_go, Act 1 A_go, Act 0 A_go]"

lemmas pool_sample_defs = pool_scanner_def pool_addresses_def pool_balance_def pool_refused_def
  pool_prefix_def pool_suffix_def


lemma pool_addresses_distinct: "distinct pool_addresses"
  by (simp add: pool_addresses_def)

lemma pool_choices_valid: "list_all valid_choice pool_prefix" "list_all valid_choice (pool_prefix @ pool_suffix)"
  by (simp_all add: pool_prefix_def pool_suffix_def valid_choice_def valid_answer_def pool_balance_def)

lemma pool_prefix_runs:
  "\<exists>p. pool_run pool_scanner pool_prefix (start_pool pool_scanner (NewHealthTracker 1) False pool_addresses) = Some p \<and>
    in_flight ChainBTC (pl_workers p) = 1"
proof -
  have "case pool_run pool_scanner pool_prefix (start_pool pool_scanner (NewHealthTracker 1) False pool_addresses) of
      None \<Rightarrow> False | Some p \<Rightarrow> in_flight ChainBTC (pl_workers p) = 1"
    by code_simp
  then show ?thesis by (auto split: option.splits)
qed

lemma pool_sample_runs:
  "\<exists>p. pool_run pool_scanner (pool_prefix @ pool_suffix)
      (start_pool pool_scanner (NewHealthTracker 1) False pool_addresses) = Some p \<and> finished p"
proof -
  have "case pool_run pool_scanner (pool_prefix @ pool_suffix)
      (start_pool pool_scanner (NewHealthTracker 1) False pool_addresses) of
      None \<Rightarrow> False | Some p \<Rightarrow> finished p"
    by code_simp
  then show ?thesis by (auto split: option.splits)
qed

section \<open>Results and semaphores\<close>

lemma busy_finished: "list_all (\<lambda>w. w = None) ws \<Longrightarrow> busy ws = {#}"
  by (induction ws) (simp_all add: busy_def)

lemma pool_one_each:
  assumes "distinct as" and "list_all valid_choice chs"
    and "pool_run s chs (start_pool s h cancelled as) = Some p" and "finished p"
  shows "mset (map ar_address (pl_results p)) = mset as"
    and "r \<in> set (pl_results p) \<Longrightarrow> result_ok s p r"
proof -
  from inv_reachable [OF assms(1-3)] obtain hs where "pool_inv s as hs p" .
  then show "mset (map ar_address (pl_results p)) = mset as"
    and "r \<in> set (pl_results p) \<Longrightarrow> result_ok s p r"
    using assms(4) busy_finished [of "pl_workers p"] by (simp_all add: pool_inv_def finished_def)
qed

text \<open>A result is \<open>explained\<close> when some answers of the providers account for it.\<close>

definition explained :: "scanner \<Rightarrow> address_result \<Rightarrow> bool" where
  "explained s r \<longleftrightarrow>
     (\<exists>log. faithful s (ar_address r) (chainsFor (ad_type (ar_address r))) log r)"

lemma processBatch_results:
  assumes "distinct as" and "list_all valid_choice chs"
    and "processBatch s chs h cancelled as = Some (rs, h')"
  shows "mset (map ar_address rs) = mset as" and "r \<in> set rs \<Longrightarrow> explained s r"
  using pool_one_each [OF assms(1,2), of s h cancelled] assms(3)
  by (auto simp: processBatch_def explained_def result_ok_def split: option.splits if_splits)

text \<open>
  C8: However the workers interleave, whatever valid answers the providers give and whenever
  the context is cancelled, a batch of different addresses that finishes yields exactly one
  result per address, and every result is faithful to the answers that address got: its
  findings are exactly the positive balances, it has an error for exactly the chains with no
  successful answer, and no chain was queried more than the configured number of attempts.
\<close>

theorem pool_results:
  assumes "distinct as" and "list_all valid_choice chs"
    and "pool_run s chs (start_pool s h cancelled as) = Some p" and "finished p"
  shows "mset (map ar_address (pl_results p)) = mset as \<and>
    (\<forall>r \<in> set (pl_results p).
      faithful s (ar_address r) (chainsFor (ad_type (ar_address r))) (log_of p (ar_address r)) r)"
  using pool_one_each [OF assms] by (simp add: result_ok_def)

theorem pool_results_witness:
  "\<exists>p. pool_run pool_scanner (pool_prefix @ pool_suffix)
      (start_pool pool_scanner (NewHealthTracker 1) False pool_addresses) = Some p \<and>
    mset (map ar_address (pl_results p)) = mset pool_addresses \<and>
    (\<forall>r \<in> set (pl_results p). faithful pool_scanner (ar_address r) (chainsFor (ad_type (ar_address r)))
      (log_of p (ar_address r)) r)"
proof -
  obtain p where p: "pool_run pool_scanner (pool_prefix @ pool_suffix)
      (start_pool pool_scanner (NewHealthTracker 1) False pool_addresses) = Some p" "finished p"
    using pool_sample_runs by blast
  with pool_results [OF pool_addresses_distinct pool_choices_valid(2) p] show ?thesis by blast
qed

lemma in_flight_held:
  assumes "length hs = length ws" and "\<forall>i < length hs. worker_ok s p (hs ! i) (ws ! i)"
    and "sn_limits s c \<noteq> None"
  shows "in_flight c ws \<le> count (held hs) c"
  using assms(1,2)
proof (induction hs ws rule: list_induct2)
  case Nil
  then show ?case by (simp add: in_flight_def)
next
  case (Cons h hs w ws)
  have w: "worker_ok s p h w" using Cons.prems by force
  have "worker_ok s p (hs ! i) (ws ! i)" if "i < length hs" for i
    using Cons.prems [rule_format, of "Suc i"] that by simp
  then have rest: "in_flight c ws \<le> count (held hs) c" using Cons.IH by blast
  have "h = Some c" if "w = Some (a, Query c x k)" for a x k
    using w that assms(3) by (simp add: worker_ok_def)
  then show ?case
    using rest by (auto simp: in_flight_def held_def split: option.splits task.splits)
qed

text \<open>
  C23: At every moment of every interleaving, at most as many queries of a chain are under way
  as its configured concurrency, at least one, whatever the number of workers.
\<close>

theorem pool_concurrency:
  assumes "distinct as" and "list_all valid_choice chs"
    and "pool_run s chs (start_pool s h cancelled as) = Some p" and "sn_limits s c = Some n"
  shows "in_flight c (pl_workers p) \<le> max n 1"
proof -
  from inv_reachable [OF assms(1-3)] obtain hs where inv: "pool_inv s as hs p" .
  then have "in_flight c (pl_workers p) \<le> count (held hs) c"
    using in_flight_held [of hs "pl_workers p" s p c] assms(4) by (simp add: pool_inv_def)
  also have "\<dots> \<le> sem_size (sn_limits s) c"
    using inv sem.holds_within by (fastforce simp: pool_inv_def sem_within_def)
  also have "\<dots> \<le> max n 1" by (simp add: sem_size_def assms(4))
  finally show ?thesis .
qed

theorem pool_concurrency_witness:
  "\<exists>p. pool_run pool_scanner pool_prefix (start_pool pool_scanner (NewHealthTracker 1) False pool_addresses) = Some p \<and>
    in_flight ChainBTC (pl_workers p) = 1 \<and> in_flight ChainBTC (pl_workers p) \<le> max 1 1"
proof -
  obtain p where p: "pool_run pool_scanner pool_prefix
      (start_pool pool_scanner (NewHealthTracker 1) False pool_addresses) = Some p"
    and "in_flight ChainBTC (pl_workers p) = 1"
    using pool_prefix_runs by blast
  moreover have "sn_limits pool_scanner ChainBTC = Some 1"
    by (simp add: pool_scanner_def new_scanner_def)
  ultimately show ?thesis
    using pool_concurrency [OF pool_addresses_distinct pool_choices_valid(1) p] by blast
qed

end
