(* ===== verification/Pool_Progress.thy ===== *)
theory Pool_Progress
  imports Pool
begin

text \<open>
  The worker pool always gets done: a schedule has bounded length, and as long as a job or a
  worker is left some step is possible. Batches are run on concrete schedules at the end.
\<close>

section \<open>The length of a schedule\<close>

definition left_ok :: "worker \<Rightarrow> nat \<Rightarrow> bool" where
  "left_ok w n = (case w of None \<Rightarrow> n = 0 | Some (a, t) \<Rightarrow> steps_within t n)"

lemma left_ok_simps [simp]:
  "left_ok None n = (n = 0)"
  "left_ok (Some (a, t)) n = steps_within t n"
  by (simp_all add: left_ok_def)

definition work_left :: "worker list \<Rightarrow> nat list \<Rightarrow> bool" where
  "work_left ws ns \<longleftrightarrow> list_all2 left_ok ws ns"

definition pool_cost :: "scanner \<Rightarrow> pool \<Rightarrow> nat list \<Rightarrow> nat" where
  "pool_cost s p ns =
     length (pl_jobs p) * (task_bound s 3 + 1) + sum_list ns + (if pl_cancelled p then 0 else 1)"

lemma sum_list_less:
  "i < length ns \<Longrightarrow> m < ns ! i \<Longrightarrow> sum_list (ns[i := m]) < sum_list (ns :: nat list)"
  by (induction ns arbitrary: i) (auto split: nat.split)

lemma sum_list_zero: "i < length ns \<Longrightarrow> ns ! i = 0 \<Longrightarrow> sum_list (ns[i := m]) = sum_list (ns :: nat list) + m"
  by (induction ns arbitrary: i) (auto split: nat.split)

lemma task_step_left:
  assumes "task_step s a t ans p = Some (w, q)" and "steps_within t n"
  shows "0 < n \<and> (case w of None \<Rightarrow> True | Some (b, u) \<Rightarrow> steps_within u (n - 1)) \<and>
    pl_jobs q = pl_jobs p \<and> pl_cancelled q = pl_cancelled p"
  using assms
  by (cases "(s, a, t, ans, p)" rule: task_step.cases)
    (auto split: if_splits prod.splits bool.splits)

lemma pool_step_cost:
  assumes left: "work_left (pl_workers p) ns" and step: "pool_step s ch p = Some q"
  shows "\<exists>ms. work_left (pl_workers q) ms \<and> pool_cost s q ms < pool_cost s p ns"
proof (cases ch)
  case Cancel
  with assms show ?thesis
    by (intro exI [of _ ns]) (auto simp: pool_cost_def split: if_splits)
next
  case (Take i)
  with step obtain a js where i: "i < length (pl_workers p)" "pl_workers p ! i = None" and j: "pl_jobs p = a # js"
    and q: "q = p\<lparr>pl_jobs := js, pl_workers := (pl_workers p)[i := Some (a, checkAddress s a)]\<rparr>"
    by (auto split: if_splits list.splits)
  let ?ms = "ns[i := task_bound s 3]"
  have len: "length ns = length (pl_workers p)" and z: "ns ! i = 0"
    using left i by (auto simp: work_left_def list_all2_conv_all_nth dest!: spec [of _ i])
  have "work_left (pl_workers q) ?ms"
    using left by (simp add: q work_left_def list_all2_update_cong steps_checkAddress)
  moreover have "pool_cost s q ?ms < pool_cost s p ns"
    using sum_list_zero [of i ns "task_bound s 3"] i len z by (simp add: pool_cost_def q j)
  ultimately show ?thesis by blast
next
  case (Act i ans)
  with step obtain a t w p1 where i: "i < length (pl_workers p)" "pl_workers p ! i = Some (a, t)"
    and t: "task_step s a t ans p = Some (w, p1)" and q: "q = p1\<lparr>pl_workers := (pl_workers p)[i := w]\<rparr>"
    by (auto split: if_splits option.splits prod.splits)
  have len: "length ns = length (pl_workers p)" and n: "steps_within t (ns ! i)"
    using left i by (auto simp: work_left_def list_all2_conv_all_nth dest!: spec [of _ i])
  note tl = task_step_left [OF t n]
  let ?m = "case w of None \<Rightarrow> 0 | Some _ \<Rightarrow> ns ! i - 1"
  have "work_left (pl_workers q) (ns[i := ?m])"
    using left tl by (auto simp: q work_left_def intro: list_all2_update_cong split: option.splits)
  moreover have "?m < ns ! i" using tl by (auto split: option.split)
  then have "sum_list (ns[i := ?m]) < sum_list ns" using sum_list_less i(1) len by metis
  then have "pool_cost s q (ns[i := ?m]) < pool_cost s p ns" using tl by (simp add: pool_cost_def q)
  ultimately show ?thesis by blast
qed

lemma pool_run_cost:
  "work_left (pl_workers p) ns \<Longrightarrow> pool_run s chs p = Some q \<Longrightarrow>
    \<exists>ms. work_left (pl_workers q) ms \<and> length chs + pool_cost s q ms \<le> pool_cost s p ns"
proof (induction chs arbitrary: p ns)
  case Nil
  then show ?case by auto
next
  case (Cons ch chs)
  then obtain p1 where s1: "pool_step s ch p = Some p1" and rest: "pool_run s chs p1 = Some q"
    by (auto split: option.splits)
  from pool_step_cost [OF Cons.prems(1) s1] obtain ms
    where "work_left (pl_workers p1) ms" and less: "pool_cost s p1 ms < pool_cost s p ns" by blast
  from Cons.IH [OF this(1) rest] obtain ks
    where "work_left (pl_workers q) ks" "length chs + pool_cost s q ks \<le> pool_cost s p1 ms" by blast
  with less show ?case by (intro exI [of _ ks]) simp
qed

lemma left_start: "work_left (pl_workers (start_pool s h b as)) (replicate (length (pl_workers (start_pool s h b as))) 0)"
  by (simp add: work_left_def start_pool_def Let_def list_all2_conv_all_nth)

definition schedule_bound :: "scanner \<Rightarrow> nat \<Rightarrow> nat" where
  "schedule_bound s n = n * (3 * (4 * max_attempts s + 2) + 2) + 1"

lemma schedule_within:
  assumes "pool_run s chs (start_pool s h b as) = Some p"
  shows "length chs \<le> schedule_bound s (length as)"
proof -
  let ?z = "replicate (length (pl_workers (start_pool s h b as))) (0::nat)"
  from pool_run_cost [OF left_start assms] obtain ms
    where "length chs + pool_cost s p ms \<le> pool_cost s (start_pool s h b as) ?z" by blast
  moreover have "pool_cost s (start_pool s h b as) ?z \<le> schedule_bound s (length as)"
    by (simp add: pool_cost_def start_pool_def Let_def schedule_bound_def task_bound_def sum_list_replicate)
  ultimately show ?thesis by linarith
qed

text \<open>
  A batch of \<open>n\<close> addresses ends: no schedule of the pool, whatever the scheduler, the
  providers and the clock choose, is longer than \<open>n\<close> times twelve interactions per attempt
  and a constant.
\<close>

theorem pool_terminates:
  assumes "pool_run s chs (start_pool s h cancelled as) = Some p"
  shows "length chs \<le> length as * (3 * (4 * max_attempts s + 2) + 2) + 1"
  using schedule_within [OF assms] by (simp add: schedule_bound_def)

theorem pool_terminates_witness:
  "\<exists>p. pool_run pool_scanner pool_prefix (start_pool pool_scanner (NewHealthTracker 1) False pool_addresses) = Some p \<and>
    length pool_prefix \<le> length pool_addresses * (3 * (4 * max_attempts pool_scanner + 2) + 2) + 1"
proof -
  obtain p where p: "pool_run pool_scanner pool_prefix
      (start_pool pool_scanner (NewHealthTracker 1) False pool_addresses) = Some p"
    using pool_prefix_runs by blast
  with pool_terminates [OF p] show ?thesis by blast
qed

section \<open>Progress\<close>

definition waiting :: "worker \<Rightarrow> bool" where
  "waiting w = (case w of Some (a, Lock c k) \<Rightarrow> True | _ \<Rightarrow> False)"

lemma waiting_lock: "waiting w \<Longrightarrow> \<exists>a c k. w = Some (a, Lock c k)"
  by (auto simp: waiting_def split: option.splits) (auto split: task.splits)

lemma can_act:
  assumes inv: "pool_inv s as hs p" and i: "i < length (pl_workers p)" "pl_workers p ! i = Some (a, t)"
    and w: "\<not> waiting (Some (a, t))"
  shows "\<exists>ans. valid_choice (Act i ans) \<and> task_step s a t ans p \<noteq> None"
proof -
  have len: "length hs = length (pl_workers p)" using inv by (simp add: pool_inv_def)
  with inv i have ok: "paired s (hs ! i) t" "tells (faithful s a (chainsFor (ad_type a))) t (log_of p a)"
    by (auto simp: pool_inv_def worker_ok_def split: option.splits prod.splits)
  have go: ?thesis if "task_step s a t A_go p \<noteq> None"
    using that by (intro exI [of _ A_go]) (simp add: valid_choice_def)
  show ?thesis
  proof (cases t)
    case (Unlock c u)
    have "hs ! i = Some c" using ok(1) Unlock by simp
    then have "c \<in># held hs" using held_unlock [of i hs c] i len by simp
    then have "pl_sems p c \<noteq> 0" using inv by (simp add: pool_inv_def sem_holds_def)
    with Unlock show ?thesis by (intro go) simp
  next
    case (Query c x k)
    then show ?thesis
      by (intro exI [of _ "A_reply (Inl (Other_error []))"]) (simp add: valid_choice_def valid_answer_def)
  next
    case (Sleep d k)
    then show ?thesis by (intro exI [of _ "A_flag True"]) (simp add: valid_choice_def)
  qed (use go ok w in \<open>auto simp: waiting_def split: prod.splits\<close>)
qed

lemma held_waiting:
  assumes "length hs = length ws" and "\<forall>i < length hs. worker_ok s p (hs ! i) (ws ! i)"
    and "list_all (\<lambda>w. w = None \<or> waiting w) ws"
  shows "held hs = {#}"
  using assms
proof (induction hs ws rule: list_induct2)
  case Nil
  then show ?case by (simp add: held_def)
next
  case (Cons h hs w ws)
  have w: "worker_ok s p h w" using Cons.prems by force
  have "worker_ok s p (hs ! i) (ws ! i)" if "i < length hs" for i
    using Cons.prems(1) [rule_format, of "Suc i"] that by simp
  then have rest: "held hs = {#}" using Cons by simp
  have "h = None"
    using w Cons.prems(2) by (auto simp: worker_ok_def waiting_def split: option.splits task.splits)
  with rest show ?case by (simp add: held_def)
qed

lemma pool_progress:
  assumes inv: "pool_inv s as hs p" and "pl_workers p \<noteq> []" and "\<not> finished p"
  shows "\<exists>ch q. valid_choice ch \<and> pool_step s ch p = Some q"
proof (cases "\<exists>i < length (pl_workers p). pl_workers p ! i \<noteq> None \<and> \<not> waiting (pl_workers p ! i)")
  case True
  then obtain i a t where i: "i < length (pl_workers p)" "pl_workers p ! i = Some (a, t)"
    "\<not> waiting (Some (a, t))" by auto
  from can_act [OF inv this] obtain ans w q
    where "valid_choice (Act i ans)" "task_step s a t ans p = Some (w, q)" by auto
  with i show ?thesis by (intro exI [of _ "Act i ans"]) simp
next
  case False
  then have all: "list_all (\<lambda>w. w = None \<or> waiting w) (pl_workers p)"
    unfolding list_all_length by blast
  show ?thesis
  proof (cases "\<exists>i < length (pl_workers p). pl_workers p ! i \<noteq> None")
    case True
    with False have "\<exists>i < length (pl_workers p). waiting (pl_workers p ! i)" by blast
    then obtain i a c k where i: "i < length (pl_workers p)" "pl_workers p ! i = Some (a, Lock c k)"
      using waiting_lock by blast
    have "held hs = {#}" using inv all by (intro held_waiting [of hs "pl_workers p" s p]) (simp_all add: pool_inv_def)
    then have "fst (sem_try (sn_limits s) () c (pl_sems p))"
      using inv by (intro sem.idle_grants) (simp add: pool_inv_def)
    then obtain f where "sem_try (sn_limits s) () c (pl_sems p) = (True, f)"
      by (cases "sem_try (sn_limits s) () c (pl_sems p)") simp
    with i show ?thesis
      by (intro exI [of _ "Act i (A_flag True)"]) (simp add: valid_choice_def)
  next
    case idle: False
    then have "pl_jobs p \<noteq> []"
      using \<open>\<not> finished p\<close> by (auto simp: finished_def list_all_length)
    then obtain a js where "pl_jobs p = a # js" by (cases "pl_jobs p") auto
    moreover have "0 < length (pl_workers p)" using assms(2) by simp
    moreover from this have "pl_workers p ! 0 = None" using idle by blast
    ultimately show ?thesis by (intro exI [of _ "Take 0"]) (simp add: valid_choice_def)
  qed
qed

lemma pool_step_workers:
  assumes "pool_step s ch p = Some q"
  shows "length (pl_workers q) = length (pl_workers p)"
proof (cases ch)
  case (Act i ans)
  with assms show ?thesis by (auto split: if_splits option.splits prod.splits)
qed (use assms in \<open>auto split: if_splits list.splits\<close>)

lemma pool_run_append:
  "pool_run s (as @ bs) p = (case pool_run s as p of None \<Rightarrow> None | Some q \<Rightarrow> pool_run s bs q)"
  by (induction as arbitrary: p) (auto split: option.split)

lemma pool_completes:
  assumes "pool_inv s as hs p" and "distinct as" and "pl_workers p \<noteq> []" and "work_left (pl_workers p) ns"
  shows "\<exists>chs q. list_all valid_choice chs \<and> pool_run s chs p = Some q \<and> finished q"
  using assms
proof (induction "pool_cost s p ns" arbitrary: p ns hs rule: less_induct)
  case less
  show ?case
  proof (cases "finished p")
    case True
    then show ?thesis by (intro exI [of _ "[]"]) simp
  next
    case False
    with pool_progress less.prems obtain ch p1
      where ch: "valid_choice ch" "pool_step s ch p = Some p1" by blast
    obtain hs1 where 1: "pool_inv s as hs1 p1" using inv_pool_step [OF less.prems(1,2) ch] by blast
    obtain ms where 2: "work_left (pl_workers p1) ms" "pool_cost s p1 ms < pool_cost s p ns"
      using pool_step_cost [OF less.prems(4) ch(2)] by blast
    have "pl_workers p1 \<noteq> []" using pool_step_workers [OF ch(2)] less.prems(3) by auto
    from less.hyps [OF 2(2) 1 less.prems(2) this 2(1)] obtain chs q
      where "list_all valid_choice chs" "pool_run s chs p1 = Some q" "finished q" by blast
    with ch show ?thesis by (intro exI [of _ "ch # chs"]) simp
  qed
qed

text \<open>
  C22: With at least one worker configured the pool never deadlocks: every schedule of a
  non-empty batch can be continued to one in which all addresses are done.
\<close>

theorem pool_never_stuck:
  assumes "1 \<le> sc_workers (sn_config s)" and "distinct as" and "as \<noteq> []"
    and "list_all valid_choice chs" and "pool_run s chs (start_pool s h cancelled as) = Some p"
  shows "\<exists>more. list_all valid_choice more \<and> processBatch s (chs @ more) h cancelled as \<noteq> None"
proof -
  from inv_reachable [OF assms(2,4,5)] obtain hs where inv: "pool_inv s as hs p" .
  from pool_run_cost [OF left_start assms(5)] obtain ns where ns: "work_left (pl_workers p) ns" by blast
  have "length (pl_workers q) = length (pl_workers p0)" if "pool_run s cs p0 = Some q" for cs p0 q
    using that
    by (induction cs arbitrary: p0) (auto simp: pool_step_workers split: option.splits)
  from this [OF assms(5)] have "pl_workers p \<noteq> []"
    using assms(1,3) by (auto simp: start_pool_def Let_def split: if_splits)
  from pool_completes [OF inv assms(2) this ns] obtain more q
    where "list_all valid_choice more" "pool_run s more p = Some q" "finished q" by blast
  with assms(5) show ?thesis
    by (intro exI [of _ more]) (simp add: processBatch_def pool_run_append)
qed

theorem pool_never_stuck_witness:
  "\<exists>more. list_all valid_choice more \<and>
    processBatch pool_scanner (pool_prefix @ more) (NewHealthTracker 1) False pool_addresses \<noteq> None"
proof -
  obtain p where p: "pool_run pool_scanner pool_prefix
      (start_pool pool_scanner (NewHealthTracker 1) False pool_addresses) = Some p"
    using pool_prefix_runs by blast
  show ?thesis
    by (rule pool_never_stuck [OF _ pool_addresses_distinct _ pool_choices_valid(1) p])
      (simp_all add: pool_sample_defs new_scanner_def)
qed

end
