(* ===== verification/Store_Retries.thy ===== *)
theory Store_Retries
  imports Store_Findings
begin

text \<open>
  \<^verbatim>\<open>internal/db/store.go\<close>, the retry queue of failed address-chain queries, and the status
  counts.
\<close>

record retry_input =
  ri_address_id :: int
  ri_chain :: string
  ri_code :: string
  ri_provider :: string
  ri_message :: string
  ri_next :: int

definition retry_key :: "retry_row \<Rightarrow> int \<times> string" where
  "retry_key r = (rq_address_id r, rq_chain r)"

definition ri_key :: "retry_input \<Rightarrow> int \<times> string" where
  "ri_key x = (ri_address_id x, ri_chain x)"

definition new_retry :: "retry_input \<Rightarrow> int \<Rightarrow> retry_row" where
  "new_retry x i =
     \<lparr>rq_id = i, rq_address_id = ri_address_id x, rq_chain = ri_chain x, rq_code = ri_code x,
      rq_provider = ri_provider x, rq_attempts = 1, rq_next = ri_next x,
      rq_last_error = ri_message x, rq_resolved = None\<rparr>"

definition again_retry :: "retry_input \<Rightarrow> retry_row \<Rightarrow> retry_row" where
  "again_retry x r =
     r\<lparr>rq_code := ri_code x, rq_provider := ri_provider x, rq_attempts := rq_attempts r + 1,
       rq_next := ri_next x, rq_last_error := ri_message x, rq_resolved := None\<rparr>"

definition sql_record_retry :: "retry_input \<Rightarrow> unit sql" where
  "sql_record_retry x now d =
     (let i = next_retry d; d' = d\<lparr>next_retry := i + 1\<rparr>
      in if ri_address_id x \<notin> set (map wa_id (addresses d))
         then (Inl (Pg ''foreign key violated''), d')
         else (Inr (), d'\<lparr>retries := upsert retry_key (again_retry x) (new_retry x i) (retries d)\<rparr>))"

definition RecordRetry :: "env \<Rightarrow> retry_input \<Rightarrow> unit dbp" where
  "RecordRetry E x = exec E (sql_record_retry x)"

definition sql_close_retry :: "int \<Rightarrow> string \<Rightarrow> unit sql" where
  "sql_close_retry addressID chain now d =
     (Inr (), d\<lparr>retries := update_where (\<lambda>r. retry_key r = (addressID, chain))
                 (\<lambda>r. r\<lparr>rq_resolved := Some now\<rparr>) (retries d)\<rparr>)"

definition CloseRetry :: "env \<Rightarrow> int \<Rightarrow> string \<Rightarrow> unit dbp" where
  "CloseRetry E addressID chain = exec E (sql_close_retry addressID chain)"

record retry_item =
  it_id :: int
  it_address_id :: int
  it_type :: string
  it_address :: string
  it_label :: string
  it_chain :: string

definition retry_due :: "int \<Rightarrow> retry_row \<Rightarrow> bool" where
  "retry_due now r \<longleftrightarrow> rq_resolved r = None \<and> rq_next r \<le> now"

definition to_item :: "db \<Rightarrow> retry_row \<Rightarrow> retry_item option" where
  "to_item d r =
     (case row_of wa_id (rq_address_id r) (addresses d) of
        None \<Rightarrow> None
      | Some a \<Rightarrow>
          Some \<lparr>it_id = rq_id r, it_address_id = rq_address_id r, it_type = wa_type a,
                it_address = wa_address a, it_label = wa_label a, it_chain = rq_chain r\<rparr>)"

definition sql_next_retries :: "nat \<Rightarrow> retry_item list sql" where
  "sql_next_retries limit now d =
     (Inr (List.map_filter (to_item d)
        (select_sorted rq_id (\<lambda>r. retry_due now r \<and> to_item d r \<noteq> None) limit (retries d))), d)"

definition NextRetries :: "env \<Rightarrow> nat \<Rightarrow> retry_item list dbp" where
  "NextRetries E limit = fetch E id id (sql_next_retries limit)"

section \<open>Status\<close>

record status =
  st_addresses :: nat
  st_positive :: nat
  st_retries :: nat
  st_active :: "scan_run option"

definition sql_count_addresses :: "nat sql" where
  "sql_count_addresses now d = (Inr (length (addresses d)), d)"

definition sql_count_findings :: "nat sql" where
  "sql_count_findings now d = (Inr (length (findings d)), d)"

definition sql_count_retries :: "nat sql" where
  "sql_count_retries now d = (Inr (length (filter (\<lambda>r. rq_resolved r = None) (retries d))), d)"

definition ReadStatus :: "env \<Rightarrow> status dbp" where
  "ReadStatus E =
     bindE (exec E sql_count_addresses) (\<lambda>a.
     bindE (exec E sql_count_findings) (\<lambda>p.
     bindE (exec E sql_count_retries) (\<lambda>r.
     bindE (ActiveScan E) (\<lambda>active.
     ret \<lparr>st_addresses = a, st_positive = p, st_retries = r, st_active = active\<rparr>))))"

section \<open>The invariant\<close>

lemma again_retry_keeps [simp]:
  "retry_key (again_retry x r) = retry_key r" "rq_id (again_retry x r) = rq_id r"
  "rq_address_id (again_retry x r) = rq_address_id r"
  by (simp_all add: again_retry_def retry_key_def)

lemma new_retry_fields [simp]:
  "retry_key (new_retry x i) = ri_key x" "rq_id (new_retry x i) = i"
  "rq_address_id (new_retry x i) = ri_address_id x"
  by (simp_all add: new_retry_def retry_key_def ri_key_def)

lemma retries_key_map: "map (\<lambda>r. (rq_address_id r, rq_chain r)) rs = map retry_key rs"
  by (simp add: retry_key_def)

lemma db_ok_retries:
  assumes "db_ok d" and "sorted_wrt (<) (map rq_id rs)" and "distinct (map retry_key rs)"
    and "\<forall>r \<in> set rs. rq_id r < n \<and> rq_address_id r \<in> address_ids d"
  shows "db_ok (d\<lparr>next_retry := n, retries := rs\<rparr>)"
  using assms by (simp add: db_ok_def table_ok_defs retries_key_map [symmetric])

lemma good_record_retry [good_rules]: "good (sql_record_retry x now)"
proof (rule goodI)
  fix d
  assume d: "db_ok d"
  then have ok: "sorted_wrt (<) (map rq_id (retries d))" "distinct (map retry_key (retries d))"
      "\<forall>r \<in> set (retries d). rq_id r < next_retry d \<and> rq_address_id r \<in> address_ids d"
    by (simp_all add: db_ok_def retries_ok_def retries_key_map)
  let ?rs = "upsert retry_key (again_retry x) (new_retry x (next_retry d)) (retries d)"
  have lt: "k < n \<Longrightarrow> k < n + 1" for k n :: int by simp
  have "sorted_wrt (<) (map rq_id ?rs)"
    by (rule upsert_sorted) (use ok in auto)
  moreover have "distinct (map retry_key ?rs)"
    by (rule upsert_distinct) (use ok in auto)
  moreover have "\<forall>r \<in> set ?rs. rq_id r < next_retry d + 1 \<and> rq_address_id r \<in> address_ids d"
    if "ri_address_id x \<in> address_ids d"
    using ok that by (auto dest!: set_upsert intro: lt)
  moreover have "db_ok (d\<lparr>next_retry := next_retry d + 1\<rparr>)"
    using db_ok_retries [OF d ok(1,2), of "next_retry d + 1"] ok(3) by (fastforce intro: lt)
  ultimately show "db_ok (snd (sql_record_retry x now d)) \<and> seq_le d (snd (sql_record_retry x now d))"
    using d by (auto simp: sql_record_retry_def Let_def address_ids_def seq_le_def
        intro!: db_ok_retries)
qed

lemma good_close_retry [good_rules]: "good (sql_close_retry a c now)"
proof (rule goodI)
  fix d
  assume d: "db_ok d"
  then have ok: "sorted_wrt (<) (map rq_id (retries d))" "distinct (map retry_key (retries d))"
      "\<forall>r \<in> set (retries d). rq_id r < next_retry d \<and> rq_address_id r \<in> address_ids d"
    by (simp_all add: db_ok_def retries_ok_def retries_key_map)
  let ?rs = "update_where (\<lambda>r. retry_key r = (a, c)) (\<lambda>r. r\<lparr>rq_resolved := Some now\<rparr>) (retries d)"
  have "map retry_key ?rs = map retry_key (retries d)" "map rq_id ?rs = map rq_id (retries d)"
    by (rule update_where_map; simp add: retry_key_def)+
  moreover have "\<forall>r \<in> set ?rs. rq_id r < next_retry d \<and> rq_address_id r \<in> address_ids d"
    using ok(3) by (auto simp: set_update_where)
  ultimately have "db_ok (d\<lparr>next_retry := next_retry d, retries := ?rs\<rparr>)"
    using d ok by (intro db_ok_retries) simp_all
  then show "db_ok (snd (sql_close_retry a c now d)) \<and> seq_le d (snd (sql_close_retry a c now d))"
    by (simp add: sql_close_retry_def seq_le_def)
qed

lemma good_retry_reads [good_rules]:
  "good (sql_next_retries n now)" "good (sql_count_addresses now)" "good (sql_count_findings now)"
  "good (sql_count_retries now)"
  by (simp_all add: good_def sql_next_retries_def sql_count_addresses_def sql_count_findings_def
      sql_count_retries_def)

lemma good_retry_ops [good_rules]:
  "good (RecordRetry E x)" "good (CloseRetry E a c)" "good (NextRetries E n)" "good (ReadStatus E)"
  unfolding RecordRetry_def CloseRetry_def NextRetries_def ReadStatus_def
  by (intro good_rules)+

section \<open>What the queue promises\<close>

definition retry_at :: "db \<Rightarrow> int \<times> string \<Rightarrow> retry_row option" where
  "retry_at d k = row_of retry_key k (retries d)"

definition stored_retry :: "retry_row option \<Rightarrow> retry_input \<Rightarrow> retry_row \<Rightarrow> bool" where
  "stored_retry old x r \<longleftrightarrow>
     rq_resolved r = None \<and> rq_next r = ri_next x \<and> rq_code r = ri_code x \<and>
     rq_provider r = ri_provider x \<and> rq_last_error r = ri_message x \<and>
     rq_attempts r = (case old of None \<Rightarrow> 1 | Some q \<Rightarrow> rq_attempts q + 1)"

lemma retry_at_tick [simp]: "retry_at (d\<lparr>tick := n\<rparr>) k = retry_at d k"
  by (simp add: retry_at_def)

lemma keeps_record_retry: "k \<noteq> ri_key x \<Longrightarrow> keeps (\<lambda>d. retry_at d k = v) (sql_record_retry x now)"
  by (simp add: keeps_def sql_record_retry_def retry_at_def Let_def row_of_upsert)

lemma sql_record_retry_spec:
  assumes "sql_record_retry x now d = (Inr u, d')"
  shows "\<exists>r. retry_at d' (ri_key x) = Some r \<and> stored_retry (retry_at d (ri_key x)) x r"
proof -
  from assms have "retries d' = upsert retry_key (again_retry x) (new_retry x (next_retry d)) (retries d)"
    by (auto simp: sql_record_retry_def Let_def split: if_splits)
  then have "retry_at d' (ri_key x) = Some (case retry_at d (ri_key x) of
      None \<Rightarrow> new_retry x (next_retry d) | Some r \<Rightarrow> again_retry x r)"
    by (simp add: retry_at_def row_of_upsert)
  moreover have "stored_retry None x (new_retry x i)" "stored_retry (Some r) x (again_retry x r)" for i r
    by (simp_all add: stored_retry_def new_retry_def again_retry_def)
  ultimately show ?thesis by (cases "retry_at d (ri_key x)") simp_all
qed

interpretation rtr: upserting "RecordRetry E" retry_at ri_key stored_retry for E
proof
  fix x d d'
  fix a :: unit
  assume "RecordRetry E x d = (Inr a, d')"
  then show "\<exists>r. retry_at d' (ri_key x) = Some r \<and> stored_retry (retry_at d (ri_key x)) x r"
    by (auto simp: RecordRetry_def exec_Inr dest!: sql_record_retry_spec)
next
  fix k x d
  assume k: "k \<noteq> ri_key x"
  have "keeps (\<lambda>d'. retry_at d' k = retry_at d k) (RecordRetry E x)"
    unfolding RecordRetry_def by (intro keeps keeps_record_retry) (use k in auto)
  from keepsD [OF this refl]
  show "retry_at (snd (RecordRetry E x d)) k = retry_at d k" .
qed

lemma CloseRetry_row:
  assumes "CloseRetry E a c d = (Inr u, d')"
  shows "retry_at d' k =
    (if k = (a, c) then map_option (\<lambda>r. r\<lparr>rq_resolved := Some (ev_now E (tick d))\<rparr>) (retry_at d k)
     else retry_at d k)"
proof -
  have d': "retries d' = update_where (\<lambda>r. retry_key r = (a, c))
      (\<lambda>r. r\<lparr>rq_resolved := Some (ev_now E (tick d))\<rparr>) (retries d)"
    using assms by (auto simp: CloseRetry_def exec_Inr sql_close_retry_def)
  have key: "retry_key (r\<lparr>rq_resolved := v\<rparr>) = retry_key r" for r v
    by (simp add: retry_key_def)
  show ?thesis
    using row_of_key [of retry_key k "retries d"]
    by (cases "retry_at d k")
      (auto simp: retry_at_def d' row_of_update_where key)
qed

section \<open>Theorems\<close>

lemma to_item_some:
  assumes "db_ok d" and "r \<in> set (retries d)"
  shows "to_item d r \<noteq> None"
proof -
  have "rq_address_id r \<in> address_ids d"
    using assms by (simp add: db_ok_def retries_ok_def)
  then show ?thesis
    using row_of_None [of wa_id "rq_address_id r" "addresses d"]
    by (auto simp: to_item_def has_key_iff address_ids_def split: option.split)
qed

lemma map_filter_total: "(\<And>x. x \<in> set xs \<Longrightarrow> f x \<noteq> None) \<Longrightarrow> List.map_filter f xs = map (the \<circ> f) xs"
  by (induction xs) (auto simp: List.map_filter_def)

lemma it_id_item: "to_item d r = Some i \<Longrightarrow> it_id i = rq_id r"
  by (auto simp: to_item_def split: option.splits)

lemma NextRetries_items:
  assumes "db_ok d" and "NextRetries E n d = (Inr items, d')"
  shows "tables d' = tables d"
    and "items = map (the \<circ> to_item d) (take n (filter (retry_due (ev_now E (tick d))) (retries d)))"
proof -
  let ?now = "ev_now E (tick d)"
  show "tables d' = tables d"
    using assms(2) by (auto simp: NextRetries_def fetch_Inr exec_Inr sql_next_retries_def)
  have "sorted_wrt (<) (map rq_id (retries d))"
    using assms(1) by (simp add: db_ok_def retries_ok_def)
  moreover have "to_item (d\<lparr>tick := k\<rparr>) = to_item d" for k by (simp add: to_item_def fun_eq_iff)
  ultimately have "items = List.map_filter (to_item d)
      (take n (filter (\<lambda>r. retry_due ?now r \<and> to_item d r \<noteq> None) (retries d)))"
    using assms(2)
    by (auto simp: NextRetries_def fetch_Inr exec_Inr sql_next_retries_def select_sorted_id)
  moreover have "filter (\<lambda>r. retry_due ?now r \<and> to_item d r \<noteq> None) (retries d) =
      filter (retry_due ?now) (retries d)"
    by (rule filter_cong) (use to_item_some [OF assms(1)] in auto)
  ultimately show "items = map (the \<circ> to_item d) (take n (filter (retry_due ?now) (retries d)))"
    using to_item_some [OF assms(1)]
    by (auto intro!: map_filter_total dest: in_set_takeD)
qed

text \<open>
  The retry queue. The queue hands out, in the order of the identifiers, unresolved
  records that are due and only those, with the data of their address, at most as many as
  asked for, and all of them when there are fewer; a recorded failure is there unresolved
  with one attempt more than before and waits until the time given; a closed one is not
  handed out until a failure is recorded again.
\<close>

theorem retry_queue:
  assumes "db_ok d"
  shows "(\<forall>n items d'. NextRetries E n d = (Inr items, d') \<longrightarrow>
      tables d' = tables d \<and>
      map it_id items = map rq_id (take n (filter (retry_due (ev_now E (tick d))) (retries d)))) \<and>
    (\<forall>x d'. RecordRetry E x d = (Inr (), d') \<longrightarrow>
      (\<exists>r. retry_at d' (ri_key x) = Some r \<and> stored_retry (retry_at d (ri_key x)) x r \<and>
         (\<forall>t. retry_due t r \<longleftrightarrow> ri_next x \<le> t))) \<and>
    (\<forall>a c d' t r. CloseRetry E a c d = (Inr (), d') \<and> retry_at d' (a, c) = Some r \<longrightarrow> \<not> retry_due t r)"
proof (intro conjI allI impI)
  fix n items d'
  assume run: "NextRetries E n d = (Inr items, d')"
  show "tables d' = tables d" by (rule NextRetries_items(1) [OF assms run])
  show "map it_id items = map rq_id (take n (filter (retry_due (ev_now E (tick d))) (retries d)))"
    using to_item_some [OF assms] it_id_item
    by (auto simp: NextRetries_items(2) [OF assms run] dest!: in_set_takeD)
next
  fix x d'
  assume "RecordRetry E x d = (Inr (), d')"
  from rtr.put_stored [OF this]
  show "\<exists>r. retry_at d' (ri_key x) = Some r \<and> stored_retry (retry_at d (ri_key x)) x r \<and>
         (\<forall>t. retry_due t r \<longleftrightarrow> ri_next x \<le> t)"
    by (auto simp: stored_retry_def retry_due_def)
next
  fix a c d' t r
  assume "CloseRetry E a c d = (Inr (), d') \<and> retry_at d' (a, c) = Some r"
  then show "\<not> retry_due t r"
    by (auto simp: CloseRetry_row retry_due_def)
qed

definition sample_retry :: retry_input where
  "sample_retry = \<lparr>ri_address_id = 1, ri_chain = ''btc'', ri_code = ''timeout'', ri_provider = ''btc'',
     ri_message = ''slow'', ri_next = 60\<rparr>"

lemma wallet_db_ok: "db_ok wallet_db"
  by (simp add: db_ok_def table_ok_defs empty_db_def wallet_db_def sample_wallet_def
      address_types_def)

theorem retry_queue_witness:
  "\<exists>d' r. RecordRetry sample_env sample_retry wallet_db = (Inr (), d') \<and>
     retry_at d' (1, ''btc'') = Some r \<and> rq_attempts r = 1 \<and> retry_due 60 r \<and> \<not> retry_due 59 r"
proof -
  obtain d' where d': "RecordRetry sample_env sample_retry wallet_db = (Inr (), d')"
    by (simp add: RecordRetry_def exec_def exec_at_def sample_env_def sql_record_retry_def
        sample_retry_def wallet_db_def sample_wallet_def Let_def)
  have "retry_at wallet_db k = None" for k
    by (simp add: retry_at_def wallet_db_def empty_db_def row_of_def)
  with retry_queue [OF wallet_db_ok, of sample_env] d' show ?thesis
    by (fastforce simp: sample_retry_def ri_key_def stored_retry_def)
qed

end
