(* ===== verification/Formatting.thy ===== *)
theory Formatting
  imports Prelude
begin

text \<open>
  The decimal display of atomic balances in \<^verbatim>\<open>internal/notifications/wecom.go\<close>.
\<close>

text \<open>\<^verbatim>\<open>strings.TrimRight(s, "0")\<close>.\<close>

definition trim_zeros :: "string \<Rightarrow> string" where
  "trim_zeros s = rev (dropWhile (\<lambda>c. c = CHR ''0'') (rev s))"

definition padded :: "nat \<Rightarrow> string \<Rightarrow> string" where
  "padded d s = (if length s \<le> d then replicate (d + 1 - length s) CHR ''0'' @ s else s)"

definition formatAtomic :: "string \<Rightarrow> nat \<Rightarrow> string" where
  "formatAtomic raw decimals =
     (case big_set_string 10 raw of
        None \<Rightarrow> raw
      | Some value \<Rightarrow>
          if decimals = 0 then raw
          else
            let digits = padded decimals (show_int value);
                point = length digits - decimals;
                whole = take point digits;
                fraction = trim_zeros (drop point digits)
            in if fraction = [] then whole else whole @ ''.'' @ fraction)"

definition chainUnits :: "string \<Rightarrow> nat \<times> string" where
  "chainUnits chain =
     (if chain = ''btc'' then (8, ''satoshi'')
      else if chain \<in> {''ethereum'', ''arbitrum'', ''bsc''} then (18, ''wei'')
      else if chain = ''solana'' then (9, ''lamport'')
      else if chain = ''tron'' then (6, ''sun'')
      else (0, ''atomic''))"

section \<open>Decimal digits\<close>

text \<open>The last \<open>d\<close> decimal digits of a number.\<close>

primrec fixed_digits :: "nat \<Rightarrow> nat \<Rightarrow> string" where
  "fixed_digits 0 m = []"
| "fixed_digits (Suc d) m = fixed_digits d (m div 10) @ [digit_char (m mod 10)]"

lemma length_fixed_digits [simp]: "length (fixed_digits d m) = d"
  by (induction d arbitrary: m) simp_all

lemma digit_char_0: "digit_char 0 = CHR ''0''"
  by (simp add: digit_char_def char_of_eq_iff take_bit_eq_mod)

lemma fixed_digits_zero: "fixed_digits d 0 = replicate d CHR ''0''"
  by (induction d) (simp_all add: digit_char_0 replicate_append_same)

lemma digits_val_fixed: "m < 10 ^ d \<Longrightarrow> digits_val 10 0 (fixed_digits d m) = Some m"
proof (induction d arbitrary: m)
  case (Suc d)
  then have "m div 10 < 10 ^ d" by auto
  from Suc.IH [OF this] show ?case by (simp add: digits_val_append digit_val_char)
qed simp

lemma padded_split: "padded d (show_base 10 n) = show_base 10 (n div 10 ^ d) @ fixed_digits d (n mod 10 ^ d)"
proof (induction d arbitrary: n)
  case 0
  then show ?case by (simp add: padded_def)
next
  case (Suc d)
  have m: "n mod (10 * 10 ^ d) div 10 = n div 10 mod 10 ^ d" "n mod (10 * 10 ^ d) mod 10 = n mod 10"
    by (simp_all add: mod_mult2_eq)
  show ?case
  proof (cases "n < 10")
    case True
    then have s: "show_base 10 n = [digit_char n]" by (simp add: show_base.simps [of 10 n])
    have z: "show_base 10 0 = ''0''" by (simp add: show_base.simps [of 10 0] digit_char_0)
    have "n < 10 * 10 ^ d" using True by (rule less_le_trans) simp
    then show ?thesis
      using True by (simp add: s z padded_def fixed_digits_zero)
  next
    case False
    then have s: "show_base 10 n = show_base 10 (n div 10) @ [digit_char (n mod 10)]"
      by (simp add: show_base.simps [of 10 n])
    then have "padded (Suc d) (show_base 10 n) = padded d (show_base 10 (n div 10)) @ [digit_char (n mod 10)]"
      by (simp add: padded_def)
    with Suc.IH [of "n div 10"] m show ?thesis by (simp add: div_mult2_eq)
  qed
qed

lemma trim_zeros_append: "trim_zeros s @ replicate (length s - length (trim_zeros s)) CHR ''0'' = s"
proof -
  have "dropWhile (\<lambda>c. c = x) s = drop (length (takeWhile (\<lambda>c. c = x) s)) s" for s :: string and x
    by (simp add: dropWhile_eq_drop)
  have "takeWhile (\<lambda>c. c = x) s = replicate (length (takeWhile (\<lambda>c. c = x) s)) x" for s :: string and x
    by (induction s) auto
  from this [of "CHR ''0''" "rev s"] takeWhile_dropWhile_id [of "\<lambda>c. c = CHR ''0''" "rev s"]
  have "rev s = replicate (length (takeWhile (\<lambda>c. c = CHR ''0'') (rev s))) CHR ''0'' @
      dropWhile (\<lambda>c. c = CHR ''0'') (rev s)" by metis
  then have r: "s = trim_zeros s @ replicate (length (takeWhile (\<lambda>c. c = CHR ''0'') (rev s))) CHR ''0''"
    unfolding trim_zeros_def by (metis rev_append rev_replicate rev_rev_ident)
  then have "length s = length (trim_zeros s) + length (takeWhile (\<lambda>c. c = CHR ''0'') (rev s))"
    by (metis length_append length_replicate)
  with r show ?thesis by simp
qed

lemma trim_zeros_last: "trim_zeros s \<noteq> [] \<Longrightarrow> last (trim_zeros s) \<noteq> CHR ''0''"
  unfolding trim_zeros_def using hd_dropWhile [of "\<lambda>c. c = CHR ''0''" "rev s"]
  by (simp add: last_rev)

lemma digits_val_zeros: "digits_val 10 0 (replicate k CHR ''0'') = Some 0"
  by (induction k) (simp_all add: digit_val_def)

section \<open>Theorems\<close>

text \<open>
  C40: the displayed amount is exact. For a non-negative balance of \<open>n\<close> atomic units of a coin
  with \<open>d\<close> decimals the text is the integer part, in plain decimal without superfluous zeros,
  and, when there is a fraction, a point and its digits without trailing zeros; padded with
  zeros to \<open>d\<close> places they are the fraction in atomic units, so that no digit is lost.
\<close>

theorem formatAtomic_exact:
  assumes "0 < d"
  shows "\<exists>frac. length frac \<le> d \<and>
    digits_val 10 0 (frac @ replicate (d - length frac) CHR ''0'') = Some (n mod 10 ^ d) \<and>
    (frac = [] \<longleftrightarrow> n mod 10 ^ d = 0) \<and> (frac \<noteq> [] \<longrightarrow> last frac \<noteq> CHR ''0'') \<and>
    formatAtomic (show_int (int n)) d =
      show_base 10 (n div 10 ^ d) @ (if frac = [] then [] else ''.'' @ frac)"
proof -
  let ?fix = "fixed_digits d (n mod 10 ^ d)"
  let ?frac = "trim_zeros ?fix"
  have pad: "?frac @ replicate (d - length ?frac) CHR ''0'' = ?fix"
    using trim_zeros_append [of ?fix] by simp
  have val: "digits_val 10 0 ?fix = Some (n mod 10 ^ d)" by (rule digits_val_fixed) simp
  have len: "length ?frac \<le> d"
    by (metis length_append length_fixed_digits le_add1 pad)
  have "?frac = [] \<longleftrightarrow> n mod 10 ^ d = 0"
  proof
    assume "?frac = []"
    with pad have "?fix = replicate d CHR ''0''" by simp
    with val digits_val_zeros show "n mod 10 ^ d = 0" by simp
  next
    assume "n mod 10 ^ d = 0"
    then have "?fix = replicate d CHR ''0''" by (simp add: fixed_digits_zero)
    then show "?frac = []" by (simp add: trim_zeros_def dropWhile_replicate)
  qed
  moreover have "formatAtomic (show_int (int n)) d =
      show_base 10 (n div 10 ^ d) @ (if ?frac = [] then [] else ''.'' @ ?frac)"
  proof -
    have "show_int (int n) = show_base 10 n" by (simp add: show_int_def)
    then have "padded d (show_int (int n)) = show_base 10 (n div 10 ^ d) @ ?fix"
      by (simp add: padded_split)
    moreover have "length (show_base 10 (n div 10 ^ d) @ ?fix) - d = length (show_base 10 (n div 10 ^ d))"
      by simp
    ultimately show ?thesis
      using assms by (simp add: formatAtomic_def big_set_string_show_int Let_def)
  qed
  ultimately show ?thesis using len pad val trim_zeros_last [of ?fix] by metis
qed

theorem formatAtomic_exact_witness:
  "\<exists>frac. formatAtomic (show_int (int 15)) 1 = show_base 10 1 @ ''.'' @ frac \<and> length frac \<le> 1"
proof -
  have "(15 :: nat) mod 10 ^ 1 \<noteq> 0" and d: "(15 :: nat) div 10 ^ 1 = 1" by simp_all
  with formatAtomic_exact [of 1 15] show ?thesis unfolding d by (metis zero_less_one)
qed

end
