(* ===== verification/Outbox.thy ===== *)
theory Outbox
  imports Store_Retries Formatting
begin

text \<open>
  \<^verbatim>\<open>internal/notifications\<close>: the WeCom messages and the outbox that delivers persisted events.
  The webhook is a parameter: \<open>hook\<close> gives, for a message and the moment it is sent, what the
  JSON encoder, the request constructor and the HTTP client answer; \<^verbatim>\<open>Webhook\<close> has the bytes.
\<close>

section \<open>Messages\<close>

text \<open>The UTF-8 texts of the messages.\<close>

definition txt_positive :: string where
  "txt_positive = bytes [229, 143, 145, 231, 142, 176, 229, 142, 159, 231, 148, 159, 229, 184, 129,
     228, 189, 153, 233, 162, 157, 10, 10, 229, 156, 176, 229, 157, 128, 239, 188, 154]"

definition txt_label :: string where
  "txt_label = bytes [10, 230, 160, 135, 231, 173, 190, 239, 188, 154]"

definition txt_balance :: string where
  "txt_balance = bytes [10, 10, 228, 189, 153, 233, 162, 157, 239, 188, 154]"

definition txt_query_time :: string where
  "txt_query_time = bytes [10, 10, 230, 159, 165, 232, 175, 162, 230, 151, 182, 233, 151, 180, 239,
     188, 154]"

definition txt_colon :: string where
  "txt_colon = bytes [239, 188, 154]"

definition txt_smallest_unit :: string where
  "txt_smallest_unit = bytes [239, 188, 136, 230, 156, 128, 229, 176, 143, 229, 141, 149, 228, 189,
     141, 239, 188, 154]"

definition txt_close :: string where
  "txt_close = bytes [239, 188, 137]"

definition txt_node :: string where
  "txt_node = bytes [232, 138, 130, 231, 130, 185, 229, 188, 130, 229, 184, 184, 10, 10, 233, 147,
     190, 239, 188, 154]"

definition txt_provider :: string where
  "txt_provider = bytes [10, 232, 138, 130, 231, 130, 185, 239, 188, 154]"

definition txt_error :: string where
  "txt_error = bytes [10, 233, 148, 153, 232, 175, 175, 239, 188, 154]"

definition txt_failures :: string where
  "txt_failures = bytes [10, 232, 191, 158, 231, 187, 173, 229, 164, 177, 232, 180, 165, 239, 188,
     154]"

definition txt_action :: string where
  "txt_action = bytes [10, 229, 138, 168, 228, 189, 156, 239, 188, 154, 230, 154, 130, 229, 129, 156,
     229, 189, 147, 229, 137, 141, 230, 137, 171, 230, 143, 143, 230, 137, 185, 230, 172, 161, 10,
     230, 151, 182, 233, 151, 180, 239, 188, 154]"

definition formatFinding :: "positive_view \<Rightarrow> string" where
  "formatFinding f =
     (case chainUnits (pv_chain f) of (decimals, atomicUnit) \<Rightarrow>
        pv_chain f @ txt_colon @ formatAtomic (pv_balance f) decimals @ '' '' @ pv_symbol f @
        txt_smallest_unit @ pv_balance f @ '' '' @ atomicUnit @ txt_close)"

definition positive_content :: "notification_view \<Rightarrow> string \<Rightarrow> string" where
  "positive_content view now =
     txt_positive @ vw_address view @
     (if vw_label view \<noteq> [] then txt_label @ vw_label view else []) @ txt_balance @
     concat (map (\<lambda>f. CHR 0x0A # formatFinding f) (vw_findings view)) @ txt_query_time @ now"

definition node_content :: "node_view \<Rightarrow> string \<Rightarrow> string" where
  "node_content view now =
     txt_node @ nv_chain view @ txt_provider @ nv_provider view @ txt_error @ nv_code view @
     txt_failures @ show_int (nv_failures view) @ txt_action @ now"

section \<open>Sending\<close>

text \<open>\<open>hc_decode\<close> is what the JSON decoder reads from the first 4096 bytes: code and message.\<close>

datatype hook_response = Hook_failed string | Hook_responded int "string + int \<times> string"

record hook_call =
  hk_marshal :: "string option"
  hk_build :: "string option"
  hk_do :: hook_response

text \<open>The webhook client: its URL, what the service answers, and the formatted clock.\<close>

record wecom =
  wx_url :: string
  wx_hook :: "nat \<Rightarrow> string \<Rightarrow> hook_call"
  wx_clock :: "nat \<Rightarrow> string"

definition wecom_send :: "hook_call \<Rightarrow> string option" where
  "wecom_send c =
     (case hk_marshal c of
        Some m \<Rightarrow> Some (''encode WeCom payload: '' @ m)
      | None \<Rightarrow>
     (case hk_build c of
        Some m \<Rightarrow> Some (''create WeCom request: '' @ m)
      | None \<Rightarrow>
     (case hk_do c of
        Hook_failed m \<Rightarrow> Some (''send WeCom request: '' @ m)
      | Hook_responded status body \<Rightarrow>
          if status < 200 \<or> status \<ge> 300 then Some (''WeCom returned HTTP '' @ show_int status)
          else
            (case body of
               Inl m \<Rightarrow> Some (''read WeCom response: '' @ m)
             | Inr (code, m) \<Rightarrow>
                 if code \<noteq> 0 then Some (''WeCom error '' @ show_int code @ '': '' @ m)
                 else None))))"

definition SendPositive :: "wecom \<Rightarrow> nat \<Rightarrow> notification_view \<Rightarrow> string option" where
  "SendPositive w k view =
     (if wx_url w = [] then None
      else wecom_send (wx_hook w k (positive_content view (wx_clock w k))))"

definition SendNode :: "wecom \<Rightarrow> nat \<Rightarrow> node_view \<Rightarrow> string option" where
  "SendNode w k view =
     (if wx_url w = [] then None
      else wecom_send (wx_hook w k (node_content view (wx_clock w k))))"

section \<open>The outbox\<close>

datatype deliver_error = De_db db_error | De_send string | De_event int deliver_error

type_synonym 'a deliverp = "(db, deliver_error, 'a) prog"

definition liftD :: "'a dbp \<Rightarrow> 'a deliverp" where
  "liftD p = handleE p (\<lambda>e. raise (De_db e))"

text \<open>The last step of a delivery: persist the result of the send.\<close>

definition settle :: "env \<Rightarrow> int \<Rightarrow> string option \<Rightarrow> unit deliverp" where
  "settle E eventID result =
     (case result of
        None \<Rightarrow> liftD (MarkNotification E eventID ''sent'' [])
      | Some m \<Rightarrow>
          bindE (ignoreE (MarkNotification E eventID ''failed'' m)) (\<lambda>_. raise (De_send m)))"

definition load_failed :: "env \<Rightarrow> int \<Rightarrow> db_error \<Rightarrow> unit deliverp" where
  "load_failed E eventID e =
     bindE (ignoreE (MarkNotification E eventID ''failed'' (db_error_text e))) (\<lambda>_. raise (De_db e))"

definition Deliver :: "env \<Rightarrow> wecom \<Rightarrow> int \<Rightarrow> unit deliverp" where
  "Deliver E w eventID =
     tryE (NotificationType E eventID)
       (\<lambda>eventType.
          if eventType = ''node_error'' then
            tryE (LoadNodeNotification E eventID)
              (\<lambda>view. bindE (getE tick) (\<lambda>k. settle E eventID (SendNode w k view)))
              (load_failed E eventID)
          else
            tryE (LoadNotification E eventID)
              (\<lambda>view. bindE (getE tick) (\<lambda>k. settle E eventID (SendPositive w k view)))
              (load_failed E eventID))
       (load_failed E eventID)"

fun drain_loop :: "env \<Rightarrow> wecom \<Rightarrow> int list \<Rightarrow> deliver_error option \<Rightarrow> unit deliverp" where
  "drain_loop E w [] firstErr = (case firstErr of None \<Rightarrow> ret () | Some e \<Rightarrow> raise e)"
| "drain_loop E w (i # ids) firstErr =
     tryE (Deliver E w i)
       (\<lambda>_. drain_loop E w ids firstErr)
       (\<lambda>e. drain_loop E w ids (if firstErr = None then Some (De_event i e) else firstErr))"

definition Drain :: "env \<Rightarrow> wecom \<Rightarrow> nat \<Rightarrow> unit deliverp" where
  "Drain E w limit = bindE (liftD (PendingNotificationIDs E limit)) (\<lambda>ids. drain_loop E w ids None)"

definition RetryDelay :: "int \<Rightarrow> int" where
  "RetryDelay attempt =
     (let attempt = (if attempt < 0 then 0 else attempt);
          attempt = (if attempt > 8 then 8 else attempt)
      in wrap64 (2 ^ nat attempt * second))"

section \<open>Invariants\<close>

lemma good_liftD [good_rules]: "good p \<Longrightarrow> good (liftD p)"
  unfolding liftD_def by (intro good_rules)

lemma good_settle [good_rules]: "good (settle E i r)"
  unfolding settle_def by (intro good_rules)

lemma good_load_failed [good_rules]: "good (load_failed E i e)"
  unfolding load_failed_def by (intro good_rules)

lemma good_Deliver [good_rules]: "good (Deliver E w i)"
  unfolding Deliver_def by (intro good_rules)

lemma good_drain_loop [good_rules]: "good (drain_loop E w ids fe)"
  by (induction ids arbitrary: fe) (auto intro!: good_rules split: option.split)

lemma good_Drain [good_rules]: "good (Drain E w n)"
  unfolding Drain_def by (intro good_rules)

text \<open>A delivery touches the row of its own event only.\<close>

definition event_at :: "db \<Rightarrow> int \<Rightarrow> event_row option" where
  "event_at d i = row_of ne_id i (events d)"

lemma event_at_tick [simp]: "event_at (d\<lparr>tick := n\<rparr>) i = event_at d i"
  by (simp add: event_at_def)

definition only_event :: "int \<Rightarrow> db \<Rightarrow> db \<Rightarrow> bool" where
  "only_event i d d' \<longleftrightarrow>
     addresses d' = addresses d \<and> runs d' = runs d \<and> findings d' = findings d \<and>
     checks d' = checks d \<and> retries d' = retries d \<and> incidents d' = incidents d \<and>
     (\<forall>k. k \<noteq> i \<longrightarrow> event_at d' k = event_at d k) \<and> map ne_id (events d') = map ne_id (events d)"

lemma only_event_refl [simp]: "only_event i d d"
  by (simp add: only_event_def)

lemma only_event_tick [simp]: "only_event i d (d'\<lparr>tick := n\<rparr>) = only_event i d d'"
  by (simp add: only_event_def)

lemma keeps_only_mark: "keeps (only_event i d0) (sql_mark i st m now)"
proof (rule keepsI)
  fix d
  assume o: "only_event i d0 d"
  have "event_at (snd (sql_mark i st m now d)) k = event_at d k" if "k \<noteq> i" for k
    using that by (auto simp: sql_mark_def event_at_def row_of_update_other)
  moreover have "map ne_id (events (snd (sql_mark i st m now d))) = map ne_id (events d)"
    by (simp add: sql_mark_def update_where_map)
  ultimately show "only_event i d0 (snd (sql_mark i st m now d))"
    using o by (simp add: only_event_def) (simp add: sql_mark_def)
qed

lemma keeps_read: "(\<And>d. snd (p d) = d) \<Longrightarrow> keeps I p"
  by (simp add: keeps_def)

lemma reads [simp]:
  "snd (sql_event_type i now d) = d" "snd (sql_node_event i now d) = d"
  "snd (sql_positive_event i now d) = d" "snd (sql_positives_of a now d) = d"
  "snd (sql_pending n now d) = d" "snd (skip_sql now d) = d"
  by (auto simp: sql_event_type_def sql_node_event_def sql_positive_event_def
      sql_positives_of_def sql_pending_def skip_sql_def split: option.split)

lemma keeps_fetch [keeps]:
  assumes "\<And>now. keeps I (q now)" and "\<And>d n. I d \<Longrightarrow> I (d\<lparr>tick := n\<rparr>)"
  shows "keeps I (fetch E w1 w2 q)"
  unfolding fetch_def by (intro keeps keeps_read assms reads)

lemma keeps_liftD [keeps]: "keeps I p \<Longrightarrow> keeps I (liftD p)"
  unfolding liftD_def by (intro keeps)

lemma keeps_only_Mark [keeps]: "keeps (only_event i d0) (MarkNotification E i st m)"
  unfolding MarkNotification_def by (intro keeps keeps_only_mark) simp

lemma keeps_only_reads [keeps]:
  "keeps (only_event i d0) (NotificationType E j)" "keeps (only_event i d0) (LoadNodeNotification E j)"
  "keeps (only_event i d0) (LoadNotification E j)"
  unfolding NotificationType_def LoadNodeNotification_def LoadNotification_def
  by (intro keeps keeps_read reads; simp)+

lemma keeps_only_Deliver: "keeps (only_event i d0) (Deliver E w i)"
  unfolding Deliver_def settle_def load_failed_def by (intro keeps)

section \<open>The outcome of a delivery\<close>

definition at_tick :: "db \<Rightarrow> db \<Rightarrow> bool" where
  "at_tick d0 d \<longleftrightarrow> (\<exists>n. d = d0\<lparr>tick := n\<rparr>)"

lemma at_tick_refl: "at_tick d d"
  unfolding at_tick_def by (rule exI [of _ "tick d"]) simp

lemma at_tick_step: "at_tick d0 d \<Longrightarrow> at_tick d0 (d\<lparr>tick := n\<rparr>)"
  by (auto simp: at_tick_def)

lemma keeps_at_tick_reads:
  "keeps (at_tick d0) (NotificationType E j)" "keeps (at_tick d0) (LoadNodeNotification E j)"
  "keeps (at_tick d0) (LoadNotification E j)" "keeps (at_tick d0) (PendingNotificationIDs E n)"
  unfolding NotificationType_def LoadNodeNotification_def LoadNotification_def
    PendingNotificationIDs_def
  by (intro keeps keeps_read reads at_tick_step; assumption)+

lemma read_ends:
  assumes "keeps (at_tick d) p" and "p d = (r, d1)"
  obtains n where "d1 = d\<lparr>tick := n\<rparr>"
  using keepsD_eq [OF assms(1) at_tick_refl assms(2)] by (auto simp: at_tick_def)

text \<open>With a database that works, marking an event rewrites its row.\<close>

lemma Mark_quiet:
  assumes "quiet E" and "st \<in> event_statuses"
  shows "\<exists>d'. MarkNotification E i st m d = (Inr (), d') \<and>
    event_at d' i = map_option (mark_event st m (ev_now E (tick d))) (event_at d i)"
proof -
  have "\<exists>d'. sql_mark i st m now d = (Inr (), d')" for now d
    using assms(2) by (simp add: sql_mark_def)
  then obtain d' where d': "sql_mark i st m (ev_now E (tick d)) (d\<lparr>tick := Suc (tick d)\<rparr>) = (Inr (), d')"
    by blast
  have "event_at d' i = map_option (mark_event st m (ev_now E (tick d))) (event_at d i)"
    using sql_mark_row [OF d', of i] row_of_key [of ne_id i "events d"]
    by (cases "row_of ne_id i (events d)") (auto simp: event_at_def)
  with d' assms(1) show ?thesis by (simp add: MarkNotification_def exec_Inr)
qed

definition attempted :: "int \<Rightarrow> db \<Rightarrow> db \<Rightarrow> string \<Rightarrow> bool" where
  "attempted i d d' st \<longleftrightarrow>
     (case event_at d i of
        None \<Rightarrow> event_at d' i = None
      | Some e \<Rightarrow> \<exists>e'. event_at d' i = Some e' \<and> ne_attempts e' = Suc (ne_attempts e) \<and> ne_status e' = st)"

lemma Mark_attempted:
  assumes "quiet E" and "st \<in> event_statuses"
  shows "\<exists>d'. MarkNotification E i st m (d\<lparr>tick := n\<rparr>) = (Inr (), d') \<and> attempted i d d' st"
proof -
  obtain d' where "MarkNotification E i st m (d\<lparr>tick := n\<rparr>) = (Inr (), d')"
      "event_at d' i = map_option (mark_event st m (ev_now E n)) (event_at d i)"
    using Mark_quiet [OF assms, of i m "d\<lparr>tick := n\<rparr>"] by auto
  then show ?thesis
    by (auto simp: attempted_def mark_event_def split: option.split)
qed

lemma settle_quiet:
  assumes "quiet E"
  shows "\<exists>d'. settle E i res (d\<lparr>tick := n\<rparr>) =
      ((case res of None \<Rightarrow> Inr () | Some m \<Rightarrow> Inl (De_send m)), d') \<and>
    attempted i d d' (if res = None then ''sent'' else ''failed'')"
proof (cases res)
  case None
  with Mark_attempted [OF assms, of "''sent''" i "[]" n d] show ?thesis
    by (auto simp: settle_def liftD_def handleE_def event_statuses_def)
next
  case (Some m)
  with Mark_attempted [OF assms, of "''failed''" i m n d] show ?thesis
    by (auto simp: settle_def bindE_def event_statuses_def)
qed

lemma load_failed_quiet:
  assumes "quiet E"
  shows "\<exists>d'. load_failed E i e (d\<lparr>tick := n\<rparr>) = (Inl (De_db e), d') \<and> attempted i d d' ''failed''"
  using Mark_attempted [OF assms, of "''failed''" i "db_error_text e" n d]
  by (auto simp: load_failed_def bindE_def event_statuses_def)

lemma Deliver_quiet:
  assumes "quiet E"
  shows "\<exists>r d'. Deliver E w i d = (r, d') \<and>
    attempted i d d' (if r = Inr () then ''sent'' else ''failed'')"
proof -
  have load: "\<exists>r d'. tryE p (\<lambda>view. bindE (getE tick) (\<lambda>k. settle E i (snt k view))) (load_failed E i) (d\<lparr>tick := n\<rparr>) = (r, d') \<and>
      attempted i d d' (if r = Inr () then ''sent'' else ''failed'')"
    if p: "\<And>d0. keeps (at_tick d0) p" for p :: "'v dbp" and snt :: "nat \<Rightarrow> 'v \<Rightarrow> string option" and n
  proof -
    obtain r1 d1 where r1: "p (d\<lparr>tick := n\<rparr>) = (r1, d1)" by fastforce
    then obtain n1 where n1: "d1 = d\<lparr>tick := n1\<rparr>"
      using read_ends [OF p r1] by fastforce
    show ?thesis
    proof (cases r1)
      case (Inl e)
      with r1 n1 load_failed_quiet [OF assms, of i e n1 d] show ?thesis by (auto simp: tryE_def)
    next
      case (Inr view)
      obtain d' where s: "settle E i (snt n1 view) (d\<lparr>tick := n1\<rparr>) =
          ((case snt n1 view of None \<Rightarrow> Inr () | Some m \<Rightarrow> Inl (De_send m)), d')"
        "attempted i d d' (if snt n1 view = None then ''sent'' else ''failed'')"
        using settle_quiet [OF assms] by blast
      with Inr r1 n1 show ?thesis
        by (cases "snt n1 view") (auto simp: tryE_def bindE_def)
    qed
  qed
  obtain r0 d0 where r0: "NotificationType E i d = (r0, d0)" by fastforce
  then obtain n where n: "d0 = d\<lparr>tick := n\<rparr>"
    using read_ends [OF keeps_at_tick_reads(1)] by blast
  show ?thesis
  proof (cases r0)
    case (Inl e)
    with r0 n load_failed_quiet [OF assms, of i e n d] show ?thesis by (auto simp: Deliver_def tryE_def)
  next
    case (Inr ty)
    with r0 n have "Deliver E w i d =
        (if ty = ''node_error''
         then tryE (LoadNodeNotification E i) (\<lambda>view. bindE (getE tick) (\<lambda>k. settle E i (SendNode w k view))) (load_failed E i) (d\<lparr>tick := n\<rparr>)
         else tryE (LoadNotification E i) (\<lambda>view. bindE (getE tick) (\<lambda>k. settle E i (SendPositive w k view))) (load_failed E i) (d\<lparr>tick := n\<rparr>))"
      by (simp add: Deliver_def tryE_def [of "NotificationType E i"])
    then show ?thesis
      using load [of "LoadNodeNotification E i" "SendNode w" n, OF keeps_at_tick_reads(2)]
        load [of "LoadNotification E i" "SendPositive w" n, OF keeps_at_tick_reads(3)]
      by (cases "ty = ''node_error''") simp_all
  qed
qed

lemma only_event_at: "only_event i d d' \<Longrightarrow> k \<noteq> i \<Longrightarrow> event_at d' k = event_at d k"
  by (simp add: only_event_def)

lemma Deliver_others:
  assumes "Deliver E w i d = (r, d')" and "k \<noteq> i"
  shows "event_at d' k = event_at d k"
  using keepsD_eq [OF keeps_only_Deliver only_event_refl assms(1)] assms(2) by (rule only_event_at)

lemma attempted_cong: "event_at d i = event_at e i \<Longrightarrow> event_at d' i = event_at e' i \<Longrightarrow>
    attempted i d d' st = attempted i e e' st"
  by (simp add: attempted_def split: option.split)

lemma drain_loop_quiet:
  assumes "quiet E" and "distinct ids"
  shows "\<exists>r d'. drain_loop E w ids fe d = (r, d') \<and>
    (\<forall>i \<in> set ids. attempted i d d' ''sent'' \<or> attempted i d d' ''failed'') \<and>
    (\<forall>k. k \<notin> set ids \<longrightarrow> event_at d' k = event_at d k) \<and>
    (r = Inr () \<longrightarrow> fe = None \<and> (\<forall>i \<in> set ids. attempted i d d' ''sent''))"
  using assms(2)
proof (induction ids arbitrary: d fe)
  case Nil
  then show ?case by (auto split: option.split)
next
  case (Cons i ids)
  obtain r1 d1 where 1: "Deliver E w i d = (r1, d1)"
      "attempted i d d1 (if r1 = Inr () then ''sent'' else ''failed'')"
    using Deliver_quiet [OF assms(1)] by blast
  note oth = Deliver_others [OF 1(1)]
  define fe' where "fe' = (case r1 of Inr _ \<Rightarrow> fe | Inl e \<Rightarrow> if fe = None then Some (De_event i e) else fe)"
  obtain r d' where 2: "drain_loop E w ids fe' d1 = (r, d')"
      "\<forall>i \<in> set ids. attempted i d1 d' ''sent'' \<or> attempted i d1 d' ''failed''"
      "\<forall>k. k \<notin> set ids \<longrightarrow> event_at d' k = event_at d1 k"
      "r = Inr () \<longrightarrow> fe' = None \<and> (\<forall>i \<in> set ids. attempted i d1 d' ''sent'')"
    using Cons.IH [of fe' d1] Cons.prems by auto
  have run: "drain_loop E w (i # ids) fe d = (r, d')"
    using 1(1) 2(1) by (cases r1) (simp_all add: tryE_def fe'_def)
  have j: "attempted j d d' st = attempted j d1 d' st" if "j \<in> set ids" for j st
  proof -
    from that Cons.prems have "j \<noteq> i" by auto
    then show ?thesis using oth [of j] by (intro attempted_cong) simp_all
  qed
  have "event_at d' i = event_at d1 i" using 2(3) Cons.prems by simp
  then have i: "attempted i d d' st = attempted i d d1 st" for st by (intro attempted_cong) simp_all
  have fin: "r = Inr () \<longrightarrow> fe = None \<and> (\<forall>i \<in> set (i # ids). attempted i d d' ''sent'')"
  proof
    assume "r = Inr ()"
    with 2(4) have "fe' = None" and all: "\<forall>i \<in> set ids. attempted i d1 d' ''sent''" by auto
    then have "r1 = Inr ()" and "fe = None"
      by (auto simp: fe'_def split: sum.splits if_splits)
    with 1(2) i j all show "fe = None \<and> (\<forall>i \<in> set (i # ids). attempted i d d' ''sent'')" by auto
  qed
  have "\<forall>j \<in> set (i # ids). attempted j d d' ''sent'' \<or> attempted j d d' ''failed''"
    using 1(2) 2(2) i j by (auto split: if_splits)
  moreover have "\<forall>k. k \<notin> set (i # ids) \<longrightarrow> event_at d' k = event_at d k"
    using 2(3) oth by simp
  ultimately show ?case using run fin by blast
qed

text \<open>An event that is not sent stays so unless it is marked as sent.\<close>

definition unsent :: "int \<Rightarrow> db \<Rightarrow> bool" where
  "unsent i d \<longleftrightarrow> (case event_at d i of None \<Rightarrow> True | Some e \<Rightarrow> ne_status e \<noteq> ''sent'')"

lemma unsent_tick [simp]: "unsent i (d\<lparr>tick := n\<rparr>) = unsent i d"
  by (simp add: unsent_def)

lemma keeps_unsent_mark: "keeps (unsent i) (sql_mark i ''failed'' m now)"
proof (rule keepsI)
  fix d
  assume "unsent i d"
  then show "unsent i (snd (sql_mark i ''failed'' m now d))"
    using row_of_key [of ne_id i "events d"]
    by (cases "row_of ne_id i (events d)")
      (auto simp: unsent_def sql_mark_def event_at_def row_of_update_where)
qed

lemma keeps_unsent_failed: "keeps (unsent i) (MarkNotification E i ''failed'' m)"
  unfolding MarkNotification_def by (intro keeps keeps_unsent_mark) simp

lemma keeps_unsent_load_failed: "keeps (unsent i) (load_failed E i e)"
  unfolding load_failed_def by (intro keeps keeps_unsent_failed)

lemma keeps_unsent_settle: "keeps (unsent i) (settle E i (Some m))"
  unfolding settle_def by (simp, intro keeps keeps_unsent_failed)

lemma settle_sent:
  assumes "settle E i res d = (r, d')" and "unsent i d" and "\<not> unsent i d'"
  shows "res = None"
proof (cases res)
  case (Some m)
  with keepsD_eq [OF keeps_unsent_settle assms(2)] assms show ?thesis by metis
qed simp

lemma LoadNotification_event: "LoadNotification E i d = (Inr view, d') \<Longrightarrow> vw_event view = i"
  using row_of_key [of ne_id i "events (d\<lparr>tick := Suc (tick d)\<rparr>)"]
  by (auto simp: LoadNotification_def bindE_eq_Inr exec_Inr sql_positive_event_def
      split: option.splits)

lemma LoadNodeNotification_event: "LoadNodeNotification E i d = (Inr view, d') \<Longrightarrow> nv_event view = i"
  using row_of_key [of ne_id i "events (d\<lparr>tick := Suc (tick d)\<rparr>)"]
  by (auto simp: LoadNodeNotification_def exec_Inr sql_node_event_def split: option.splits)

text \<open>
  A step of a delivery that reads and then settles the event with the answer of the webhook:
  the event is sent afterwards only if the message read went out.
\<close>

lemma deliver_step:
  assumes keep: "\<And>d0. keeps (at_tick d0) p" and un: "unsent i d" and snt: "\<not> unsent i d'"
    and run: "tryE p (\<lambda>view. bindE (getE tick) (\<lambda>k. settle E i (send k view))) (load_failed E i)
      (d\<lparr>tick := n\<rparr>) = (r, d')"
  shows "\<exists>k view. p (d\<lparr>tick := n\<rparr>) = (Inr view, d\<lparr>tick := k\<rparr>) \<and> send k view = None"
proof -
  obtain r1 d1 where r1: "p (d\<lparr>tick := n\<rparr>) = (r1, d1)" by fastforce
  then obtain k where k: "d1 = d\<lparr>tick := k\<rparr>" using read_ends [OF keep r1] by fastforce
  show ?thesis
  proof (cases r1)
    case (Inl e)
    with run r1 have "load_failed E i e d1 = (r, d')" by (simp add: tryE_def)
    from keepsD_eq [OF keeps_unsent_load_failed _ this] k un snt show ?thesis by simp
  next
    case (Inr view)
    with run r1 k have "settle E i (send k view) (d\<lparr>tick := k\<rparr>) = (r, d')"
      by (simp add: tryE_def bindE_def)
    from settle_sent [OF this] un snt Inr r1 k show ?thesis by auto
  qed
qed

text \<open>A delivery after which the event is sent, by the kind of the event.\<close>

lemma Deliver_sent:
  assumes run: "Deliver E w i d = (r, d')" and un: "unsent i d" and snt: "\<not> unsent i d'"
  obtains n where
      "tryE (LoadNodeNotification E i) (\<lambda>view. bindE (getE tick) (\<lambda>k. settle E i (SendNode w k view)))
        (load_failed E i) (d\<lparr>tick := n\<rparr>) = (r, d')"
    | n where
      "tryE (LoadNotification E i) (\<lambda>view. bindE (getE tick) (\<lambda>k. settle E i (SendPositive w k view)))
        (load_failed E i) (d\<lparr>tick := n\<rparr>) = (r, d')"
proof -
  obtain r0 d0 where r0: "NotificationType E i d = (r0, d0)" by fastforce
  then obtain n where n: "d0 = d\<lparr>tick := n\<rparr>"
    using read_ends [OF keeps_at_tick_reads(1)] by blast
  show thesis
  proof (cases r0)
    case (Inl e)
    with r0 run have "load_failed E i e d0 = (r, d')" by (simp add: Deliver_def tryE_def)
    from keepsD_eq [OF keeps_unsent_load_failed _ this] n un snt show thesis by simp
  next
    case (Inr ty)
    with that [of n] run r0 n show thesis
      by (cases "ty = ''node_error''") (simp_all add: Deliver_def tryE_def [of "NotificationType E i"])
  qed
qed

text \<open>An event that became a sent one was read from the store, and its message went out.\<close>

lemma sent_went_out:
  assumes "Deliver E w i d = (r, d')" and "unsent i d" and "\<not> unsent i d'"
  shows "(\<exists>n k view. LoadNotification E i (d\<lparr>tick := n\<rparr>) = (Inr view, d\<lparr>tick := k\<rparr>) \<and> SendPositive w k view = None) \<or>
    (\<exists>n k view. LoadNodeNotification E i (d\<lparr>tick := n\<rparr>) = (Inr view, d\<lparr>tick := k\<rparr>) \<and> SendNode w k view = None)"
proof (rule Deliver_sent [OF assms])
  fix n
  assume "tryE (LoadNodeNotification E i) (\<lambda>view. bindE (getE tick) (\<lambda>k. settle E i (SendNode w k view)))
    (load_failed E i) (d\<lparr>tick := n\<rparr>) = (r, d')"
  from deliver_step [OF keeps_at_tick_reads(2) assms(2,3) this] show ?thesis by blast
next
  fix n
  assume "tryE (LoadNotification E i) (\<lambda>view. bindE (getE tick) (\<lambda>k. settle E i (SendPositive w k view)))
    (load_failed E i) (d\<lparr>tick := n\<rparr>) = (r, d')"
  from deliver_step [OF keeps_at_tick_reads(3) assms(2,3) this] show ?thesis by blast
qed

section \<open>Theorems\<close>

text \<open>
  No notification is lost by being marked too early: whatever fails on the way, an event
  that a delivery turns into a sent one was the event whose message was given to the webhook
  with success (an empty webhook URL counts as success in the code).
\<close>

theorem sent_only_after_send:
  assumes "Deliver E w i d = (r, d')" and "unsent i d" and "\<not> unsent i d'"
  shows "(\<exists>k view. vw_event view = i \<and> SendPositive w k view = None) \<or>
    (\<exists>k view. nv_event view = i \<and> SendNode w k view = None)"
  using sent_went_out [OF assms] LoadNotification_event LoadNodeNotification_event by blast

text \<open>
  Draining the outbox on a database that works: every event handed out is attempted once,
  whatever happened to the ones before it; its row then says sent or failed with one attempt
  more, no other event changes, and \<^verbatim>\<open>Drain\<close> reports success only when all of them were sent.
\<close>

theorem drain_attempts_each:
  assumes "quiet E" and "db_ok d"
  shows "\<exists>ids d1 r d'. PendingNotificationIDs E n d = (Inr ids, d1) \<and> Drain E w n d = (r, d') \<and>
    (\<forall>i \<in> set ids. attempted i d d' ''sent'' \<or> attempted i d d' ''failed'') \<and>
    (\<forall>k. k \<notin> set ids \<longrightarrow> event_at d' k = event_at d k) \<and>
    (r = Inr () \<longrightarrow> (\<forall>i \<in> set ids. attempted i d d' ''sent''))"
proof -
  obtain ids d1 where p: "PendingNotificationIDs E n d = (Inr ids, d1)"
    using assms(1) by (simp add: PendingNotificationIDs_def fetch_Inr exec_Inr sql_pending_def)
  note t = pending_ids(2) [OF assms(2) p] and ids = pending_ids(3) [OF assms(2) p]
  obtain r d' where l: "drain_loop E w ids None d1 = (r, d')"
      "\<forall>i \<in> set ids. attempted i d1 d' ''sent'' \<or> attempted i d1 d' ''failed''"
      "\<forall>k. k \<notin> set ids \<longrightarrow> event_at d' k = event_at d1 k"
      "r = Inr () \<longrightarrow> (\<forall>i \<in> set ids. attempted i d1 d' ''sent'')"
    using drain_loop_quiet [OF assms(1) ids, of w None d1] by blast
  have same: "event_at d1 k = event_at d k" for k using t by (simp add: event_at_def tables_eq_iff)
  then have att: "attempted i d1 d' st = attempted i d d' st" for i st by (simp add: attempted_def)
  have "Drain E w n d = (r, d')"
    using p l(1) by (simp add: Drain_def liftD_def handleE_def bindE_def)
  note l = l [unfolded same att]
  with p \<open>Drain E w n d = (r, d')\<close> show ?thesis by blast
qed

text \<open>A webhook that answers with an error code once, and the event of the store.\<close>

definition deaf_hook :: wecom where
  "deaf_hook = \<lparr>wx_url = ''http://hook'',
     wx_hook = \<lambda>k c. \<lparr>hk_marshal = None, hk_build = None, hk_do = Hook_responded 500 (Inl [])\<rparr>,
     wx_clock = \<lambda>k. ''now''\<rparr>"

definition open_hook :: wecom where
  "open_hook = \<lparr>wx_url = ''http://hook'',
     wx_hook = \<lambda>k c. \<lparr>hk_marshal = None, hk_build = None, hk_do = Hook_responded 200 (Inr (0, []))\<rparr>,
     wx_clock = \<lambda>k. ''now''\<rparr>"

definition node_db :: db where
  "node_db = event_db\<lparr>events := [failed_event\<lparr>ne_incident := Some 1\<rparr>],
     incidents := [\<lparr>ni_id = 1, ni_chain = ''btc'', ni_provider = ''btc'', ni_code = ''timeout'',
       ni_failures = 5, ni_status = ''active'', ni_first_seen = 0\<rparr>], next_incident := 2\<rparr>"

lemma node_db_ok: "db_ok node_db"
  by (simp add: db_ok_def table_ok_defs empty_db_def event_db_def node_db_def failed_event_def
      event_types_def event_statuses_def)

theorem sent_only_after_send_witness:
  "\<exists>r d'. Deliver sample_env open_hook 1 node_db = (r, d') \<and> unsent 1 node_db \<and> \<not> unsent 1 d' \<and>
     ((\<exists>k view. vw_event view = 1 \<and> SendPositive open_hook k view = None) \<or>
      (\<exists>k view. nv_event view = 1 \<and> SendNode open_hook k view = None))"
proof -
  have u: "unsent 1 node_db"
    by (simp add: unsent_def event_at_def node_db_def row_of_def failed_event_def)
  obtain r d' where d': "Deliver sample_env open_hook 1 node_db = (r, d')" "\<not> unsent 1 d'"
    by (simp add: Deliver_def tryE_def NotificationType_def LoadNodeNotification_def exec_def
        exec_at_def sample_env_def sql_event_type_def sql_node_event_def row_of_def node_db_def
        failed_event_def event_db_def settle_def SendNode_def open_hook_def wecom_send_def
        bindE_def liftD_def handleE_def MarkNotification_def sql_mark_def event_statuses_def
        unsent_def event_at_def update_where_def Let_def)
  from sent_only_after_send [OF d'(1) u d'(2)] d' u show ?thesis by blast
qed

theorem drain_attempts_each_witness:
  "\<exists>ids r d'. Drain sample_env deaf_hook 5 node_db = (r, d') \<and>
     (\<forall>i \<in> set ids. attempted i node_db d' ''sent'' \<or> attempted i node_db d' ''failed'')"
  using drain_attempts_each [OF quiet_sample node_db_ok, of 5 deaf_hook] by blast

end
