(* ===== verification/Scanner.thy ===== *)
theory Scanner
  imports Pool_Progress Outbox Store_Runs
begin

text \<open>
  \<^verbatim>\<open>RunOnce\<close>, \<^verbatim>\<open>run\<close> and \<^verbatim>\<open>RetryFailed\<close> of \<^verbatim>\<open>internal/scanner/scanner.go\<close>: the durable scan
  over the store, the worker pool, the health tracker and the outbox.

  Everything outside the code is in \<open>scan_env\<close>: the faults and clocks, the identifiers
  \<^verbatim>\<open>uuid.New()\<close> draws, the webhook, and for the \<open>k\<close>-th batch the schedule of its pool. The
  scanner's state is the database and the health tracker; \<open>ss_done\<close> and \<open>ss_retried\<close> are
  history variables, the results of the pool and of the retries so far.
\<close>

section \<open>Programs of the scanner\<close>

record scan_env =
  se_db :: env
  se_clock :: "nat \<Rightarrow> int"
  se_uuid :: "nat \<Rightarrow> uuid"
  se_notifier :: "wecom option"
  se_schedule :: "nat \<Rightarrow> choice list"
  se_cancelled :: "nat \<Rightarrow> bool"
  se_answers :: "nat \<Rightarrow> answer list"

record scan_state =
  ss_db :: db
  ss_health :: health
  ss_round :: nat
  ss_done :: "address_result list"
  ss_retried :: "(retry_item \<times> (go_error + balance)) list"

text \<open>
  \<open>Se_no_run\<close> is no error of the code: the schedule of the environment is no execution of the
  pool to its end. \<open>Se_crash\<close> is a nil dereference.
\<close>

datatype scan_error = Se_db db_error | Se_paused int | Se_crash | Se_no_run

type_synonym 'a scanp = "(scan_state, scan_error, 'a) prog"

definition liftS :: "'a dbp \<Rightarrow> 'a scanp" where
  "liftS p st =
     (case p (ss_db st) of
        (Inl e, d) \<Rightarrow> (Inl (Se_db e), st\<lparr>ss_db := d\<rparr>)
      | (Inr x, d) \<Rightarrow> (Inr x, st\<lparr>ss_db := d\<rparr>))"

text \<open>\<^verbatim>\<open>if s.Notifier != nil { _ = s.Notifier.Deliver(ctx, eventID) }\<close>\<close>

definition notify :: "scan_env \<Rightarrow> int \<Rightarrow> unit scanp" where
  "notify V eventID =
     (case se_notifier V of
        None \<Rightarrow> ret ()
      | Some w \<Rightarrow> liftS (ignoreE (Deliver (se_db V) w eventID)))"

definition record_retry :: "scan_env \<Rightarrow> scanner \<Rightarrow> int \<Rightarrow> string \<Rightarrow> string \<Rightarrow> string \<Rightarrow> string \<Rightarrow> unit scanp" where
  "record_retry V s addressID chain code provider message =
     bindE (getE (\<lambda>st. tick (ss_db st))) (\<lambda>k.
       liftS (RecordRetry (se_db V)
         \<lparr>ri_address_id = addressID, ri_chain = chain, ri_code = code, ri_provider = provider,
          ri_message = message, ri_next = se_clock V k + sc_base_delay (sn_config s)\<rparr>))"

definition save_findings :: "scan_env \<Rightarrow> positive_finding list \<Rightarrow> unit scanp" where
  "save_findings V fs =
     bindE (liftS (SavePositiveFindings (se_db V) fs))
       (\<lambda>event. case event of None \<Rightarrow> ret () | Some i \<Rightarrow> notify V i)"

section \<open>One batch\<close>

definition pool_batch :: "scan_env \<Rightarrow> scanner \<Rightarrow> address list \<Rightarrow> address_result list scanp" where
  "pool_batch V s as st =
     (let k = ss_round st in
      case processBatch s (se_schedule V k) (ss_health st) (se_cancelled V k) as of
        None \<Rightarrow> (Inl Se_no_run, st)
      | Some (rs, h) \<Rightarrow>
          (Inr rs, st\<lparr>ss_health := h, ss_round := Suc k, ss_done := ss_done st @ rs\<rparr>))"

definition store_failure :: "scan_env \<Rightarrow> scanner \<Rightarrow> address \<Rightarrow> scan_failure \<Rightarrow> unit scanp" where
  "store_failure V s a f =
     bindE (record_retry V s (ad_id a) (sf_chain f) (sf_code f) (sf_provider f) (sf_message f))
       (\<lambda>_. if sf_code f = ''invalid_address''
            then liftS (CloseRetry (se_db V) (ad_id a) (sf_chain f)) else ret ())"

definition store_alert :: "scan_env \<Rightarrow> node_alert \<Rightarrow> unit scanp" where
  "store_alert V n =
     bindE (liftS (CreateNodeIncident (se_db V) (na_chain n) (na_provider n) (na_code n) (na_failures n)))
       (\<lambda>i. bindE (liftS (CreateNodeNotificationEvent (se_db V) i)) (notify V))"

definition store_result :: "scan_env \<Rightarrow> scanner \<Rightarrow> address_result \<Rightarrow> unit scanp" where
  "store_result V s r =
     bindE (eachE (store_failure V s (ar_address r)) (ar_errors r)) (\<lambda>_.
     bindE (eachE (store_alert V) (ar_alerts r)) (\<lambda>_.
     save_findings V (ar_findings r)))"

record tally =
  ta_processed :: int
  ta_empty :: int
  ta_positive :: int
  ta_failures :: int
  ta_pause :: bool

definition count_result :: "address_result \<Rightarrow> tally \<Rightarrow> tally" where
  "count_result r t =
     \<lparr>ta_processed = ta_processed t + 1,
      ta_empty = ta_empty t + (if ar_findings r = [] \<and> ar_errors r = [] then 1 else 0),
      ta_positive = ta_positive t + int (length (ar_findings r)),
      ta_failures = ta_failures t + int (length (ar_errors r)),
      ta_pause = (ta_pause t \<or> ar_pause r)\<rparr>"

definition zero_tally :: tally where
  "zero_tally = \<lparr>ta_processed = 0, ta_empty = 0, ta_positive = 0, ta_failures = 0, ta_pause = False\<rparr>"

primrec store_results :: "scan_env \<Rightarrow> scanner \<Rightarrow> address_result list \<Rightarrow> tally \<Rightarrow> tally scanp" where
  "store_results V s [] t = ret t"
| "store_results V s (r # rs) t =
     bindE (store_result V s r) (\<lambda>_. store_results V s rs (count_result r t))"

text \<open>One round of the loop: \<open>None\<close> when the run is complete, else the run with its new cursor.\<close>

definition run_round :: "scan_env \<Rightarrow> scanner \<Rightarrow> scan_run \<Rightarrow> scan_run option scanp" where
  "run_round V s run =
     bindE (liftS (NextAddresses (se_db V) run (sc_batch (sn_config s)))) (\<lambda>as.
       if as = [] then bindE (liftS (CompleteScan (se_db V) (run_id run))) (\<lambda>_. ret None)
       else
         bindE (pool_batch V s as) (\<lambda>rs.
         bindE (store_results V s rs zero_tally) (\<lambda>t.
           if ta_pause t then
             bindE (liftS (PauseScan (se_db V) (run_id run))) (\<lambda>_. raise (Se_paused (run_cursor run)))
           else
             let cursor = ad_id (last as)
             in bindE
                  (liftS (AdvanceScan (se_db V) (run_id run) cursor (ta_processed t) (ta_empty t)
                     (ta_positive t) (ta_failures t)))
                  (\<lambda>_. ret (Some (run\<lparr>run_cursor := cursor\<rparr>))))))"

text \<open>The loop of \<^verbatim>\<open>run\<close>, with fuel for its rounds.\<close>

fun scan_loop ::
  "nat \<Rightarrow> scan_env \<Rightarrow> scanner \<Rightarrow> scan_run \<Rightarrow> scan_state \<Rightarrow> ((scan_error + unit) \<times> scan_state) option" where
  "scan_loop 0 V s run st = None"
| "scan_loop (Suc n) V s run st =
     (case run_round V s run st of
        (Inl e, st') \<Rightarrow> Some (Inl e, st')
      | (Inr None, st') \<Rightarrow> Some (Inr (), st')
      | (Inr (Some run'), st') \<Rightarrow> scan_loop n V s run' st')"

text \<open>Which run to work on: the active one, resumed when paused, or a new one, if any.\<close>

definition choose_run :: "scan_env \<Rightarrow> scan_run option scanp" where
  "choose_run V =
     bindE (liftS (ActiveScan (se_db V))) (\<lambda>active.
       case active of
         None \<Rightarrow>
           bindE (liftS (UnscannedRange (se_db V))) (\<lambda>range.
             case range of
               None \<Rightarrow> ret None
             | Some (startID, endID) \<Rightarrow>
                 bindE (getE (\<lambda>st. tick (ss_db st))) (\<lambda>k.
                 bindE (liftS (CreateScan (se_db V) (se_uuid V k) startID endID))
                   (\<lambda>run. ret (Some run))))
       | Some run \<Rightarrow>
           if run_status run = ''paused'' then
             bindE (liftS (ResumeScan (se_db V) (run_id run)))
               (\<lambda>_. ret (Some (run\<lparr>run_status := ''running''\<rparr>)))
           else ret (Some run))"

definition RunOnce ::
  "nat \<Rightarrow> scan_env \<Rightarrow> scanner \<Rightarrow> scan_state \<Rightarrow> ((scan_error + unit) \<times> scan_state) option" where
  "RunOnce n V s st =
     (case choose_run V st of
        (Inl e, st') \<Rightarrow> Some (Inl e, st')
      | (Inr None, st') \<Rightarrow> Some (Inr (), st')
      | (Inr (Some run), st') \<Rightarrow> scan_loop n V s run st')"

section \<open>Retries\<close>

text \<open>
  A task on its own goroutine, with no other one running: a slot is always free, so only the
  context can keep it from being taken.
\<close>

primrec solo :: "'r task \<Rightarrow> answer list \<Rightarrow> health \<Rightarrow> ('r \<times> health) option" where
  "solo (Done r) = (\<lambda>as h. if as = [] then Some (r, h) else None)"
| "solo Crash = (\<lambda>as h. None)"
| "solo (Lock c k) =
     (\<lambda>as h. case as of A_flag b # as' \<Rightarrow> (if b then solo (k True) as' h else solo (k False) as' h) | _ \<Rightarrow> None)"
| "solo (Unlock c t) = (\<lambda>as h. case as of A_go # as' \<Rightarrow> solo t as' h | _ \<Rightarrow> None)"
| "solo (Query c a k) = (\<lambda>as h. case as of A_reply x # as' \<Rightarrow> solo (k x) as' h | _ \<Rightarrow> None)"
| "solo (Tracker e k) =
     (\<lambda>as h. case as of A_go # as' \<Rightarrow> (case tracker_step e h of (out, h') \<Rightarrow> solo (k out) as' h') | _ \<Rightarrow> None)"
| "solo (Sleep d k) =
     (\<lambda>as h. case as of A_flag b # as' \<Rightarrow> (if b then solo (k True) as' h else solo (k False) as' h) | _ \<Rightarrow> None)"

definition solo_check :: "scan_env \<Rightarrow> scanner \<Rightarrow> retry_item \<Rightarrow> (go_error + balance) scanp" where
  "solo_check V s item st =
     (let k = ss_round st in
      case solo (checkWithRetry s (it_chain item) (it_address item) Done) (se_answers V k) (ss_health st) of
        None \<Rightarrow> (Inl Se_no_run, st)
      | Some (res, h) \<Rightarrow>
          (Inr res,
           st\<lparr>ss_health := h, ss_round := Suc k, ss_retried := ss_retried st @ [(item, res)]\<rparr>))"

definition item_finding :: "retry_item \<Rightarrow> balance \<Rightarrow> int \<Rightarrow> positive_finding" where
  "item_finding i b n =
     \<lparr>fi_address_id = it_address_id i, fi_chain = bal_chain b, fi_balance = show_int n,
      fi_symbol = bal_symbol b\<rparr>"

definition retry_one :: "scan_env \<Rightarrow> scanner \<Rightarrow> retry_item \<Rightarrow> unit scanp" where
  "retry_one V s item =
     (if it_chain item \<notin> set (sn_providers s) then ret ()
      else
        bindE (solo_check V s item) (\<lambda>res.
          case res of
            Inl e \<Rightarrow>
              let pe = asProviderError e (it_chain item)
              in record_retry V s (it_address_id item) (it_chain item) (pe_code pe) (pe_provider pe)
                   (error_text pe)
          | Inr b \<Rightarrow>
              bindE (liftS (CloseRetry (se_db V) (it_address_id item) (it_chain item))) (\<lambda>_.
                case bal_atomic b of
                  None \<Rightarrow> raise Se_crash
                | Some n \<Rightarrow>
                    if n \<le> 0 then ret ()
                    else save_findings V [item_finding item b n])))"

definition RetryFailed :: "scan_env \<Rightarrow> scanner \<Rightarrow> nat \<Rightarrow> unit scanp" where
  "RetryFailed V s limit =
     bindE (liftS (NextRetries (se_db V) limit)) (eachE (retry_one V s))"

end
