(* ===== verification/Scan_Safety.thy ===== *)
theory Scan_Safety
  imports Scanner
begin

text \<open>
  What a scan leaves behind: the results of a batch are in the store before the cursor of the
  run passes them, whatever fails.
\<close>

section \<open>What the operations of a batch keep\<close>

text \<open>
  \<open>told\<close>: the finding of a key holds a balance that one of the findings \<open>F\<close> reports for it.
  \<open>queued\<close>: the retry queue has a record of the key.
\<close>

definition told :: "env \<Rightarrow> positive_finding set \<Rightarrow> int \<times> string \<Rightarrow> db \<Rightarrow> bool" where
  "told E F k d \<longleftrightarrow>
     (\<exists>row. finding_at d k = Some row \<and>
        (\<exists>f \<in> F. fi_key f = k \<and> ev_numeric E (fi_balance f) = Some (pf_balance row)))"

definition queued :: "int \<times> string \<Rightarrow> db \<Rightarrow> bool" where
  "queued k d \<longleftrightarrow> retry_at d k \<noteq> None"

text \<open>The operations of a batch leave addresses and runs alone and forget nothing.\<close>

definition stable :: "env \<Rightarrow> positive_finding set \<Rightarrow> db \<Rightarrow> db \<Rightarrow> bool" where
  "stable E F d0 d \<longleftrightarrow>
     addresses d = addresses d0 \<and> runs d = runs d0 \<and>
     (\<forall>k. queued k d0 \<longrightarrow> queued k d) \<and> (\<forall>k. told E F k d0 \<longrightarrow> told E F k d)"

lemma stable_refl [simp]: "stable E F d d"
  by (simp add: stable_def)

lemma stable_told: "stable E F d d' \<Longrightarrow> told E F k d \<Longrightarrow> told E F k d'"
  unfolding stable_def by blast

lemma stable_queued: "stable E F d d' \<Longrightarrow> queued k d \<Longrightarrow> queued k d'"
  unfolding stable_def by blast

lemma told_cong: "findings d = findings d' \<Longrightarrow> told E F k d = told E F k d'"
  by (simp add: told_def finding_at_def)

lemma queued_cong: "retries d = retries d' \<Longrightarrow> queued k d = queued k d'"
  by (simp add: queued_def retry_at_def)

lemma told_mono: "told E F k d \<Longrightarrow> F \<subseteq> G \<Longrightarrow> told E G k d"
  by (auto simp: told_def)

lemma stable_cong:
  assumes "stable E F d0 d" and "addresses d' = addresses d" "runs d' = runs d"
    "findings d' = findings d" "retries d' = retries d"
  shows "stable E F d0 d'"
  using assms told_cong [of d' d E F] queued_cong [of d' d] by (simp add: stable_def)

lemma stable_tick: "stable E F d0 d \<Longrightarrow> stable E F d0 (d\<lparr>tick := n\<rparr>)"
  by (rule stable_cong) simp_all

lemma stable_tables: "tables d = tables d' \<Longrightarrow> stable E F d0 d \<Longrightarrow> stable E F d0 d'"
  by (rule stable_cong [of E F d0 d]) (simp_all add: tables_eq_iff)

lemma keeps_transact:
  assumes same: "\<And>d d'. tables d = tables d' \<Longrightarrow> I d \<Longrightarrow> I d'" and body: "\<And>now. keeps I (body now)"
  shows "keeps I (transact E mb mc body)"
proof (rule keepsI)
  fix d
  assume I: "I d"
  obtain r d1 where b: "body (ev_now E (tick d)) (d\<lparr>tick := Suc (tick d)\<rparr>) = (r, d1)" by fastforce
  have "I (d\<lparr>tick := n\<rparr>)" for n using same [OF _ I] by simp
  from keepsD_eq [OF body this b] have 1: "I d1" .
  have "I (d1\<lparr>tick := n\<rparr>)" "I (rollback d d1)" "I ((rollback d d1)\<lparr>tick := n\<rparr>)" for n
    using same [OF _ 1, of "d1\<lparr>tick := n\<rparr>"] same [OF _ I, of "rollback d d1"]
      same [OF _ I, of "(rollback d d1)\<lparr>tick := n\<rparr>"] by simp_all
  then show "I (snd (transact E mb mc body d))"
    using I same [OF _ I, of "d\<lparr>tick := Suc (tick d)\<rparr>"] b
    by (auto simp: transact_def Let_def split: fault.split sum.split)
qed

lemma update_finding_rows:
  "findings (snd (sql_update_finding E f now d)) = findings d \<or>
   (\<exists>b. ev_numeric E (fi_balance f) = Some b \<and>
      findings (snd (sql_update_finding E f now d)) =
        update_where (\<lambda>r. finding_key r = fi_key f)
          (\<lambda>r. r\<lparr>pf_balance := b, pf_symbol := fi_symbol f, pf_last_seen := now\<rparr>) (findings d))"
  by (cases "ev_numeric E (fi_balance f)") (simp_all add: sql_update_finding_def)

lemma stable_update_finding:
  assumes "f \<in> F"
  shows "keeps (stable E F d0) (sql_update_finding E f now)"
proof (rule keepsI)
  fix d
  assume s: "stable E F d0 d"
  let ?d' = "snd (sql_update_finding E f now d)"
  have "told E F k ?d'" if k: "told E F k d" for k
  proof (cases "k = fi_key f")
    case False
    then have "finding_at ?d' k = finding_at d k"
      using keepsD [OF keeps_finding_statements(2) [of k f "finding_at d k" E now] refl] by blast
    with k show ?thesis by (simp add: told_def)
  next
    case True
    with k obtain row where row: "row_of finding_key k (findings d) = Some row"
      by (auto simp: told_def finding_at_def)
    then have rk: "finding_key row = fi_key f" using row_of_key True by fastforce
    consider "findings ?d' = findings d" | b where "ev_numeric E (fi_balance f) = Some b"
      "findings ?d' = update_where (\<lambda>r. finding_key r = fi_key f)
         (\<lambda>r. r\<lparr>pf_balance := b, pf_symbol := fi_symbol f, pf_last_seen := now\<rparr>) (findings d)"
      using update_finding_rows by blast
    then show ?thesis
    proof cases
      case 1
      with k told_cong show ?thesis by blast
    next
      case 2
      with row rk True assms show ?thesis
        by (auto simp: told_def finding_at_def row_of_update_where)
    qed
  qed
  moreover have "retries ?d' = retries d" "addresses ?d' = addresses d" "runs ?d' = runs d"
    by (simp_all add: sql_update_finding_def split: option.split)
  ultimately show "stable E F d0 ?d'"
    using s queued_cong [of ?d' d] by (simp add: stable_def)
qed

lemma stable_insert_finding: "keeps (stable E F d0) (sql_insert_finding E f now)"
proof (rule keepsI)
  fix d
  assume s: "stable E F d0 d"
  let ?d' = "snd (sql_insert_finding E f now d)"
  have "told E F k ?d'" if k: "told E F k d" for k
  proof (cases "k = fi_key f")
    case False
    then have "finding_at ?d' k = finding_at d k"
      using keepsD [OF keeps_finding_statements(3) [of k f "finding_at d k" E now] refl] by blast
    with k show ?thesis by (simp add: told_def)
  next
    case True
    with k have "has_key finding_key (fi_key f) (findings d)"
      using row_of_None [of finding_key k "findings d"] by (auto simp: told_def finding_at_def)
    then have "findings ?d' = findings d"
      by (simp add: sql_insert_finding_def Let_def split: option.split)
    with k told_cong show ?thesis by blast
  qed
  moreover have "retries ?d' = retries d" "addresses ?d' = addresses d" "runs ?d' = runs d"
    by (simp_all add: sql_insert_finding_def Let_def split: option.split)
  ultimately show "stable E F d0 ?d'"
    using s queued_cong [of ?d' d] by (simp add: stable_def)
qed

lemma stable_reads: "(\<And>d. snd (p d) = d) \<Longrightarrow> keeps (stable E F d0) p"
  by (rule keeps_read)

lemma select_finding_reads: "snd (sql_select_finding f now d) = d"
  by (simp add: sql_select_finding_def split: option.split)

lemma stable_insert_event: "keeps (stable E F d0) (sql_insert_event a b c now)"
  by (rule keepsI, rule stable_cong, assumption) (simp_all add: sql_insert_event_def Let_def)

lemma stable_save_one: "f \<in> F \<Longrightarrow> keeps (stable E F d0) (save_one E now f)"
  unfolding save_one_def
  by (intro keeps stable_update_finding stable_insert_finding stable_tick
      stable_reads select_finding_reads) 

lemma stable_SavePositiveFindings:
  "set fs \<subseteq> F \<Longrightarrow> keeps (stable E F d0) (SavePositiveFindings E fs)"
  unfolding SavePositiveFindings_def Let_def
  by (intro keeps keeps_transact stable_save_one stable_insert_event stable_tick)
    (auto dest: stable_tables)

lemma stable_RecordRetry: "keeps (stable E F d0) (RecordRetry E' x)"
proof -
  have "keeps (stable E F d0) (sql_record_retry x now)" for now
  proof (rule keepsI)
    fix d
    assume s: "stable E F d0 d"
    let ?d' = "snd (sql_record_retry x now d)"
    have "queued k d \<Longrightarrow> queued k ?d'" for k
      by (simp add: queued_def retry_at_def sql_record_retry_def Let_def row_of_upsert)
    moreover have "findings ?d' = findings d" "addresses ?d' = addresses d" "runs ?d' = runs d"
      by (simp_all add: sql_record_retry_def Let_def)
    ultimately show "stable E F d0 ?d'"
      using s told_cong [of ?d' d E F] by (simp add: stable_def)
  qed
  then show ?thesis unfolding RecordRetry_def by (intro keeps stable_tick)
qed

lemma stable_CloseRetry: "keeps (stable E F d0) (CloseRetry E' a c)"
proof -
  have key: "retry_key (r\<lparr>rq_resolved := v\<rparr>) = retry_key r" for r v
    by (simp add: retry_key_def)
  have "keeps (stable E F d0) (sql_close_retry a c now)" for now
  proof (rule keepsI)
    fix d
    assume s: "stable E F d0 d"
    let ?d' = "snd (sql_close_retry a c now d)"
    have "queued k d \<Longrightarrow> queued k ?d'" for k
      by (simp add: queued_def retry_at_def sql_close_retry_def row_of_update_where key)
    moreover have "findings ?d' = findings d" "addresses ?d' = addresses d" "runs ?d' = runs d"
      by (simp_all add: sql_close_retry_def)
    ultimately show "stable E F d0 ?d'"
      using s told_cong [of ?d' d E F] by (simp add: stable_def)
  qed
  then show ?thesis unfolding CloseRetry_def by (intro keeps stable_tick)
qed

lemma stable_incident:
  "keeps (stable E F d0) (CreateNodeIncident E' a b c n)"
  "keeps (stable E F d0) (CreateNodeNotificationEvent E' i)"
proof -
  have i: "keeps (stable E F d0) (sql_insert_incident a b c n now)" for now
    by (rule keepsI, rule stable_cong, assumption) (simp_all add: sql_insert_incident_def Let_def)
  show "keeps (stable E F d0) (CreateNodeIncident E' a b c n)"
    unfolding CreateNodeIncident_def by (intro keeps stable_tick i)
  show "keeps (stable E F d0) (CreateNodeNotificationEvent E' i)"
    unfolding CreateNodeNotificationEvent_def by (intro keeps stable_tick stable_insert_event)
qed

lemma stable_Deliver: "keeps (stable E F d0) (Deliver E' w i)"
proof (rule keepsI)
  fix d
  assume s: "stable E F d0 d"
  have "only_event i d (snd (Deliver E' w i d))"
    by (rule keepsD [OF keeps_only_Deliver]) simp
  with s show "stable E F d0 (snd (Deliver E' w i d))"
    by (intro stable_cong [OF s]) (simp_all add: only_event_def)
qed

lemmas stable_ops = stable_SavePositiveFindings stable_RecordRetry stable_CloseRetry
  stable_incident stable_Deliver

section \<open>What a successful operation writes\<close>

lemma save_all_told:
  "mapE (save_one E now) fs d = (Inr rs, d') \<Longrightarrow> set fs \<subseteq> F \<Longrightarrow> f \<in> set fs \<Longrightarrow> told E F (fi_key f) d'"
proof (induction fs arbitrary: d rs)
  case (Cons g gs)
  then obtain i c b d1 qs where 1: "save_one E now g d = (Inr (i, c, b), d1)"
    and 2: "mapE (save_one E now) gs d1 = (Inr qs, d')"
    by (auto simp: bindE_eq_Inr)
  show ?case
  proof (cases "f \<in> set gs")
    case True
    with Cons.IH [OF 2] Cons.prems(2) show ?thesis by simp
  next
    case False
    then have f: "f = g" using Cons.prems(3) by simp
    have "told E F (fi_key f) d1"
      using save_one_spec [OF 1] Cons.prems(2) f by (auto simp: told_def stored_finding_def)
    moreover have "keeps (stable E F d1) (mapE (save_one E now) gs)"
      using Cons.prems(2) by (intro keeps_mapE stable_save_one) auto
    from keepsD_eq [OF this stable_refl 2] have "stable E F d1 d'" .
    ultimately show ?thesis by (rule stable_told [rotated])
  qed
qed simp

lemma SavePositiveFindings_told:
  assumes run: "SavePositiveFindings E fs d = (Inr r, d')" and "set fs \<subseteq> F" and "f \<in> set fs"
  shows "told E F (fi_key f) d'"
proof -
  from assms(3) have "fs \<noteq> []" by auto
  then obtain now rs d0 d1 d2 where m: "mapE (save_one E now) fs d0 = (Inr rs, d1)"
    and ev: "event_step now rs r d1 d2" and d2: "findings d' = findings d2"
    by (rule SavePositiveFindings_Inr [OF run])
  have "findings d' = findings d1" using event_step_findings [OF ev] d2 by simp
  with save_all_told [OF m assms(2,3)] told_cong show ?thesis by blast
qed

lemma RecordRetry_queued: "RecordRetry E x d = (Inr u, d') \<Longrightarrow> queued (ri_key x) d'"
  using rtr.put_stored [of E x d u d'] by (auto simp: queued_def)

section \<open>The results of a batch\<close>

text \<open>
  A result is \<open>recorded\<close> when its findings hold reported balances and every chain with an error
  is in the retry queue.
\<close>

definition reported :: "address_result list \<Rightarrow> positive_finding set" where
  "reported rs = (\<Union>r \<in> set rs. set (ar_findings r))"

definition recorded :: "env \<Rightarrow> address_result list \<Rightarrow> db \<Rightarrow> address_result \<Rightarrow> bool" where
  "recorded E rs d r \<longleftrightarrow>
     (\<forall>f \<in> set (ar_findings r). told E (reported rs) (fi_key f) d) \<and>
     (\<forall>e \<in> set (ar_errors r). queued (ad_id (ar_address r), sf_chain e) d)"

lemma recorded_stable: "recorded E rs d r \<Longrightarrow> stable E (reported rs) d d' \<Longrightarrow> recorded E rs d' r"
  unfolding recorded_def using stable_told stable_queued by blast

lemma recorded_more: "recorded E rs d r \<Longrightarrow> recorded E (rs @ ss) d r"
  unfolding recorded_def reported_def by (auto intro: told_mono)

text \<open>\<open>Q\<close> on the history of batches, and on the database.\<close>

definition during :: "address_result list \<Rightarrow> (db \<Rightarrow> bool) \<Rightarrow> scan_state \<Rightarrow> bool" where
  "during rs P st \<longleftrightarrow> ss_done st = rs \<and> P (ss_db st)"

lemma keeps_liftS [keeps]: "keeps P p \<Longrightarrow> keeps (during rs P) (liftS p)"
  by (auto simp: keeps_def during_def liftS_def split: prod.split sum.split)

lemma liftS_Inr: "liftS p st = (Inr x, st') \<longleftrightarrow> (\<exists>d. p (ss_db st) = (Inr x, d) \<and> st' = st\<lparr>ss_db := d\<rparr>)"
  by (auto simp: liftS_def split: prod.splits sum.splits)

lemma snd_liftS [simp]: "snd (liftS p st) = st\<lparr>ss_db := snd (p (ss_db st))\<rparr>"
  by (auto simp: liftS_def split: prod.split sum.split)

lemma during_refl: "during (ss_done st) (stable E F (ss_db st)) st"
  by (simp add: during_def)

lemma during_end:
  assumes "keeps (during (ss_done st) (stable E F (ss_db st))) p" and "p st = (r, st')"
  shows "stable E F (ss_db st) (ss_db st')" and "ss_done st' = ss_done st"
  using keepsD_eq [OF assms(1) during_refl assms(2)] by (simp_all add: during_def)

lemma keeps_notify: "(\<And>w. keeps P (Deliver (se_db V) w i)) \<Longrightarrow> keeps (during rs P) (notify V i)"
  unfolding notify_def by (intro keeps) simp_all

lemma keeps_save_findings:
  "set fs \<subseteq> F \<Longrightarrow> keeps (during rs (stable (se_db V) F d0)) (save_findings V fs)"
  unfolding save_findings_def by (intro keeps keeps_notify stable_ops) 

lemma keeps_scan_record: "keeps (during rs (stable E F d0)) (record_retry V s a c e p m)"
  unfolding record_retry_def by (intro keeps stable_ops)

lemma keeps_store_failure: "keeps (during rs (stable E F d0)) (store_failure V s a f)"
  unfolding store_failure_def by (intro keeps keeps_scan_record stable_ops)

lemma keeps_store_alert: "keeps (during rs (stable E F d0)) (store_alert V n)"
  unfolding store_alert_def by (intro keeps keeps_notify stable_ops)

lemma keeps_store_result:
  "set (ar_findings r) \<subseteq> F \<Longrightarrow> keeps (during rs (stable (se_db V) F d0)) (store_result V s r)"
  unfolding store_result_def
  by (intro keeps keeps_store_failure keeps_store_alert keeps_save_findings)

lemma keeps_store_results:
  "reported rs \<subseteq> F \<Longrightarrow> keeps (during D (stable (se_db V) F d0)) (store_results V s rs t)"
  by (induction rs arbitrary: t)
    (auto intro!: keeps keeps_store_result simp: reported_def)

lemma store_failure_queued:
  assumes "store_failure V s a f st = (Inr u, st')"
  shows "queued (ad_id a, sf_chain f) (ss_db st')"
proof -
  obtain d1 x where r: "RecordRetry (se_db V) x (ss_db st) = (Inr (), d1)" "ri_key x = (ad_id a, sf_chain f)"
    and rest: "(if sf_code f = ''invalid_address''
      then liftS (CloseRetry (se_db V) (ad_id a) (sf_chain f)) else ret ()) (st\<lparr>ss_db := d1\<rparr>) = (Inr u, st')"
    using assms by (auto simp: store_failure_def record_retry_def bindE_eq_Inr liftS_Inr ri_key_def)
  have q: "queued (ad_id a, sf_chain f) d1" using RecordRetry_queued [OF r(1)] r(2) by simp
  have "stable (se_db V) {} d1 (snd (CloseRetry (se_db V) (ad_id a) (sf_chain f) d1))"
    by (rule keepsD [OF stable_CloseRetry]) simp
  then have "stable (se_db V) {} d1 (ss_db st')"
    using rest by (auto simp: liftS_Inr split: if_splits)
  with q show ?thesis by (rule stable_queued [rotated])
qed

lemma each_queued:
  "eachE (store_failure V s a) es st = (Inr u, st') \<Longrightarrow> e \<in> set es \<Longrightarrow> queued (ad_id a, sf_chain e) (ss_db st')"
proof (induction es arbitrary: st)
  case (Cons f es)
  then obtain st1 where 1: "store_failure V s a f st = (Inr (), st1)"
    and 2: "eachE (store_failure V s a) es st1 = (Inr u, st')"
    by (auto simp: bindE_eq_Inr)
  have "keeps (during (ss_done st1) (stable (se_db V) {} (ss_db st1))) (eachE (store_failure V s a) es)"
    by (intro keeps keeps_store_failure)
  from during_end(1) [OF this 2] have "stable (se_db V) {} (ss_db st1) (ss_db st')" .
  from stable_queued [OF this store_failure_queued [OF 1]] Cons.IH [OF 2] Cons.prems(2)
  show ?case by auto
qed simp

lemma save_findings_told:
  assumes "save_findings V fs st = (Inr u, st')" and "set fs \<subseteq> F" and "f \<in> set fs"
  shows "told (se_db V) F (fi_key f) (ss_db st')"
proof -
  obtain r st1 where s1: "liftS (SavePositiveFindings (se_db V) fs) st = (Inr r, st1)"
    and 2: "(case r of None \<Rightarrow> ret () | Some i \<Rightarrow> notify V i) st1 = (Inr u, st')"
    using assms(1) unfolding save_findings_def bindE_eq_Inr by blast
  from s1 have 1: "SavePositiveFindings (se_db V) fs (ss_db st) = (Inr r, ss_db st1)"
    by (auto simp: liftS_Inr)
  have "keeps (during (ss_done st1) (stable (se_db V) F (ss_db st1))) (case r of None \<Rightarrow> ret () | Some i \<Rightarrow> notify V i)"
    by (intro keeps keeps_notify stable_ops)
  from during_end(1) [OF this 2] have "stable (se_db V) F (ss_db st1) (ss_db st')" .
  from stable_told [OF this SavePositiveFindings_told [OF 1 assms(2,3)]] show ?thesis .
qed

lemma store_result_recorded:
  assumes run: "store_result V s r st = (Inr u, st')" and sub: "set (ar_findings r) \<subseteq> reported D"
  shows "recorded (se_db V) D (ss_db st') r"
proof -
  obtain st1 st2 where 1: "eachE (store_failure V s (ar_address r)) (ar_errors r) st = (Inr (), st1)"
    and 2: "eachE (store_alert V) (ar_alerts r) st1 = (Inr (), st2)"
    and 3: "save_findings V (ar_findings r) st2 = (Inr u, st')"
    using run by (auto simp: store_result_def bindE_eq_Inr)
  let ?rest = "bindE (eachE (store_alert V) (ar_alerts r)) (\<lambda>_. save_findings V (ar_findings r))"
  have "keeps (during (ss_done st1) (stable (se_db V) (reported D) (ss_db st1))) ?rest"
    using sub by (intro keeps keeps_store_alert keeps_save_findings)
  moreover have "?rest st1 = (Inr u, st')" using 2 3 by (simp add: bindE_Inr)
  ultimately have "stable (se_db V) (reported D) (ss_db st1) (ss_db st')"
    using during_end(1) by blast
  then show ?thesis
    unfolding recorded_def using stable_queued each_queued [OF 1] save_findings_told [OF 3 sub] by blast
qed

lemma store_results_recorded:
  "store_results V s rs t st = (Inr t', st') \<Longrightarrow> reported rs \<subseteq> reported D \<Longrightarrow> r \<in> set rs \<Longrightarrow>
    recorded (se_db V) D (ss_db st') r"
proof (induction rs arbitrary: t st)
  case (Cons q rs)
  then obtain st1 where 1: "store_result V s q st = (Inr (), st1)"
    and 2: "store_results V s rs (count_result q t) st1 = (Inr t', st')"
    by (auto simp: bindE_eq_Inr)
  have sub: "reported rs \<subseteq> reported D" "set (ar_findings q) \<subseteq> reported D"
    using Cons.prems(2) by (auto simp: reported_def)
  show ?case
  proof (cases "r \<in> set rs")
    case True
    with Cons.IH [OF 2 sub(1)] show ?thesis by simp
  next
    case False
    with Cons.prems(3) have "r = q" by simp
    moreover have "stable (se_db V) (reported D) (ss_db st1) (ss_db st')"
      by (rule during_end(1) [OF keeps_store_results [OF sub(1)] 2])
    ultimately show ?thesis
      using recorded_stable [OF store_result_recorded [OF 1 sub(2)]] by simp
  qed
qed simp

end
