(* ===== verification/Scan_Checkpoint.thy ===== *)
theory Scan_Checkpoint
  imports Scan_Safety
begin

text \<open>
  The cursor of a scan run: it never passes an address whose results are not in the store, and
  a scan that reports success has covered its whole range.
\<close>

section \<open>The row of a run\<close>

definition run_at :: "db \<Rightarrow> uuid \<Rightarrow> run_row option" where
  "run_at d u = row_of (run_id \<circ> rr_run) u (runs d)"

lemma run_at_tick [simp]: "run_at (d\<lparr>tick := n\<rparr>) u = run_at d u"
  by (simp add: run_at_def)

lemma run_at_cong: "runs d = runs d' \<Longrightarrow> run_at d = run_at d'"
  by (simp add: run_at_def fun_eq_iff)

lemma run_at_id: "run_at d u = Some q \<Longrightarrow> run_id (rr_run q) = u"
  using row_of_key [of "run_id \<circ> rr_run" u "runs d" q] by (simp add: run_at_def)

text \<open>An \<^verbatim>\<open>UPDATE\<close> of the run \<open>u\<close>, whatever happens to the round trip.\<close>

definition same_but_runs :: "db \<Rightarrow> db \<Rightarrow> bool" where
  "same_but_runs d d' \<longleftrightarrow>
     addresses d' = addresses d \<and> findings d' = findings d \<and> retries d' = retries d"

lemma sql_update_run_at:
  assumes "\<And>now r. run_id (rr_run (f now r)) = run_id (rr_run r)"
    and "sql_update_run u st f now d = (r, d')"
  shows "same_but_runs d d'"
    and "run_at d' k = run_at d k \<or> k = u \<and>
      run_at d' u = map_option (\<lambda>r. if run_status (rr_run r) = st then f now r else r) (run_at d u)"
proof -
  let ?P = "\<lambda>r. run_id (rr_run r) = u \<and> run_status (rr_run r) = st"
  have d': "d' = d \<or> d' = d\<lparr>runs := update_where ?P (f now) (runs d)\<rparr>"
    using assms(2) by (auto simp: sql_update_run_def Let_def split: if_splits)
  then show "same_but_runs d d'" by (auto simp: same_but_runs_def)
  have "run_at (d\<lparr>runs := update_where ?P (f now) (runs d)\<rparr>) k =
      map_option (\<lambda>r. if ?P r then f now r else r) (run_at d k)"
    unfolding run_at_def by simp (rule row_of_update_where, simp add: assms)
  also have "\<dots> = (if k = u then map_option (\<lambda>r. if run_status (rr_run r) = st then f now r else r) (run_at d u)
      else run_at d k)"
    using run_at_id [of d k] by (cases "run_at d k") auto
  finally show "run_at d' k = run_at d k \<or> k = u \<and>
      run_at d' u = map_option (\<lambda>r. if run_status (rr_run r) = st then f now r else r) (run_at d u)"
    using d' by (auto split: if_splits)
qed

lemma update_run_at:
  assumes f: "\<And>now r. run_id (rr_run (f now r)) = run_id (rr_run r)"
    and d': "d' = snd (exec E (sql_update_run u st f) d)"
  shows "same_but_runs d d'" and "k \<noteq> u \<Longrightarrow> run_at d' k = run_at d k"
    and "run_at d' u = run_at d u \<or>
      (\<exists>now. run_at d' u = map_option (\<lambda>r. if run_status (rr_run r) = st then f now r else r) (run_at d u))"
proof -
  let ?now = "ev_now E (tick d)"
  let ?d = "d\<lparr>tick := Suc (tick d)\<rparr>"
  obtain r d1 where 1: "sql_update_run u st f ?now ?d = (r, d1)" by fastforce
  have "d' = snd (sql_update_run u st f ?now ?d) \<or> d' = ?d"
    unfolding d' by (rule snd_exec)
  then have d': "d' = d1 \<or> d' = ?d" by (simp add: 1)
  note up = sql_update_run_at [of f, OF f 1]
  have "same_but_runs d d1" using up(1) by (simp add: same_but_runs_def)
  with d' show "same_but_runs d d'" by (auto simp: same_but_runs_def)
  show "k \<noteq> u \<Longrightarrow> run_at d' k = run_at d k" using up(2) d' by auto
  show "run_at d' u = run_at d u \<or>
      (\<exists>now. run_at d' u = map_option (\<lambda>r. if run_status (rr_run r) = st then f now r else r) (run_at d u))"
    using up(2) [of u] d' by auto
qed

lemma update_run_done:
  assumes "\<And>now r. run_id (rr_run (f now r)) = run_id (rr_run r)"
    and "exec E (sql_update_run u st f) d = (Inr x, d')" and "run_at d u = Some q"
    and "run_status (rr_run q) = st"
  shows "run_at d' u = Some (f (ev_now E (tick d)) q)"
proof -
  let ?P = "\<lambda>r. run_id (rr_run r) = u \<and> run_status (rr_run r) = st"
  let ?now = "ev_now E (tick d)"
  have "runs d' = update_where ?P (f ?now) (runs d)"
    using assms(2) by (auto simp: exec_Inr sql_update_run_def Let_def split: if_splits)
  moreover have "row_of (run_id \<circ> rr_run) u (update_where ?P (f ?now) (runs d)) =
      map_option (\<lambda>r. if ?P r then f ?now r else r) (row_of (run_id \<circ> rr_run) u (runs d))"
    by (rule row_of_update_where) (simp add: assms)
  ultimately show ?thesis
    using assms(3,4) run_at_id [OF assms(3)] by (simp add: run_at_def)
qed

section \<open>Addresses that are covered\<close>

definition covered ::
  "scan_env \<Rightarrow> scanner \<Rightarrow> wallet_row list \<Rightarrow> int \<Rightarrow> int \<Rightarrow> address_result list \<Rightarrow> db \<Rightarrow> bool" where
  "covered V s A lo hi rs d \<longleftrightarrow>
     (\<forall>a \<in> set A. lo < wa_id a \<and> wa_id a \<le> hi \<longrightarrow>
        (\<exists>r \<in> set rs. ar_address r = to_address a \<and> explained s r \<and> recorded (se_db V) rs d r))"

lemma covered_stable:
  assumes "covered V s A lo hi rs d" and "stable (se_db V) (reported rs) d d'"
  shows "covered V s A lo hi rs d'"
  using assms recorded_stable unfolding covered_def by blast

lemma covered_more: "covered V s A lo hi rs d \<Longrightarrow> covered V s A lo hi (rs @ ss) d"
  unfolding covered_def using recorded_more by fastforce

lemma covered_same: "covered V s A lo hi rs d \<Longrightarrow> same_but_runs d d' \<Longrightarrow> covered V s A lo hi rs d'"
  using told_cong [of d' d] queued_cong [of d' d]
  by (simp add: covered_def recorded_def same_but_runs_def)

lemma covered_empty: "covered V s A lo lo rs d"
  by (auto simp: covered_def)

text \<open>
  How far a run has got: to its cursor, or, once it is completed, to the end of its range (a
  scan with batches of no address completes every run at once).
\<close>

definition reach :: "scanner \<Rightarrow> scan_run \<Rightarrow> int" where
  "reach s r = (if run_status r = ''completed'' \<and> 1 \<le> sc_batch (sn_config s) then run_end r else run_cursor r)"

text \<open>
  The checkpoint: the addresses are those of \<open>A\<close>, and all of them between the first cursor
  \<open>lo\<close> of the run \<open>u\<close> and where it has got to are covered; no other run has changed.
\<close>

definition checkpoint ::
  "scan_env \<Rightarrow> scanner \<Rightarrow> db \<Rightarrow> uuid \<Rightarrow> int \<Rightarrow> scan_state \<Rightarrow> bool" where
  "checkpoint V s d0 u lo st \<longleftrightarrow>
     addresses (ss_db st) = addresses d0 \<and> (\<forall>k. k \<noteq> u \<longrightarrow> run_at (ss_db st) k = run_at d0 k) \<and>
     (\<forall>q. run_at (ss_db st) u = Some q \<longrightarrow>
        covered V s (addresses d0) lo (reach s (rr_run q)) (ss_done st) (ss_db st))"

lemma checkpoint_stable:
  assumes "checkpoint V s d0 u lo st" and "stable (se_db V) (reported (ss_done st)) (ss_db st) (ss_db st')"
    and "ss_done st' = ss_done st"
  shows "checkpoint V s d0 u lo st'"
proof -
  have "run_at (ss_db st') = run_at (ss_db st)" "addresses (ss_db st') = addresses (ss_db st)"
    using assms(2) by (auto simp: stable_def intro: run_at_cong)
  with assms covered_stable [OF _ assms(2)] show ?thesis by (simp add: checkpoint_def)
qed

text \<open>An update of the row of the run leaves its reach, or moves it to a covered place.\<close>

lemma checkpoint_update:
  assumes c: "checkpoint V s d0 u lo st" and f: "\<And>now r. run_id (rr_run (f now r)) = run_id (rr_run r)"
    and d': "ss_db st' = snd (exec E (sql_update_run u status f) (ss_db st))" and h: "ss_done st' = ss_done st"
    and moves: "\<And>now r. run_at (ss_db st) u = Some r \<Longrightarrow> run_status (rr_run r) = status \<Longrightarrow>
      reach s (rr_run (f now r)) = reach s (rr_run r) \<or>
      covered V s (addresses d0) lo (reach s (rr_run (f now r))) (ss_done st) (ss_db st)"
  shows "checkpoint V s d0 u lo st'"
proof -
  note up = update_run_at [of f, OF f d']
  have "covered V s (addresses d0) lo (reach s (rr_run q)) (ss_done st') (ss_db st')"
    if "run_at (ss_db st') u = Some q" for q
  proof -
    have "\<exists>p now. run_at (ss_db st) u = Some p \<and> (q = p \<or> run_status (rr_run p) = status \<and> q = f now p)"
    proof (cases "run_at (ss_db st) u")
      case None
      with up(3) that show ?thesis by auto
    next
      case (Some p)
      with up(3) that show ?thesis by (auto split: if_splits)
    qed
    then obtain p now where "run_at (ss_db st) u = Some p"
      "q = p \<or> run_status (rr_run p) = status \<and> q = f now p" by blast
    then have "covered V s (addresses d0) lo (reach s (rr_run q)) (ss_done st) (ss_db st)"
      using c moves [of p now] by (auto simp: checkpoint_def)
    with covered_same up(1) h show ?thesis by simp
  qed
  with c up show ?thesis by (simp add: checkpoint_def same_but_runs_def)
qed

section \<open>One round\<close>

lemma NextAddresses_batch:
  assumes "db_ok d" and "NextAddresses E run n d = (Inr as, d')"
  shows "as = map to_address (take n (filter (\<lambda>r. run_cursor run < wa_id r \<and> wa_id r \<le> run_end run) (addresses d)))"
proof -
  have "sorted_wrt (<) (map wa_id (addresses d))"
    using assms(1) by (simp add: db_ok_def addresses_ok_def)
  from select_sorted_id [OF this] assms(2) show ?thesis
    by (auto simp: NextAddresses_def fetch_Inr exec_Inr sql_next_addresses_def)
qed

lemma stable_NextAddresses: "keeps (stable E F d0) (NextAddresses E' run n)"
proof -
  have "snd (sql_next_addresses run n now d) = d" for now d by (simp add: sql_next_addresses_def)
  then show ?thesis unfolding NextAddresses_def by (intro keeps stable_reads stable_tick)
qed

lemma take_sorted:
  fixes f :: "'a \<Rightarrow> int"
  assumes "sorted_wrt (<) (map f xs)" and "x \<in> set xs" and "take n xs \<noteq> []"
    and "f x \<le> f (last (take n xs))"
  shows "x \<in> set (take n xs)"
proof (rule ccontr)
  assume "x \<notin> set (take n xs)"
  then have x: "x \<in> set (drop n xs)" using assms(2) by (metis Un_iff append_take_drop_id set_append)
  have "sorted_wrt (<) (map f (take n xs) @ map f (drop n xs))"
    using assms(1) by (metis append_take_drop_id map_append)
  with x last_in_set [OF assms(3)] have "f (last (take n xs)) < f x"
    by (auto simp: sorted_wrt_append)
  with assms(4) show False by simp
qed

text \<open>A batch holds every address between the cursor and its own last address.\<close>

lemma batch_complete:
  assumes d: "db_ok d" and as: "as = map to_address (take n (filter
      (\<lambda>r. run_cursor run < wa_id r \<and> wa_id r \<le> run_end run) (addresses d)))"
  shows "distinct as"
    and "as \<noteq> [] \<Longrightarrow> a \<in> set (addresses d) \<Longrightarrow> run_cursor run < wa_id a \<Longrightarrow> wa_id a \<le> ad_id (last as) \<Longrightarrow>
      to_address a \<in> set as"
    and "as \<noteq> [] \<Longrightarrow> run_cursor run < ad_id (last as) \<and> ad_id (last as) \<le> run_end run"
    and "as = [] \<Longrightarrow> 1 \<le> n \<Longrightarrow> a \<in> set (addresses d) \<Longrightarrow> run_cursor run < wa_id a \<Longrightarrow> run_end run < wa_id a"
proof -
  define xs where "xs = filter (\<lambda>r. run_cursor run < wa_id r \<and> wa_id r \<le> run_end run) (addresses d)"
  have as: "as = map to_address (take n xs)" by (simp only: as xs_def)
  have in_xs: "x \<in> set xs \<longleftrightarrow> x \<in> set (addresses d) \<and> run_cursor run < wa_id x \<and> wa_id x \<le> run_end run" for x
    by (auto simp: xs_def)
  have "sorted_wrt (<) (map wa_id (addresses d))"
    using d by (simp add: db_ok_def addresses_ok_def)
  then have s: "sorted_wrt (<) (map wa_id xs)"
    by (simp add: sorted_wrt_map sorted_wrt_filter xs_def)
  have "map ad_id as = map wa_id (take n xs)" by (simp add: as to_address_def)
  moreover have "distinct (map wa_id (take n xs))"
    using s by (metis take_map distinct_take strict_sorted_iff)
  ultimately show "distinct as" by (metis distinct_map)
  have last: "take n xs \<noteq> [] \<and> ad_id (last as) = wa_id (last (take n xs))" if "as \<noteq> []"
    using that by (simp add: as last_map to_address_def)
  show range: "run_cursor run < ad_id (last as) \<and> ad_id (last as) \<le> run_end run" if "as \<noteq> []"
  proof -
    have "last (take n xs) \<in> set xs" using last [OF that] last_in_set in_set_takeD by metis
    with last [OF that] in_xs show ?thesis by simp
  qed
  show "to_address a \<in> set as"
    if "as \<noteq> []" "a \<in> set (addresses d)" "run_cursor run < wa_id a" "wa_id a \<le> ad_id (last as)"
  proof -
    have "a \<in> set xs" using that range in_xs by auto
    from take_sorted [OF s this] last [OF that(1)] that(4) show ?thesis by (simp add: as)
  qed
  show "run_end run < wa_id a"
    if "as = []" "1 \<le> n" "a \<in> set (addresses d)" "run_cursor run < wa_id a"
  proof -
    have "xs = []" using that(1,2) by (simp add: as)
    then have "a \<notin> set xs" by simp
    with in_xs [of a] that(3,4) show ?thesis by simp
  qed
qed

text \<open>The round after its batch is known: the pool, the store, and the end of the round.\<close>

definition valid_schedules :: "scan_env \<Rightarrow> bool" where
  "valid_schedules V \<longleftrightarrow> (\<forall>k. list_all valid_choice (se_schedule V k))"

lemma pool_batch_done:
  assumes "valid_schedules V" and "distinct as" and "pool_batch V s as st = (Inr rs, st')"
  shows "ss_db st' = ss_db st" and "ss_done st' = ss_done st @ rs"
    and "a \<in> set as \<Longrightarrow> \<exists>r \<in> set rs. ar_address r = a \<and> explained s r"
proof -
  from assms(3) obtain h' where b: "processBatch s (se_schedule V (ss_round st)) (ss_health st)
      (se_cancelled V (ss_round st)) as = Some (rs, h')"
    and st': "st' = st\<lparr>ss_health := h', ss_round := Suc (ss_round st), ss_done := ss_done st @ rs\<rparr>"
    by (auto simp: pool_batch_def Let_def split: option.splits)
  show "ss_db st' = ss_db st" "ss_done st' = ss_done st @ rs" by (simp_all add: st')
  have "list_all valid_choice (se_schedule V (ss_round st))" using assms(1) by (simp add: valid_schedules_def)
  note p = processBatch_results [OF assms(2) this b]
  show "\<exists>r \<in> set rs. ar_address r = a \<and> explained s r" if "a \<in> set as"
  proof -
    have "a \<in> set (map ar_address rs)" using that p(1) by (metis set_mset_mset)
    with p(2) show ?thesis by auto
  qed
qed

lemma covered_batch:
  assumes old: "covered V s A lo (run_cursor run) rs d"
    and new: "\<forall>a \<in> set A. run_cursor run < wa_id a \<and> wa_id a \<le> hi \<longrightarrow>
      (\<exists>r \<in> set rs. ar_address r = to_address a \<and> explained s r \<and> recorded (se_db V) rs d r)"
  shows "covered V s A lo hi rs d"
  unfolding covered_def
proof (intro ballI impI)
  fix a
  assume a: "a \<in> set A" "lo < wa_id a \<and> wa_id a \<le> hi"
  show "\<exists>r \<in> set rs. ar_address r = to_address a \<and> explained s r \<and> recorded (se_db V) rs d r"
  proof (cases "wa_id a \<le> run_cursor run")
    case True
    with old a show ?thesis by (simp add: covered_def)
  next
    case False
    with new a show ?thesis by simp
  qed
qed

text \<open>The row of the run as the loop knows it.\<close>

definition live :: "db \<Rightarrow> scan_run \<Rightarrow> string \<Rightarrow> bool" where
  "live d run status \<longleftrightarrow>
     (\<exists>q. run_at d (run_id run) = Some q \<and> run_status (rr_run q) = status \<and>
        run_end (rr_run q) = run_end run \<and> run_cursor (rr_run q) = run_cursor run)"

lemma live_stable: "live d run status \<Longrightarrow> stable E F d d' \<Longrightarrow> live d' run status"
  by (simp add: live_def stable_def run_at_cong [of d' d])

lemma run_updates [simp]:
  "run_cursor (rr_run (set_run_status st r)) = run_cursor (rr_run r)"
  "run_end (rr_run (set_run_status st r)) = run_end (rr_run r)"
  "run_status (rr_run (set_run_status st r)) = st"
  "run_cursor (rr_run (advance_run c p e s f r)) = c"
  "run_end (rr_run (advance_run c p e s f r)) = run_end (rr_run r)"
  "run_status (rr_run (advance_run c p e s f r)) = run_status (rr_run r)"
  by (simp_all add: set_run_status_def advance_run_def)

text \<open>The row that an update of a live run writes, when it reports success.\<close>

lemma update_live:
  assumes "live d run status" and "\<And>now r. run_id (rr_run (f now r)) = run_id (rr_run r)"
    and "exec E (sql_update_run (run_id run) status f) d = (Inr x, d')"
  shows "\<exists>q now. run_at d (run_id run) = Some q \<and> run_at d' (run_id run) = Some (f now q) \<and>
    run_end (rr_run q) = run_end run \<and> run_cursor (rr_run q) = run_cursor run \<and> run_status (rr_run q) = status"
  using assms(1) update_run_done [OF assms(2,3)] by (fastforce simp: live_def)

lemma checkpoint_Complete:
  assumes c: "checkpoint V s d0 (run_id run) lo st" and l: "live (ss_db st) run ''running''"
    and run: "liftS (CompleteScan (se_db V) (run_id run)) st = (r, st')"
    and cov: "1 \<le> sc_batch (sn_config s) \<Longrightarrow> covered V s (addresses d0) lo (run_end run) (ss_done st) (ss_db st)"
  shows "checkpoint V s d0 (run_id run) lo st'"
    and "1 \<le> sc_batch (sn_config s) \<Longrightarrow> covered V s (addresses d0) lo (run_end run) (ss_done st') (ss_db st')"
    and "r = Inr () \<Longrightarrow> live (ss_db st') run ''completed''"
proof -
  let ?f = "\<lambda>now r. (set_run_status ''completed'' r)\<lparr>rr_completed := Some now\<rparr>"
  have st': "st' = st\<lparr>ss_db := snd (CompleteScan (se_db V) (run_id run) (ss_db st))\<rparr>"
    using run snd_liftS [of "CompleteScan (se_db V) (run_id run)" st] by (metis snd_conv)
  show "checkpoint V s d0 (run_id run) lo st'"
    by (rule checkpoint_update [OF c, of ?f _ "se_db V" "''running''"])
      (use l cov in \<open>auto simp: st' CompleteScan_def reach_def live_def\<close>)
  have "same_but_runs (ss_db st) (ss_db st')"
    by (rule update_run_at(1) [of ?f, where E = "se_db V" and u = "run_id run" and st = "''running''"])
      (simp_all add: st' CompleteScan_def)
  with covered_same [OF cov] st'
  show "1 \<le> sc_batch (sn_config s) \<Longrightarrow> covered V s (addresses d0) lo (run_end run) (ss_done st') (ss_db st')"
    by simp
  assume "r = Inr ()"
  with run have "exec (se_db V) (sql_update_run (run_id run) ''running'' ?f) (ss_db st) = (Inr (), ss_db st')"
    by (auto simp: liftS_Inr CompleteScan_def)
  from update_live [OF l _ this] show "live (ss_db st') run ''completed''" by (auto simp: live_def)
qed

lemma checkpoint_Pause:
  assumes c: "checkpoint V s d0 (run_id run) lo st" and l: "live (ss_db st) run ''running''"
    and run: "liftS (PauseScan (se_db V) (run_id run)) st = (r, st')"
  shows "checkpoint V s d0 (run_id run) lo st'" and "r = Inr () \<Longrightarrow> live (ss_db st') run ''paused''"
proof -
  let ?f = "\<lambda>now :: int. set_run_status ''paused''"
  have st': "st' = st\<lparr>ss_db := snd (PauseScan (se_db V) (run_id run) (ss_db st))\<rparr>"
    using run snd_liftS [of "PauseScan (se_db V) (run_id run)" st] by (metis snd_conv)
  show "checkpoint V s d0 (run_id run) lo st'"
    by (rule checkpoint_update [OF c, of ?f _ "se_db V" "''running''"])
      (simp_all add: st' PauseScan_def reach_def)
  assume "r = Inr ()"
  with run have "exec (se_db V) (sql_update_run (run_id run) ''running'' ?f) (ss_db st) = (Inr (), ss_db st')"
    by (auto simp: liftS_Inr PauseScan_def)
  from update_live [OF l _ this] show "live (ss_db st') run ''paused''" by (auto simp: live_def)
qed

lemma checkpoint_Advance:
  assumes c: "checkpoint V s d0 (run_id run) lo st" and l: "live (ss_db st) run ''running''"
    and run: "liftS (AdvanceScan (se_db V) (run_id run) cur p e n f) st = (r, st')"
    and cov: "covered V s (addresses d0) lo cur (ss_done st) (ss_db st)"
  shows "checkpoint V s d0 (run_id run) lo st'"
    and "covered V s (addresses d0) lo cur (ss_done st') (ss_db st')"
    and "r = Inr () \<Longrightarrow> live (ss_db st') (run\<lparr>run_cursor := cur\<rparr>) ''running''"
proof -
  let ?f = "\<lambda>now :: int. advance_run cur p e n f"
  have st': "st' = st\<lparr>ss_db := snd (exec (se_db V) (sql_update_run (run_id run) ''running'' ?f) (ss_db st))\<rparr>"
    using run snd_liftS [of "AdvanceScan (se_db V) (run_id run) cur p e n f" st]
    by (metis AdvanceScan_def snd_conv snd_wrapD)
  show "checkpoint V s d0 (run_id run) lo st'"
    by (rule checkpoint_update [OF c, of ?f _ "se_db V" "''running''"])
      (simp_all add: st' cov reach_def)
  have "same_but_runs (ss_db st) (ss_db st')"
    by (rule update_run_at(1) [of ?f, where E = "se_db V" and u = "run_id run" and st = "''running''"])
      (simp_all add: st')
  with covered_same [OF cov] st' show "covered V s (addresses d0) lo cur (ss_done st') (ss_db st')" by simp
  assume "r = Inr ()"
  with run have "exec (se_db V) (sql_update_run (run_id run) ''running'' ?f) (ss_db st) = (Inr (), ss_db st')"
    by (auto simp: liftS_Inr AdvanceScan_def)
  from update_live [OF l _ this] show "live (ss_db st') (run\<lparr>run_cursor := cur\<rparr>) ''running''"
    by (auto simp: live_def)
qed

text \<open>What a round keeps, and what it reaches.\<close>

definition round_ok ::
  "scan_env \<Rightarrow> scanner \<Rightarrow> db \<Rightarrow> int \<Rightarrow> scan_run \<Rightarrow> scan_state \<Rightarrow> bool" where
  "round_ok V s d0 lo run st \<longleftrightarrow>
     db_ok (ss_db st) \<and> live (ss_db st) run ''running'' \<and> checkpoint V s d0 (run_id run) lo st \<and>
     covered V s (addresses d0) lo (run_cursor run) (ss_done st) (ss_db st)"

lemma round_ok_stable:
  assumes "round_ok V s d0 lo run st" and "stable (se_db V) (reported (ss_done st)) (ss_db st) (ss_db st')"
    and "ss_done st' = ss_done st" and "db_ok (ss_db st')"
  shows "round_ok V s d0 lo run st'"
  using assms checkpoint_stable [OF _ assms(2,3)] covered_stable [OF _ assms(2)] live_stable [OF _ assms(2)]
  by (simp add: round_ok_def)

text \<open>The scanner's programs keep the constraints of the schema.\<close>

definition sane :: "scan_state \<Rightarrow> bool" where
  "sane st \<longleftrightarrow> db_ok (ss_db st)"

lemma sane_liftS [keeps]: "good p \<Longrightarrow> keeps sane (liftS p)"
  by (simp add: keeps_def sane_def goodD)

lemma sane_notify [keeps]: "keeps sane (notify V i)"
  unfolding notify_def by (intro keeps good_rules good_Deliver)

lemma sane_record_retry [keeps]: "keeps sane (record_retry V s a c e p m)"
  unfolding record_retry_def by (intro keeps good_rules)

lemma sane_save_findings [keeps]: "keeps sane (save_findings V fs)"
  unfolding save_findings_def by (intro keeps good_rules)

lemma sane_pool_batch [keeps]: "keeps sane (pool_batch V s as)"
  by (simp add: keeps_def sane_def pool_batch_def Let_def split: option.split)

lemma sane_store_results [keeps]: "keeps sane (store_results V s rs t)"
  by (induction rs arbitrary: t)
    (auto simp: store_result_def store_failure_def store_alert_def intro!: keeps good_rules)

lemma sane_run_round [keeps]: "keeps sane (run_round V s run)"
  unfolding run_round_def Let_def by (intro keeps good_rules)

text \<open>Only a pause is reported as a pause.\<close>

definition never_paused :: "'a scanp \<Rightarrow> bool" where
  "never_paused p \<longleftrightarrow> (\<forall>st c st'. p st \<noteq> (Inl (Se_paused c), st'))"

lemma never_paused_rules:
  "never_paused (ret x)" "never_paused (getE f)" "never_paused (liftS q)"
  "never_paused p \<Longrightarrow> (\<And>y. never_paused (k y)) \<Longrightarrow> never_paused (bindE p k)"
  "never_paused p1 \<Longrightarrow> never_paused p2 \<Longrightarrow> never_paused (if b then p1 else p2)"
  "never_paused p1 \<Longrightarrow> (\<And>y. never_paused (k y)) \<Longrightarrow> never_paused (case v of None \<Rightarrow> p1 | Some y \<Rightarrow> k y)"
  by (auto simp: never_paused_def liftS_def bindE_eq_Inl split: prod.splits sum.splits option.splits)

lemma never_paused_each: "(\<And>y. never_paused (k y)) \<Longrightarrow> never_paused (eachE k xs)"
  by (induction xs) (auto intro: never_paused_rules)

lemma never_paused_store: "never_paused (store_results V s rs t)"
  by (induction rs arbitrary: t)
    (auto simp: store_result_def store_failure_def store_alert_def record_retry_def save_findings_def
      notify_def intro!: never_paused_rules never_paused_each)

lemma store_results_not_paused: "store_results V s rs t st \<noteq> (Inl (Se_paused c), st')"
  using never_paused_store by (simp add: never_paused_def)

lemma round_read:
  assumes ok: "round_ok V s d0 lo run st" and n: "liftS (NextAddresses (se_db V) run n) st = (r, st1)"
  shows "round_ok V s d0 lo run st1"
proof -
  note e = during_end [OF keeps_liftS [OF stable_NextAddresses] n]
  have "sane st" using ok by (simp add: round_ok_def sane_def)
  from keepsD_eq [OF sane_liftS this n] have "db_ok (ss_db st1)" by (auto simp: sane_def intro: good_rules)
  with round_ok_stable [OF ok e] show ?thesis by simp
qed

lemma pooled_batch:
  assumes ok: "round_ok V s d0 lo run st" and v: "valid_schedules V"
    and next': "liftS (NextAddresses (se_db V) run n) st = (Inr as, st1)"
    and pool: "pool_batch V s as st1 = (Inr rs, st2)"
  shows "round_ok V s d0 lo run st2" and "ss_done st2 = ss_done st @ rs"
    and "a \<in> set as \<Longrightarrow> \<exists>r \<in> set rs. ar_address r = a \<and> explained s r"
proof -
  have db: "db_ok (ss_db st)" using ok by (simp add: round_ok_def)
  have "NextAddresses (se_db V) run n (ss_db st) = (Inr as, ss_db st1)"
    using next' by (auto simp: liftS_Inr)
  note p = pool_batch_done [OF v batch_complete(1) [OF db NextAddresses_batch [OF db this]] pool]
  note r1 = round_read [OF ok next']
  have "ss_done st1 = ss_done st"
    using during_end [OF keeps_liftS [OF stable_NextAddresses] next'] by blast
  with p(2) show "ss_done st2 = ss_done st @ rs" by simp
  show "a \<in> set as \<Longrightarrow> \<exists>r \<in> set rs. ar_address r = a \<and> explained s r" by (rule p(3))
  show "round_ok V s d0 lo run st2"
    using r1 p(1,2) covered_more by (simp add: round_ok_def checkpoint_def)
qed

lemma stored_batch:
  assumes ok: "round_ok V s d0 lo run st" and v: "valid_schedules V"
    and next': "liftS (NextAddresses (se_db V) run n) st = (Inr as, st1)" and as: "as \<noteq> []"
    and pool: "pool_batch V s as st1 = (Inr rs, st2)" and store: "store_results V s rs t0 st2 = (r, st3)"
  shows "round_ok V s d0 lo run st3"
    and "r = Inr t \<Longrightarrow> covered V s (addresses d0) lo (ad_id (last as)) (ss_done st3) (ss_db st3)"
proof -
  note p = pooled_batch [OF ok v next' pool]
  have sub: "reported rs \<subseteq> reported (ss_done st2)" by (auto simp: p(2) reported_def)
  note e = during_end [OF keeps_store_results [OF sub] store]
  have "sane st2" using p(1) by (simp add: round_ok_def sane_def)
  from keepsD_eq [OF sane_store_results this store] round_ok_stable [OF p(1) e]
  show ok3: "round_ok V s d0 lo run st3" by (simp add: sane_def)
  assume r: "r = Inr t"
  have db: "db_ok (ss_db st)" and c: "addresses (ss_db st) = addresses d0"
    using ok by (simp_all add: round_ok_def checkpoint_def)
  have "NextAddresses (se_db V) run n (ss_db st) = (Inr as, ss_db st1)"
    using next' by (auto simp: liftS_Inr)
  note b = batch_complete(2) [OF db NextAddresses_batch [OF db this] as]
  have "\<exists>x \<in> set (ss_done st3). ar_address x = to_address a \<and> explained s x \<and>
      recorded (se_db V) (ss_done st3) (ss_db st3) x"
    if "a \<in> set (addresses d0)" "run_cursor run < wa_id a" "wa_id a \<le> ad_id (last as)" for a
  proof -
    from p(3) b that c obtain x where x: "x \<in> set rs" "ar_address x = to_address a" "explained s x" by metis
    have "recorded (se_db V) (ss_done st2) (ss_db st3) x"
      using store_results_recorded [OF _ sub x(1)] store r by simp
    with x e(2) p(2) show ?thesis by auto
  qed
  with covered_batch ok3 show "covered V s (addresses d0) lo (ad_id (last as)) (ss_done st3) (ss_db st3)"
    unfolding round_ok_def by blast
qed

text \<open>The ways a round can go.\<close>

lemma run_round_cases:
  assumes "run_round V s run st = (r, st')"
  obtains (read) e where "liftS (NextAddresses (se_db V) run (sc_batch (sn_config s))) st = (Inl e, st')"
      "r = Inl e"
    | (complete) st1 q where "liftS (NextAddresses (se_db V) run (sc_batch (sn_config s))) st = (Inr [], st1)"
      "liftS (CompleteScan (se_db V) (run_id run)) st1 = (q, st')"
      "r = (case q of Inl e \<Rightarrow> Inl e | Inr _ \<Rightarrow> Inr None)"
    | (pool) as st1 e where "liftS (NextAddresses (se_db V) run (sc_batch (sn_config s))) st = (Inr as, st1)"
      "pool_batch V s as st1 = (Inl e, st')" "r = Inl e"
    | (stored) as st1 rs st2 q st3 where
      "liftS (NextAddresses (se_db V) run (sc_batch (sn_config s))) st = (Inr as, st1)" "as \<noteq> []"
      "pool_batch V s as st1 = (Inr rs, st2)" "store_results V s rs zero_tally st2 = (q, st3)"
      "(case q of
          Inl e \<Rightarrow> (Inl e, st3)
        | Inr t \<Rightarrow>
            (if ta_pause t
             then bindE (liftS (PauseScan (se_db V) (run_id run))) (\<lambda>_. raise (Se_paused (run_cursor run))) st3
             else bindE (liftS (AdvanceScan (se_db V) (run_id run) (ad_id (last as)) (ta_processed t)
               (ta_empty t) (ta_positive t) (ta_failures t))) (\<lambda>_. ret (Some (run\<lparr>run_cursor := ad_id (last as)\<rparr>))) st3))
       = (r, st')"
proof (cases "liftS (NextAddresses (se_db V) run (sc_batch (sn_config s))) st")
  case n: (Pair q1 st1)
  show thesis
  proof (cases q1)
    case (Inl e)
    with assms n read show thesis by (simp add: run_round_def bindE_Inl)
  next
    case as: (Inr as)
    show thesis
    proof (cases "as = []")
      case True
      obtain q st2 where c: "liftS (CompleteScan (se_db V) (run_id run)) st1 = (q, st2)" by fastforce
      with assms n True as have "r = (case q of Inl e \<Rightarrow> Inl e | Inr _ \<Rightarrow> Inr None)" "st' = st2"
        by (auto simp: run_round_def bindE_def split: sum.splits)
      with complete n True as c show thesis by simp
    next
      case False
      obtain q2 st2 where b: "pool_batch V s as st1 = (q2, st2)" by fastforce
      show thesis
      proof (cases q2)
        case (Inl e)
        with assms n False as b pool show thesis by (simp add: run_round_def bindE_def)
      next
        case (Inr rs)
        obtain q st3 where "store_results V s rs zero_tally st2 = (q, st3)" by fastforce
        with assms n False as b Inr show thesis
          by (intro stored [of as st1 rs st2 q st3])
            (auto simp: run_round_def bindE_Inr bindE_Inl Let_def split: sum.splits)
      qed
    qed
  qed
qed

text \<open>What a round leaves behind, by its outcome.\<close>

definition round_end ::
  "scan_env \<Rightarrow> scanner \<Rightarrow> db \<Rightarrow> int \<Rightarrow> scan_run \<Rightarrow> scan_error + scan_run option \<Rightarrow> scan_state \<Rightarrow> bool" where
  "round_end V s d0 lo run r st \<longleftrightarrow>
     checkpoint V s d0 (run_id run) lo st \<and>
     (case r of
        Inr (Some run') \<Rightarrow> round_ok V s d0 lo run' st \<and> run_id run' = run_id run \<and> run_end run' = run_end run
      | Inr None \<Rightarrow>
          (1 \<le> sc_batch (sn_config s) \<longrightarrow> covered V s (addresses d0) lo (run_end run) (ss_done st) (ss_db st)) \<and>
          live (ss_db st) run ''completed''
      | Inl e \<Rightarrow> \<forall>c. e = Se_paused c \<longrightarrow> c = run_cursor run \<and> live (ss_db st) run ''paused'')"

lemma not_paused: "liftS p st = (Inl e, st') \<Longrightarrow> e \<noteq> Se_paused c" "pool_batch V s as st = (Inl e, st') \<Longrightarrow> e \<noteq> Se_paused c"
  by (auto simp: liftS_def pool_batch_def Let_def split: prod.splits sum.splits option.splits)

lemma round_end_failed:
  "checkpoint V s d0 (run_id run) lo st \<Longrightarrow> (\<And>c. e \<noteq> Se_paused c) \<Longrightarrow> round_end V s d0 lo run (Inl e) st"
  by (simp add: round_end_def)

text \<open>An empty batch: the range is covered, and the run ends.\<close>

lemma round_complete:
  assumes ok: "round_ok V s d0 lo run st"
    and n: "liftS (NextAddresses (se_db V) run (sc_batch (sn_config s))) st = (Inr [], st1)"
    and c: "liftS (CompleteScan (se_db V) (run_id run)) st1 = (q, st')"
  shows "round_end V s d0 lo run (case q of Inl e \<Rightarrow> Inl e | Inr _ \<Rightarrow> Inr None) st'"
proof -
  have db: "db_ok (ss_db st)" and cp: "checkpoint V s d0 (run_id run) lo st" using ok by (simp_all add: round_ok_def)
  have ok1: "checkpoint V s d0 (run_id run) lo st1" "live (ss_db st1) run ''running''"
      "covered V s (addresses d0) lo (run_cursor run) (ss_done st1) (ss_db st1)"
    using round_read [OF ok n] by (simp_all add: round_ok_def)
  have d1: "NextAddresses (se_db V) run (sc_batch (sn_config s)) (ss_db st) = (Inr [], ss_db st1)"
    using n by (auto simp: liftS_Inr)
  have "covered V s (addresses d0) lo (run_end run) (ss_done st1) (ss_db st1)" if "1 \<le> sc_batch (sn_config s)"
    by (rule covered_batch [OF ok1(3)])
      (use batch_complete(4) [OF db NextAddresses_batch [OF db d1] refl that] cp in \<open>force simp: checkpoint_def\<close>)
  from checkpoint_Complete [OF ok1(1,2) c this] not_paused(1) [of _ st1 _ st'] c show ?thesis
    by (cases q) (auto simp: round_end_def)
qed

text \<open>A batch whose results are stored.\<close>

lemma round_pause:
  assumes ok: "round_ok V s d0 lo run st3"
    and p: "bindE (liftS (PauseScan (se_db V) (run_id run))) (\<lambda>_. raise (Se_paused (run_cursor run))) st3 = (r, st')"
  shows "round_end V s d0 lo run r st'"
proof -
  have cp: "checkpoint V s d0 (run_id run) lo st3" and l: "live (ss_db st3) run ''running''"
    using ok by (simp_all add: round_ok_def)
  obtain q st4 where p4: "liftS (PauseScan (se_db V) (run_id run)) st3 = (q, st4)" by fastforce
  with p have "r = (case q of Inl e \<Rightarrow> Inl e | Inr _ \<Rightarrow> Inl (Se_paused (run_cursor run)))" "st' = st4"
    by (auto simp: bindE_def split: sum.splits)
  then show ?thesis
    using checkpoint_Pause [OF cp l p4] not_paused(1) [of _ st3 _ st4] p4
    by (auto simp: round_end_def split: sum.splits)
qed

lemma round_advance:
  assumes ok: "round_ok V s d0 lo run st3"
    and cov: "covered V s (addresses d0) lo c (ss_done st3) (ss_db st3)"
    and a: "bindE (liftS (AdvanceScan (se_db V) (run_id run) c k e n f)) (\<lambda>_. ret (Some (run\<lparr>run_cursor := c\<rparr>))) st3 = (r, st')"
    and db: "db_ok (ss_db st')"
  shows "round_end V s d0 lo run r st'"
proof -
  have cp: "checkpoint V s d0 (run_id run) lo st3" and l: "live (ss_db st3) run ''running''"
    using ok by (simp_all add: round_ok_def)
  obtain q st4 where a4: "liftS (AdvanceScan (se_db V) (run_id run) c k e n f) st3 = (q, st4)" by fastforce
  with a have "r = (case q of Inl e \<Rightarrow> Inl e | Inr _ \<Rightarrow> Inr (Some (run\<lparr>run_cursor := c\<rparr>)))" "st' = st4"
    by (auto simp: bindE_def split: sum.splits)
  then show ?thesis
    using checkpoint_Advance [OF cp l a4 cov] not_paused(1) [of _ st3 _ st4] a4 db
    by (auto simp: round_end_def round_ok_def split: sum.splits)
qed

lemma run_round_ok:
  assumes ok: "round_ok V s d0 lo run st" and v: "valid_schedules V"
    and run: "run_round V s run st = (r, st')"
  shows "round_end V s d0 lo run r st'"
  using run
proof (cases rule: run_round_cases)
  case (read e)
  with round_read [OF ok read(1)] not_paused(1) [OF read(1)] show ?thesis
    by (simp add: round_ok_def round_end_failed)
next
  case (complete st1 q)
  with round_complete [OF ok] show ?thesis by blast
next
  case (pool as st1 e)
  then have "st' = st1" by (auto simp: pool_batch_def Let_def split: option.splits)
  with pool round_read [OF ok pool(1)] not_paused(2) [OF pool(2)] show ?thesis
    by (simp add: round_ok_def round_end_failed)
next
  case (stored as st1 rs st2 q st3)
  note sb = stored_batch [OF ok v stored(1-4)]
  have "sane st" using ok by (simp add: round_ok_def sane_def)
  from keepsD_eq [OF sane_run_round this run] have db': "db_ok (ss_db st')" by (simp add: sane_def)
  show ?thesis
  proof (cases q)
    case (Inl e)
    with stored sb(1) store_results_not_paused show ?thesis
      by (auto simp: round_ok_def intro: round_end_failed)
  next
    case (Inr t)
    with stored(5) round_pause [OF sb(1)] round_advance [OF sb(1) sb(2) [OF Inr] _ db'] show ?thesis
      by (auto split: if_splits)
  qed
qed

section \<open>The loop\<close>

definition loop_end ::
  "scan_env \<Rightarrow> scanner \<Rightarrow> db \<Rightarrow> int \<Rightarrow> scan_run \<Rightarrow> scan_error + unit \<Rightarrow> scan_state \<Rightarrow> bool" where
  "loop_end V s d0 lo run res st \<longleftrightarrow>
     checkpoint V s d0 (run_id run) lo st \<and>
     (case res of
        Inr _ \<Rightarrow>
          (1 \<le> sc_batch (sn_config s) \<longrightarrow> covered V s (addresses d0) lo (run_end run) (ss_done st) (ss_db st)) \<and>
          (\<exists>q. run_at (ss_db st) (run_id run) = Some q \<and> run_status (rr_run q) = ''completed'' \<and>
             run_end (rr_run q) = run_end run)
      | Inl e \<Rightarrow> \<forall>c. e = Se_paused c \<longrightarrow>
          (\<exists>q. run_at (ss_db st) (run_id run) = Some q \<and> run_status (rr_run q) = ''paused'' \<and>
             run_cursor (rr_run q) = c))"

lemma scan_loop_ok:
  assumes "round_ok V s d0 lo run st" and "valid_schedules V" and "scan_loop n V s run st = Some (res, st')"
  shows "loop_end V s d0 lo run res st'"
  using assms(1,3)
proof (induction n arbitrary: run st)
  case (Suc n)
  obtain r st1 where r: "run_round V s run st = (r, st1)" by fastforce
  note e = run_round_ok [OF Suc.prems(1) assms(2) r]
  show ?case
  proof (cases "\<exists>run'. r = Inr (Some run')")
    case True
    then obtain run' where r': "r = Inr (Some run')" by blast
    with Suc.prems(2) r have "scan_loop n V s run' st1 = Some (res, st')" by simp
    from Suc.IH [OF _ this] e r' show ?thesis
      by (cases res) (simp_all add: round_end_def loop_end_def)
  next
    case False
    with Suc.prems(2) r e show ?thesis
      by (auto simp: round_end_def loop_end_def live_def split: sum.splits option.splits)
  qed
qed simp

end
