(* ===== verification/Scan_Theorems.thy ===== *)
theory Scan_Theorems
  imports Scan_Checkpoint
begin

text \<open>
  \<^verbatim>\<open>RunOnce\<close> as a whole: the choice of the run, and the theorems on the scan.
\<close>

section \<open>Choosing the run\<close>

definition active :: "run_row \<Rightarrow> bool" where
  "active q \<longleftrightarrow> run_status (rr_run q) = ''running'' \<or> run_status (rr_run q) = ''paused''"

definition last_end :: "db \<Rightarrow> int" where
  "last_end d =
     (case sql_max (map (run_end \<circ> rr_run) (filter (\<lambda>r. run_status (rr_run r) = ''completed'') (runs d))) of
        None \<Rightarrow> 0 | Some k \<Rightarrow> k)"

text \<open>
  Where the scan of a run starts: where the run has got to, or, for a run that is not there yet,
  after the ranges of the completed ones.
\<close>

definition cursor_before :: "scanner \<Rightarrow> db \<Rightarrow> uuid \<Rightarrow> int" where
  "cursor_before s d u = (case run_at d u of None \<Rightarrow> last_end d | Some p \<Rightarrow> reach s (rr_run p))"

definition gap_free :: "scanner \<Rightarrow> db \<Rightarrow> uuid \<Rightarrow> int \<Rightarrow> bool" where
  "gap_free s d u c \<longleftrightarrow> (\<forall>a \<in> set (addresses d). \<not> (cursor_before s d u < wa_id a \<and> wa_id a \<le> c))"

text \<open>Nothing to scan: no active run, and no address past the completed ones.\<close>

definition nothing_to_scan :: "db \<Rightarrow> bool" where
  "nothing_to_scan d \<longleftrightarrow>
     (\<forall>q \<in> set (runs d). \<not> active q) \<and> (\<forall>a \<in> set (addresses d). wa_id a \<le> last_end d)"

lemma run_reads:
  "snd (sql_active_scan now d) = d" "snd (sql_last_end now d) = d" "snd (sql_range_after k now d) = d"
  by (simp_all add: sql_active_scan_def sql_last_end_def sql_range_after_def Let_def split: list.split)

lemma at_tick_ActiveScan: "keeps (at_tick d0) (ActiveScan E)"
  unfolding ActiveScan_def by (intro keeps keeps_read at_tick_step run_reads)

lemma at_tick_UnscannedRange: "keeps (at_tick d0) (UnscannedRange E)"
  unfolding UnscannedRange_def by (intro keeps keeps_read at_tick_step run_reads)

lemma sort_key_Nil: "sort_key f xs = [] \<Longrightarrow> xs = []"
  by (drule arg_cong [where f = length]) simp

lemma ActiveScan_result:
  assumes "ActiveScan E d = (Inr r, d')"
  shows "case r of None \<Rightarrow> \<forall>q \<in> set (runs d). \<not> active q
    | Some run \<Rightarrow> \<exists>q \<in> set (runs d). rr_run q = run \<and> active q"
proof -
  let ?sel = "select_sorted rr_started (\<lambda>r. run_status (rr_run r) = ''running'' \<or>
      run_status (rr_run r) = ''paused'') 1 (runs d)"
  have set: "set ?sel \<subseteq> {q \<in> set (runs d). active q}"
    by (auto simp: select_sorted_def active_def dest: in_set_takeD)
  have none: "\<forall>q \<in> set (runs d). \<not> active q" if "?sel = []"
  proof -
    let ?act = "filter (\<lambda>r. run_status (rr_run r) = ''running'' \<or> run_status (rr_run r) = ''paused'') (runs d)"
    from that have "sort_key rr_started ?act = []" by (simp add: select_sorted_def)
    then have "?act = []" by (rule sort_key_Nil)
    then show ?thesis by (auto simp: active_def filter_empty_conv)
  qed
  show ?thesis
  proof (cases ?sel)
    case Nil
    with assms have "r = None"
      by (auto simp: ActiveScan_def handleE_def bindE_def exec_def exec_at_def sql_active_scan_def Let_def
          split: fault.splits if_splits)
    with none Nil show ?thesis by simp
  next
    case (Cons q qs)
    with assms have "r = Some (rr_run q)"
      by (auto simp: ActiveScan_def handleE_def bindE_def exec_def exec_at_def sql_active_scan_def Let_def
          split: fault.splits if_splits)
    moreover have "q \<in> set (runs d)" "active q" using set Cons by auto
    ultimately show ?thesis by auto
  qed
qed

lemma UnscannedRange_None:
  assumes "UnscannedRange E d = (Inr None, d')" and "a \<in> set (addresses d)"
  shows "wa_id a \<le> last_end d"
proof -
  obtain ids where "to_range (sql_min ids, sql_max ids) = None"
    and ids: "ids = filter (\<lambda>i. i > last_end d) (map wa_id (addresses d))"
    using assms(1)
    by (auto simp: UnscannedRange_def bindE_eq_Inr exec_Inr sql_last_end_def sql_range_after_def Let_def
        last_end_def)
  then have "ids = []" by (auto simp: to_range_def sql_min_def sql_max_def split: if_splits)
  with ids assms(2) show ?thesis by (force simp: filter_empty_conv)
qed

lemma UnscannedRange_Some:
  assumes "UnscannedRange E d = (Inr (Some (lo, hi)), d')" and "a \<in> set (addresses d)"
    and "last_end d < wa_id a"
  shows "lo \<le> wa_id a"
proof -
  obtain ids where r: "to_range (sql_min ids, sql_max ids) = Some (lo, hi)"
    and ids: "ids = filter (\<lambda>i. i > last_end d) (map wa_id (addresses d))"
    using assms(1)
    by (auto simp: UnscannedRange_def bindE_eq_Inr exec_Inr sql_last_end_def sql_range_after_def Let_def
        last_end_def)
  have "wa_id a \<in> set ids" using ids assms(2,3) by simp
  moreover have "lo = Min (set ids)"
    using r by (auto simp: to_range_def sql_min_Min split: if_splits option.splits)
  ultimately show ?thesis by simp
qed

lemma sql_insert_run_rows:
  assumes "sql_insert_run x now d = (r, d')"
  shows "addresses d' = addresses d" and "runs d' = runs d \<and> r \<noteq> Inr () \<or>
    run_at d (run_id x) = None \<and> runs d' = runs d @ [\<lparr>rr_run = x, rr_started = now, rr_completed = None\<rparr>]"
  using assms row_of_None [of "run_id \<circ> rr_run" "run_id x" "runs d"]
  by (auto simp: sql_insert_run_def run_at_def split: if_splits)

lemma exec_insert_run_rows:
  assumes "exec E (sql_insert_run x) d = (r, d')"
  obtains now where "addresses d' = addresses d"
    and "runs d' = runs d \<and> r \<noteq> Inr () \<or>
      run_at d (run_id x) = None \<and> runs d' = runs d @ [\<lparr>rr_run = x, rr_started = now, rr_completed = None\<rparr>]"
proof -
  let ?now = "ev_now E (tick d)"
  let ?d = "d\<lparr>tick := Suc (tick d)\<rparr>"
  obtain r2 d2 where q: "sql_insert_run x ?now ?d = (r2, d2)" by fastforce
  from assms q have "r = r2 \<and> d' = d2 \<or> r \<noteq> Inr () \<and> (d' = d2 \<or> d' = ?d)"
    by (auto simp: exec_def exec_at_def Let_def split: fault.splits if_splits)
  with sql_insert_run_rows [OF q] that [of ?now] show thesis by auto
qed

lemma CreateScan_rows:
  assumes run: "CreateScan E u a b d = (r, d')"
  shows "addresses d' = addresses d"
    and "run_at d' k = run_at d k \<or>
      k = u \<and> run_at d u = None \<and> (\<exists>q. run_at d' u = Some q \<and> run_cursor (rr_run q) = a - 1 \<and>
        run_status (rr_run q) = ''running'' \<and> run_end (rr_run q) = b)"
    and "r = Inr x \<Longrightarrow> run_id x = u \<and> live d' x ''running'' \<and> run_status x = ''running'' \<and> run_end x = b"
proof -
  let ?run = "\<lparr>run_id = u, run_start = a, run_end = b, run_cursor = a - 1, run_status = ''running'',
      run_processed = 0, run_empty = 0, run_positive = 0, run_errors = 0\<rparr>"
  let ?row = "\<lambda>now. \<lparr>rr_run = ?run, rr_started = now, rr_completed = None\<rparr>"
  obtain r1 d1 where e: "exec E (sql_insert_run ?run) d = (r1, d1)" by fastforce
  then have d': "d' = d1" and x: "r = Inr x \<Longrightarrow> r1 = Inr () \<and> x = ?run"
    using run by (auto simp: CreateScan_def Let_def bindE_def wrapD_def handleE_def split: sum.splits)
  from exec_insert_run_rows [OF e] obtain now where A: "addresses d' = addresses d" and
    rows: "runs d' = runs d \<and> r1 \<noteq> Inr () \<or> run_at d u = None \<and> runs d' = runs d @ [?row now]"
    unfolding d' by auto
  show "addresses d' = addresses d" by (rule A)
  have row: "run_at d' k = (if k = u then Some (?row now) else run_at d k)"
    if "run_at d u = None" "runs d' = runs d @ [?row now]" for k
    using that by (auto simp: run_at_def row_of_append split: option.split)
  show "run_at d' k = run_at d k \<or>
      k = u \<and> run_at d u = None \<and> (\<exists>q. run_at d' u = Some q \<and> run_cursor (rr_run q) = a - 1 \<and>
        run_status (rr_run q) = ''running'' \<and> run_end (rr_run q) = b)"
    using rows
  proof (elim conjE disjE)
    assume "runs d' = runs d"
    then show ?thesis by (simp add: run_at_def)
  qed (auto simp: row)
  assume "r = Inr x"
  with x rows have "x = ?run" "run_at d u = None" "runs d' = runs d @ [?row now]" by auto
  with row [of u] show "run_id x = u \<and> live d' x ''running'' \<and> run_status x = ''running'' \<and> run_end x = b"
    by (simp add: live_def)
qed

lemma gap_free_same:
  assumes "run_at d k = Some p" and "reach s (rr_run p) = c"
  shows "gap_free s d k c"
  using assms by (auto simp: gap_free_def cursor_before_def)

definition chosen :: "scanner \<Rightarrow> db \<Rightarrow> scan_error + scan_run option \<Rightarrow> db \<Rightarrow> bool" where
  "chosen s d res d1 \<longleftrightarrow>
     addresses d1 = addresses d \<and>
     (\<forall>k q. run_at d1 k = Some q \<longrightarrow> gap_free s d k (reach s (rr_run q))) \<and>
     (\<forall>r. res = Inr (Some r) \<longrightarrow> live d1 r ''running'') \<and>
     (res = Inr None \<longrightarrow> nothing_to_scan d \<and> tables d1 = tables d) \<and> (\<forall>c. res \<noteq> Inl (Se_paused c))"

lemma chosen_tick:
  assumes "\<And>r. res = Inr (Some r) \<Longrightarrow> live d r ''running''" and "res = Inr None \<Longrightarrow> nothing_to_scan d"
    and "\<And>c. res \<noteq> Inl (Se_paused c)"
  shows "chosen s d res (d\<lparr>tick := n\<rparr>)"
  using assms gap_free_same [of d] by (auto simp: chosen_def live_def)

lemma active_live:
  assumes "db_ok d" and "q \<in> set (runs d)" and "rr_run q = run" and "run_status run = status"
  shows "live d run status"
proof -
  have "distinct (map (run_id \<circ> rr_run) (runs d))" using assms(1) by (simp add: db_ok_def runs_ok_def)
  from row_of_Some [OF this] assms(2,3) have "run_at d (run_id run) = Some q"
    by (auto simp: run_at_def)
  with assms(3,4) show ?thesis by (simp add: live_def)
qed

lemma chosen_resume:
  assumes l: "live d run ''paused''" and r: "ResumeScan E (run_id run) (d\<lparr>tick := n\<rparr>) = (r, d')"
  shows "chosen s d (case r of Inl e \<Rightarrow> Inl (Se_db e) | Inr _ \<Rightarrow> Inr (Some (run\<lparr>run_status := ''running''\<rparr>))) d'"
proof -
  let ?f = "\<lambda>now :: int. set_run_status ''running''"
  have d': "d' = snd (exec E (sql_update_run (run_id run) ''paused'' ?f) (d\<lparr>tick := n\<rparr>))"
    using r by (simp add: ResumeScan_def)
  have keep: "run_id (rr_run (?f now q)) = run_id (rr_run q)" for now q by simp
  note up = update_run_at [of ?f, OF keep d']
  have "gap_free s d k (reach s (rr_run q))" if q: "run_at d' k = Some q" for k q
  proof (cases "k = run_id run")
    case False
    with up(2) [OF False] q gap_free_same [of d k q] show ?thesis by simp
  next
    case True
    from l obtain p where p: "run_at d k = Some p" "run_status (rr_run p) = ''paused''"
      using True by (auto simp: live_def)
    with up(3) q True have "q = p \<or> q = ?f 0 p" by auto
    then have "reach s (rr_run p) = reach s (rr_run q)" using p(2) by (auto simp: reach_def)
    with gap_free_same [OF p(1), of s] show ?thesis by metis
  qed
  moreover have "live d' (run\<lparr>run_status := ''running''\<rparr>) ''running''" if "r = Inr ()"
  proof -
    have e: "exec E (sql_update_run (run_id run) ''paused'' ?f) (d\<lparr>tick := n\<rparr>) = (Inr (), d')"
      using r that by (simp add: ResumeScan_def)
    have "live (d\<lparr>tick := n\<rparr>) run ''paused''" using l by (simp add: live_def)
    from update_live [OF this keep e] show ?thesis by (auto simp: live_def)
  qed
  moreover have "addresses d' = addresses d" using up(1) by (simp add: same_but_runs_def)
  ultimately show ?thesis by (auto simp: chosen_def split: sum.split)
qed

lemma chosen_create:
  assumes r: "CreateScan E u lo hi (d\<lparr>tick := n\<rparr>) = (r, d')"
    and lo: "\<And>a. a \<in> set (addresses d) \<Longrightarrow> last_end d < wa_id a \<Longrightarrow> lo \<le> wa_id a"
  shows "chosen s d (case r of Inl e \<Rightarrow> Inl (Se_db e) | Inr run \<Rightarrow> Inr (Some run)) d'"
proof -
  note c = CreateScan_rows [OF r]
  have "gap_free s d k (reach s (rr_run q))" if q: "run_at d' k = Some q" for k q
    using c(2) [of k]
  proof (elim disjE conjE exE)
    assume "run_at d' k = run_at (d\<lparr>tick := n\<rparr>) k"
    with q gap_free_same [of d k q] show ?thesis by simp
  next
    fix p
    assume p: "k = u" "run_at (d\<lparr>tick := n\<rparr>) u = None" "run_at d' u = Some p"
      "run_cursor (rr_run p) = lo - 1" "run_status (rr_run p) = ''running''"
    then have "reach s (rr_run q) = lo - 1" using q by (simp add: reach_def)
    with p lo show ?thesis by (force simp: gap_free_def cursor_before_def)
  qed
  with c(1,3) show ?thesis by (auto simp: chosen_def split: sum.split)
qed

text \<open>The ways the choice of a run can go; \<open>n\<close> counts the round trips so far.\<close>

lemma choose_run_cases:
  assumes "choose_run V st = (res, st1)"
  obtains (failed) e n where "res = Inl e" "\<And>c. e \<noteq> Se_paused c" "st1 = st\<lparr>ss_db := (ss_db st)\<lparr>tick := n\<rparr>\<rparr>"
    | (idle) n m d1 where "ActiveScan (se_db V) (ss_db st) = (Inr None, (ss_db st)\<lparr>tick := n\<rparr>)"
      "UnscannedRange (se_db V) ((ss_db st)\<lparr>tick := n\<rparr>) = (Inr None, d1)"
      "res = Inr None" "st1 = st\<lparr>ss_db := (ss_db st)\<lparr>tick := m\<rparr>\<rparr>"
    | (create) lo hi n m r d1 where
      "UnscannedRange (se_db V) ((ss_db st)\<lparr>tick := n\<rparr>) = (Inr (Some (lo, hi)), (ss_db st)\<lparr>tick := m\<rparr>)"
      "CreateScan (se_db V) (se_uuid V m) lo hi ((ss_db st)\<lparr>tick := m\<rparr>) = (r, d1)"
      "res = (case r of Inl e \<Rightarrow> Inl (Se_db e) | Inr run \<Rightarrow> Inr (Some run))" "st1 = st\<lparr>ss_db := d1\<rparr>"
    | (continue) run n where "ActiveScan (se_db V) (ss_db st) = (Inr (Some run), (ss_db st)\<lparr>tick := n\<rparr>)"
      "run_status run \<noteq> ''paused''" "res = Inr (Some run)" "st1 = st\<lparr>ss_db := (ss_db st)\<lparr>tick := n\<rparr>\<rparr>"
    | (resume) run n r d1 where "ActiveScan (se_db V) (ss_db st) = (Inr (Some run), (ss_db st)\<lparr>tick := n\<rparr>)"
      "run_status run = ''paused''" "ResumeScan (se_db V) (run_id run) ((ss_db st)\<lparr>tick := n\<rparr>) = (r, d1)"
      "res = (case r of Inl e \<Rightarrow> Inl (Se_db e) | Inr _ \<Rightarrow> Inr (Some (run\<lparr>run_status := ''running''\<rparr>)))"
      "st1 = st\<lparr>ss_db := d1\<rparr>"
proof -
  obtain r a where a: "ActiveScan (se_db V) (ss_db st) = (r, a)" by fastforce
  from read_ends [OF at_tick_ActiveScan a] obtain n where n: "a = (ss_db st)\<lparr>tick := n\<rparr>" by blast
  obtain r2 b where b: "UnscannedRange (se_db V) a = (r2, b)" by fastforce
  from read_ends [OF at_tick_UnscannedRange b] n obtain m where m: "b = (ss_db st)\<lparr>tick := m\<rparr>" by auto
  show thesis
  proof (cases r)
    case (Inl e)
    with assms a n show thesis
      by (intro failed [of "Se_db e" n]) (simp_all add: choose_run_def bindE_def liftS_def)
  next
    case act: (Inr act)
    show thesis
    proof (cases act)
      case None
      show thesis
      proof (cases r2)
        case (Inl e)
        with assms a b m act None show thesis
          by (intro failed [of "Se_db e" m]) (simp_all add: choose_run_def bindE_def liftS_def)
      next
        case (Inr range)
        with assms a b n m act None idle [of n b m] create [of n "fst (the range)" "snd (the range)" m] show thesis
          by (cases range) (auto simp: choose_run_def bindE_def liftS_def split: prod.splits sum.splits)
      qed
    next
      case (Some run)
      with assms a n act continue [of run n] resume [of run n] show thesis
        by (cases "run_status run = ''paused''")
          (auto simp: choose_run_def bindE_def liftS_def split: prod.splits sum.splits)
    qed
  qed
qed

lemma choose_run_ok:
  assumes db: "db_ok (ss_db st)" and run: "choose_run V st = (res, st1)"
  shows "ss_done st1 = ss_done st \<and> chosen s (ss_db st) res (ss_db st1)"
  using run
proof (cases rule: choose_run_cases)
  case (failed e n)
  with chosen_tick [where res = res and d = "ss_db st" and n = n] show ?thesis by simp
next
  case (idle n m d1)
  have "nothing_to_scan (ss_db st)"
    using ActiveScan_result [OF idle(1)] UnscannedRange_None [OF idle(2)]
    by (simp add: nothing_to_scan_def last_end_def)
  with idle chosen_tick [where res = res and d = "ss_db st" and n = m] show ?thesis by auto
next
  case (create lo hi n m r d1)
  have "lo \<le> wa_id a" if "a \<in> set (addresses (ss_db st))" "last_end (ss_db st) < wa_id a" for a
    using UnscannedRange_Some [OF create(1)] that by (simp add: last_end_def)
  from chosen_create [OF create(2) this] create show ?thesis by simp
next
  case (continue run n)
  from ActiveScan_result [OF continue(1)] obtain q where
    q: "q \<in> set (runs (ss_db st))" "rr_run q = run" "active q" by auto
  with continue(2) active_live [OF db q(1,2)] have "live (ss_db st) run ''running''"
    by (auto simp: active_def)
  with continue chosen_tick [where res = res and d = "ss_db st" and n = n] show ?thesis by simp
next
  case (resume run n r d1)
  from ActiveScan_result [OF resume(1)] obtain q where q: "q \<in> set (runs (ss_db st))" "rr_run q = run" by auto
  from chosen_resume [OF active_live [OF db q resume(2)] resume(3)] resume show ?thesis by simp
qed

lemma sane_choose_run: "keeps sane (choose_run V)"
  unfolding choose_run_def by (intro keeps good_rules)

section \<open>Concrete scans\<close>

text \<open>
  One BTC address in an empty database, with one provider answer in one scan: 7 satoshi, or an
  error that is not temporary, with an outage threshold of one failure.
\<close>

definition scan_sample :: "go_error + balance \<Rightarrow> choice list \<Rightarrow> scan_env" where
  "scan_sample x rest =
     \<lparr>se_db = sample_env, se_clock = int, se_uuid = (\<lambda>k. k), se_notifier = None,
      se_schedule = (\<lambda>k. [Take 0, Act 0 (A_flag True), Act 0 (A_reply x), Act 0 A_go, Act 0 A_go,
        Act 0 A_go] @ rest),
      se_cancelled = (\<lambda>k. False), se_answers = (\<lambda>k. [])\<rparr>"

definition good_scan :: scan_env where
  "good_scan = scan_sample (Inr (pool_balance 7)) []"

definition bad_scan :: scan_env where
  "bad_scan = scan_sample (Inl (Other_error ''down'')) [Act 0 A_go, Act 0 A_go]"

definition scan_start :: "db \<Rightarrow> scan_state" where
  "scan_start d =
     \<lparr>ss_db = d, ss_health = NewHealthTracker 1, ss_round = 0, ss_done = [], ss_retried = []\<rparr>"

lemma scan_start_simps [simp]: "ss_db (scan_start d) = d" "ss_done (scan_start d) = []" "ss_retried (scan_start d) = []"
  by (simp_all add: scan_start_def)

lemma scan_samples_valid: "valid_schedules good_scan" "valid_schedules bad_scan"
  by (simp_all add: valid_schedules_def good_scan_def bad_scan_def scan_sample_def valid_choice_def
      valid_answer_def pool_balance_def)

lemma db_ok_reach: "db_ok d \<Longrightarrow> run_at d u = Some q \<Longrightarrow> run_cursor (rr_run q) \<le> reach s (rr_run q)"
  using row_of_key [of "run_id \<circ> rr_run" u "runs d" q]
  by (auto simp: db_ok_def runs_ok_def run_ok_def reach_def run_at_def)

text \<open>A scan works on one run or on none.\<close>

lemma RunOnce_cases:
  assumes "RunOnce n V s st = Some (res, st')"
  obtains (no_run) r where "choose_run V st = (r, st')" "\<And>run. r \<noteq> Inr (Some run)"
      "res = (case r of Inl e \<Rightarrow> Inl e | Inr _ \<Rightarrow> Inr ())"
    | (loop) run st1 where "choose_run V st = (Inr (Some run), st1)" "scan_loop n V s run st1 = Some (res, st')"
  using assms by (auto simp: RunOnce_def split: prod.splits sum.splits option.splits)

lemma sane_scan_loop: "sane st \<Longrightarrow> scan_loop n V s run st = Some (res, st') \<Longrightarrow> sane st'"
proof (induction n arbitrary: run st)
  case (Suc n)
  obtain r st1 where r: "run_round V s run st = (r, st1)" by fastforce
  have "sane st1" using keepsD_eq [OF sane_run_round Suc.prems(1) r] .
  with Suc r show ?case by (auto split: sum.splits option.splits)
qed simp

lemma scan_keeps_db_ok: "db_ok (ss_db st) \<Longrightarrow> RunOnce n V s st = Some (res, st') \<Longrightarrow> db_ok (ss_db st')"
proof (erule RunOnce_cases)
  fix r
  assume "db_ok (ss_db st)" and "choose_run V st = (r, st')"
  then show "db_ok (ss_db st')" using keepsD_eq [OF sane_choose_run] by (metis sane_def)
next
  fix run st1
  assume "db_ok (ss_db st)" and "choose_run V st = (Inr (Some run), st1)"
  then have "sane st1" using keepsD_eq [OF sane_choose_run] by (metis sane_def)
  then show "scan_loop n V s run st1 = Some (res, st') \<Longrightarrow> db_ok (ss_db st')"
    using sane_scan_loop by (metis sane_def)
qed

lemma good_scan_runs:
  "\<exists>st' q. RunOnce 2 good_scan pool_scanner (scan_start wallet_db) = Some (Inr (), st') \<and>
     run_at (ss_db st') 3 = Some q \<and> run_cursor (rr_run q) = 1 \<and> addresses (ss_db st') = [sample_wallet]"
proof -
  have "case RunOnce 2 good_scan pool_scanner (scan_start wallet_db) of
      Some (r, st') \<Rightarrow> r = Inr () \<and> (case run_at (ss_db st') 3 of None \<Rightarrow> False | Some q \<Rightarrow> run_cursor (rr_run q) = 1) \<and>
        addresses (ss_db st') = [sample_wallet]
    | _ \<Rightarrow> False"
    by code_simp
  then show ?thesis by (auto split: option.splits sum.splits)
qed

lemma bad_scan_runs:
  "\<exists>st'. RunOnce 2 bad_scan pool_scanner (scan_start wallet_db) = Some (Inl (Se_paused 0), st')"
proof -
  have "map_option fst (RunOnce 2 bad_scan pool_scanner (scan_start wallet_db)) = Some (Inl (Se_paused 0))"
    by code_simp
  then show ?thesis by auto
qed

section \<open>Theorems\<close>

lemma RunOnce_loop:
  assumes db: "db_ok (ss_db st)" and hist: "ss_done st = []" and v: "valid_schedules V"
    and c: "choose_run V st = (Inr (Some run), st1)"
  shows "round_ok V s (ss_db st1) (cursor_before s (ss_db st) (run_id run)) run st1"
proof -
  have ch: "ss_done st1 = []" "chosen s (ss_db st) (Inr (Some run)) (ss_db st1)"
    using choose_run_ok [OF db c] hist by simp_all
  then have l: "live (ss_db st1) run ''running''" by (simp add: chosen_def)
  have "db_ok (ss_db st1)" using keepsD_eq [OF sane_choose_run _ c] db by (simp add: sane_def)
  moreover have cov: "covered V s (addresses (ss_db st1)) (cursor_before s (ss_db st) (run_id run)) k rs d"
    if "gap_free s (ss_db st) (run_id run) k" for k rs d
    using that ch(2) by (auto simp: covered_def gap_free_def chosen_def)
  have "covered V s (addresses (ss_db st1)) (cursor_before s (ss_db st) (run_id run)) (reach s (rr_run q)) rs d"
    if "run_at (ss_db st1) (run_id run) = Some q" for q rs d
    using that ch(2) cov by (simp add: chosen_def)
  moreover obtain q0 where "run_at (ss_db st1) (run_id run) = Some q0" "reach s (rr_run q0) = run_cursor run"
    using l by (auto simp: live_def reach_def)
  ultimately show ?thesis using l unfolding round_ok_def checkpoint_def by metis
qed

lemma scan_addresses:
  assumes "db_ok (ss_db st)" and "ss_done st = []" and "valid_schedules V"
    and "RunOnce n V s st = Some (res, st')"
  shows "addresses (ss_db st') = addresses (ss_db st)"
  using assms(4)
proof (cases rule: RunOnce_cases)
  case (no_run r)
  with choose_run_ok [OF assms(1) no_run(1)] show ?thesis by (simp add: chosen_def)
next
  case (loop run st1)
  from scan_loop_ok [OF RunOnce_loop [OF assms(1-3) loop(1)] assms(3) loop(2)]
    choose_run_ok [OF assms(1) loop(1), of s]
  show ?thesis by (simp add: loop_end_def checkpoint_def chosen_def)
qed

text \<open>Whichever way a scan ends, what its runs have got past is covered.\<close>

lemma scan_covers:
  assumes "db_ok (ss_db st)" and "ss_done st = []" and "valid_schedules V"
    and "RunOnce n V s st = Some (res, st')"
    and "run_at (ss_db st') u = Some q" and "a \<in> set (addresses (ss_db st'))"
    and "cursor_before s (ss_db st) u < wa_id a" and "wa_id a \<le> reach s (rr_run q)"
  shows "\<exists>r \<in> set (ss_done st'). ar_address r = to_address a \<and> explained s r \<and>
    recorded (se_db V) (ss_done st') (ss_db st') r"
  using assms(4)
proof (cases rule: RunOnce_cases)
  case (no_run r)
  with choose_run_ok [OF assms(1) no_run(1), of s] assms(5-8) show ?thesis
    by (auto simp: chosen_def gap_free_def)
next
  case (loop run st1)
  have cp: "checkpoint V s (ss_db st1) (run_id run) (cursor_before s (ss_db st) (run_id run)) st'"
    using scan_loop_ok [OF RunOnce_loop [OF assms(1-3) loop(1)] assms(3) loop(2)]
    by (simp add: loop_end_def)
  show ?thesis
  proof (cases "u = run_id run")
    case True
    with cp assms(5-8) show ?thesis by (simp add: checkpoint_def covered_def)
  next
    case False
    with cp choose_run_ok [OF assms(1) loop(1), of s] assms(5-8) show ?thesis
      by (auto simp: checkpoint_def chosen_def gap_free_def)
  qed
qed

text \<open>
  C4: the checkpoint is safe. Whatever fails during a scan (a statement, the answer to a
  statement, a commit, a delivery, a provider, a pause, a cancellation), whenever a run has got
  past an address (with its cursor, or with its whole range once it is completed), that address
  was checked and its results are in the store:
  every reported positive balance has its finding, every chain without an answer is in the
  retry queue, and the result is accounted for by the answers of the providers. For a run the
  scan has created, this holds from the end of the completed ranges on, so nothing is skipped
  between two runs.
\<close>

theorem scan_checkpoint:
  assumes "db_ok (ss_db st)" and "ss_done st = []" and "valid_schedules V"
    and "RunOnce n V s st = Some (res, st')"
    and "run_at (ss_db st') u = Some q" and "a \<in> set (addresses (ss_db st'))"
    and "cursor_before s (ss_db st) u < wa_id a" and "wa_id a \<le> reach s (rr_run q)"
  shows "\<exists>r \<in> set (ss_done st'). ar_address r = to_address a \<and> explained s r \<and>
    recorded (se_db V) (ss_done st') (ss_db st') r"
  by (rule scan_covers [OF assms])

theorem scan_checkpoint_witness:
  "\<exists>st' r. RunOnce 2 good_scan pool_scanner (scan_start wallet_db) = Some (Inr (), st') \<and>
     r \<in> set (ss_done st') \<and> ar_address r = to_address sample_wallet \<and>
     recorded sample_env (ss_done st') (ss_db st') r"
proof -
  obtain st' q where run: "RunOnce 2 good_scan pool_scanner (scan_start wallet_db) = Some (Inr (), st')"
    and q: "run_at (ss_db st') 3 = Some q" "run_cursor (rr_run q) = 1" "addresses (ss_db st') = [sample_wallet]"
    using good_scan_runs by blast
  have "cursor_before pool_scanner wallet_db 3 = 0" by code_simp
  then have "\<exists>r \<in> set (ss_done st'). ar_address r = to_address sample_wallet \<and> explained pool_scanner r \<and>
      recorded (se_db good_scan) (ss_done st') (ss_db st') r"
    using db_ok_reach [OF scan_keeps_db_ok [OF _ run] q(1), of pool_scanner]
    by (intro scan_checkpoint [OF _ _ scan_samples_valid(1) run q(1)])
      (simp_all add: wallet_db_ok q sample_wallet_def)
  moreover have "se_db good_scan = sample_env" by (simp add: good_scan_def scan_sample_def)
  ultimately show ?thesis using run by auto
qed



text \<open>
  A scan that stops because a provider is unhealthy leaves its run paused with the cursor
  it reports, so that the batch in which the provider failed is scanned again.
\<close>

theorem scan_pause:
  assumes "db_ok (ss_db st)" and "ss_done st = []" and "valid_schedules V"
    and "RunOnce n V s st = Some (Inl (Se_paused c), st')"
  shows "\<exists>u q. run_at (ss_db st') u = Some q \<and> run_status (rr_run q) = ''paused'' \<and>
    run_cursor (rr_run q) = c"
  using assms(4)
proof (cases rule: RunOnce_cases)
  case (no_run r)
  with choose_run_ok [OF assms(1) no_run(1)] show ?thesis
    by (auto simp: chosen_def split: sum.splits)
next
  case (loop run st1)
  from scan_loop_ok [OF RunOnce_loop [OF assms(1-3) loop(1)] assms(3) loop(2)]
  show ?thesis by (auto simp: loop_end_def)
qed

theorem scan_pause_witness:
  "\<exists>st' u q. RunOnce 2 bad_scan pool_scanner (scan_start wallet_db) = Some (Inl (Se_paused 0), st') \<and>
     run_at (ss_db st') u = Some q \<and> run_status (rr_run q) = ''paused'' \<and> run_cursor (rr_run q) = 0"
proof -
  obtain st' where run: "RunOnce 2 bad_scan pool_scanner (scan_start wallet_db) = Some (Inl (Se_paused 0), st')"
    using bad_scan_runs by blast
  from scan_pause [OF _ _ scan_samples_valid(2) run] run show ?thesis by (simp add: wallet_db_ok)
qed

section \<open>Termination\<close>

lemma run_round_advances:
  assumes db: "db_ok (ss_db st)" and run: "run_round V s run st = (Inr (Some run'), st')"
  shows "\<exists>a \<in> set (addresses (ss_db st)). run_cursor run < wa_id a \<and> wa_id a = run_cursor run'"
proof -
  from run obtain as st1 where n: "liftS (NextAddresses (se_db V) run (sc_batch (sn_config s))) st = (Inr as, st1)"
    and as: "as \<noteq> []" and run': "run_cursor run' = ad_id (last as)"
    unfolding run_round_def bindE_eq_Inr
    by (auto simp: bindE_eq_Inr Let_def split: if_splits)
  from n have "NextAddresses (se_db V) run (sc_batch (sn_config s)) (ss_db st) = (Inr as, ss_db st1)"
    by (auto simp: liftS_Inr)
  note b = NextAddresses_batch [OF db this]
  have "ad_id (last as) \<in> wa_id ` set (addresses (ss_db st))"
    using last_in_set [OF as] unfolding b by (auto simp: to_address_def dest!: in_set_takeD)
  with batch_complete(3) [OF db b as] run' show ?thesis by auto
qed

definition addresses_left :: "db \<Rightarrow> scan_run \<Rightarrow> nat" where
  "addresses_left d run = length (filter (\<lambda>a. run_cursor run < wa_id a) (addresses d))"

lemma fewer_left:
  assumes "a \<in> set xs" and "\<not> P a" "Q a" and "\<And>x. P x \<Longrightarrow> Q x"
  shows "length (filter P xs) < length (filter Q xs)"
  using assms(1)
proof (induction xs)
  case (Cons x xs)
  have "length (filter P ys) \<le> length (filter Q ys)" for ys
    using assms(4) by (induction ys) (auto intro: le_SucI)
  from this [of xs] Cons assms(2-4) show ?case by (cases "a \<in> set xs") (auto simp: less_Suc_eq_le)
qed simp

lemma scan_loop_returns:
  assumes "sane st" and "addresses_left (ss_db st) run < n"
    and keep: "\<And>run st. keeps (\<lambda>st. addresses (ss_db st) = A) (run_round V s run)"
    and "addresses (ss_db st) = A"
  shows "scan_loop n V s run st \<noteq> None"
  using assms(1,2,4)
proof (induction n arbitrary: run st)
  case (Suc n)
  obtain r st1 where r: "run_round V s run st = (r, st1)" by fastforce
  show ?case
  proof (cases "\<exists>run'. r = Inr (Some run')")
    case True
    then obtain run' where r': "r = Inr (Some run')" by blast
    have "sane st1" using keepsD_eq [OF sane_run_round Suc.prems(1) r] .
    moreover have A: "addresses (ss_db st1) = A" using keepsD_eq [OF keep Suc.prems(3) r] .
    moreover obtain a where "a \<in> set (addresses (ss_db st))" "run_cursor run < wa_id a" "wa_id a = run_cursor run'"
      using run_round_advances [OF _ r [unfolded r']] Suc.prems(1) by (auto simp: sane_def)
    then have "addresses_left (ss_db st1) run' < addresses_left (ss_db st) run"
      unfolding addresses_left_def A Suc.prems(3) by (intro fewer_left [of a]) auto
    ultimately show ?thesis using Suc.IH [of st1 run'] Suc.prems(2) r r' by simp
  next
    case False
    with r show ?thesis by (auto split: sum.split option.split)
  qed
qed simp

text \<open>A round leaves the address table alone.\<close>

definition table :: "wallet_row list \<Rightarrow> scan_state \<Rightarrow> bool" where
  "table A st \<longleftrightarrow> addresses (ss_db st) = A"

lemma table_during:
  assumes "\<And>D d0. keeps (during D (stable E F d0)) p"
  shows "keeps (table A) p"
proof (rule keepsI)
  fix st
  assume "table A st"
  moreover obtain r st' where p: "p st = (r, st')" by fastforce
  from during_end(1) [OF assms p] p have "addresses (ss_db (snd (p st))) = addresses (ss_db st)"
    by (simp add: stable_def)
  ultimately show "table A (snd (p st))" by (simp add: table_def)
qed

lemma table_update:
  assumes "\<And>now r. run_id (rr_run (f now r)) = run_id (rr_run r)"
  shows "keeps (table A) (liftS (exec E (sql_update_run u status f)))"
    and "keeps (table A) (liftS (wrapD m (exec E (sql_update_run u status f))))"
proof -
  have "addresses (snd (exec E (sql_update_run u status f) d)) = addresses d" for d
    using update_run_at(1) [of f, OF assms refl, where d = d] by (simp add: same_but_runs_def)
  then show "keeps (table A) (liftS (exec E (sql_update_run u status f)))"
    "keeps (table A) (liftS (wrapD m (exec E (sql_update_run u status f))))"
    by (simp_all add: keeps_def table_def)
qed

lemma table_run_round: "keeps (table A) (run_round V s run)"
proof -
  have n: "keeps (table A) (liftS (NextAddresses (se_db V) run n))" for n
    by (rule table_during) (intro keeps_liftS stable_NextAddresses)
  have b: "keeps (table A) (pool_batch V s as)" for as
    by (simp add: keeps_def table_def pool_batch_def Let_def split: option.split)
  have st: "keeps (table A) (store_results V s rs t)" for rs t
    by (rule table_during) (rule keeps_store_results [OF subset_UNIV])
  show ?thesis
    unfolding run_round_def Let_def CompleteScan_def PauseScan_def AdvanceScan_def
    by (intro keeps n b st table_update) simp_all
qed

lemma RunOnce_returns:
  assumes "db_ok (ss_db st)" and "length (addresses (ss_db st)) < n"
  shows "RunOnce n V s st \<noteq> None"
proof -
  obtain r st1 where c: "choose_run V st = (r, st1)" by fastforce
  show ?thesis
  proof (cases "\<exists>run. r = Inr (Some run)")
    case True
    then obtain run where r: "r = Inr (Some run)" by blast
    have A: "addresses (ss_db st1) = addresses (ss_db st)"
      using choose_run_ok [OF assms(1) c, of s] by (simp add: chosen_def)
    then have "addresses_left (ss_db st1) run < n"
      unfolding addresses_left_def using le_less_trans [OF length_filter_le assms(2)] by simp
    moreover have "sane st1" using keepsD_eq [OF sane_choose_run _ c] assms(1) by (simp add: sane_def)
    ultimately have "scan_loop n V s run st1 \<noteq> None"
      using scan_loop_returns [OF _ _ table_run_round [unfolded table_def [abs_def]] A] by blast
    with c r show ?thesis by (simp add: RunOnce_def)
  next
    case False
    with c show ?thesis by (auto simp: RunOnce_def split: sum.split option.split)
  qed
qed

text \<open>
  A scan ends: for any behaviour of the database, the providers and the webhook, its loop
  makes at most one round per address and one more.
\<close>

theorem scan_terminates:
  assumes "db_ok (ss_db st)" and "length (addresses (ss_db st)) < n"
  shows "RunOnce n V s st \<noteq> None"
  by (rule RunOnce_returns [OF assms])

theorem scan_terminates_witness: "RunOnce 2 bad_scan pool_scanner (scan_start wallet_db) \<noteq> None"
  by (rule scan_terminates) (simp_all only: scan_start_simps wallet_db_ok, simp add: wallet_db_def)

end
