(* ===== verification/Scan_Retry.thy ===== *)
theory Scan_Retry
  imports Scan_Theorems
begin

text \<open>
  \<^verbatim>\<open>RetryFailed\<close>: every due failure whose chain has a provider is queried again, and the queue
  says afterwards what came out of it.
\<close>

section \<open>One item\<close>

definition item_key :: "retry_item \<Rightarrow> int \<times> string" where
  "item_key i = (it_address_id i, it_chain i)"

text \<open>The findings of a list of retries.\<close>

definition retry_findings :: "(retry_item \<times> (go_error + balance)) list \<Rightarrow> positive_finding set" where
  "retry_findings l =
     (\<Union>(i, x) \<in> set l. case x of
        Inl e \<Rightarrow> {}
      | Inr b \<Rightarrow> (case bal_atomic b of
            None \<Rightarrow> {}
          | Some n \<Rightarrow> if 0 < n then {item_finding i b n} else {}))"

text \<open>
  What the queue must say of an item: after an error a record that is open, with one attempt
  more; after an answer a record that is closed, and a finding for a positive balance.
\<close>

definition settled :: "env \<Rightarrow> positive_finding set \<Rightarrow> db \<Rightarrow> retry_item \<times> (go_error + balance) \<Rightarrow> db \<Rightarrow> bool" where
  "settled E F d0 p d \<longleftrightarrow>
     (case p of (i, x) \<Rightarrow>
        (case x of
           Inl e \<Rightarrow> \<exists>q. retry_at d (item_key i) = Some q \<and> rq_resolved q = None \<and>
             rq_attempts q = (case retry_at d0 (item_key i) of None \<Rightarrow> 1 | Some q0 \<Rightarrow> rq_attempts q0 + 1)
         | Inr b \<Rightarrow>
             (\<forall>q. retry_at d (item_key i) = Some q \<longrightarrow> rq_resolved q \<noteq> None) \<and>
             (\<forall>n. bal_atomic b = Some n \<and> 0 < n \<longrightarrow> told E F (it_address_id i, bal_chain b) d)))"

text \<open>The state as retries see it: the record of a key, the findings, and the history.\<close>

definition retry_view ::
  "(retry_item \<times> (go_error + balance)) list \<Rightarrow> (db \<Rightarrow> bool) \<Rightarrow> scan_state \<Rightarrow> bool" where
  "retry_view l P st \<longleftrightarrow> ss_retried st = l \<and> P (ss_db st)"

lemma retry_view_liftS [keeps]: "keeps P p \<Longrightarrow> keeps (retry_view l P) (liftS p)"
  by (simp add: keeps_def retry_view_def)

lemma keeps_retry_at:
  assumes "\<And>d d'. retries d = retries d' \<Longrightarrow> P d = P d'" and "\<And>d. retries (snd (p d)) = retries d"
  shows "keeps P p"
  using assms by (metis keepsI)

lemma retries_SavePositiveFindings: "retries (snd (SavePositiveFindings E fs d)) = retries d"
proof -
  have sel: "keeps (\<lambda>d. retries d = R) (sql_select_finding f now)" for f now R
    by (simp add: keeps_def select_finding_reads)
  have upd: "keeps (\<lambda>d. retries d = R) (sql_update_finding E f now)" for f now R
    by (simp add: keeps_def sql_update_finding_def split: option.split)
  have ins: "keeps (\<lambda>d. retries d = R) (sql_insert_finding E f now)" for f now R
    by (simp add: keeps_def sql_insert_finding_def Let_def split: option.split)
  have ev: "keeps (\<lambda>d. retries d = R) (sql_insert_event a b c now)" for a b c now R
    by (simp add: keeps_def sql_insert_event_def Let_def)
  have "keeps (\<lambda>d. retries d = R) (SavePositiveFindings E fs)" for R
    unfolding SavePositiveFindings_def Let_def save_one_def
    by (intro keeps keeps_transact sel upd ins ev) (auto simp: tables_eq_iff)
  from keepsD [OF this refl] show ?thesis .
qed

lemma retries_Deliver: "retries (snd (Deliver E w i d)) = retries d"
proof -
  have "only_event i d (snd (Deliver E w i d))" by (rule keepsD [OF keeps_only_Deliver]) simp
  then show ?thesis by (simp add: only_event_def)
qed

lemma view_save_findings:
  assumes "\<And>d d'. retries d = retries d' \<Longrightarrow> P d = P d'"
  shows "keeps (retry_view l P) (save_findings V fs)"
proof -
  have "keeps P (SavePositiveFindings E fs)" "keeps P (Deliver E w i)" for E w i
    by (rule keeps_retry_at [OF assms], assumption,
        simp add: retries_SavePositiveFindings retries_Deliver)+
  then show ?thesis
    unfolding save_findings_def notify_def by (intro keeps)
qed

lemma record_retry_Inr:
  assumes "record_retry V s a c code prov m st = (Inr u, st')"
  shows "\<exists>q. retry_at (ss_db st') (a, c) = Some q \<and> rq_resolved q = None \<and>
      rq_attempts q = (case retry_at (ss_db st) (a, c) of None \<Rightarrow> 1 | Some q0 \<Rightarrow> rq_attempts q0 + 1)"
    and "k \<noteq> (a, c) \<Longrightarrow> retry_at (ss_db st') k = retry_at (ss_db st) k"
    and "stable E F (ss_db st) (ss_db st')" and "ss_retried st' = ss_retried st"
proof -
  let ?x = "\<lparr>ri_address_id = a, ri_chain = c, ri_code = code, ri_provider = prov, ri_message = m,
      ri_next = se_clock V (tick (ss_db st)) + sc_base_delay (sn_config s)\<rparr>"
  have x: "ri_key ?x = (a, c)" by (simp add: ri_key_def)
  obtain d where r: "RecordRetry (se_db V) ?x (ss_db st) = (Inr (), d)" and st': "st' = st\<lparr>ss_db := d\<rparr>"
    using assms by (auto simp: record_retry_def bindE_eq_Inr liftS_Inr)
  from rtr.put_stored [OF r] show "\<exists>q. retry_at (ss_db st') (a, c) = Some q \<and> rq_resolved q = None \<and>
      rq_attempts q = (case retry_at (ss_db st) (a, c) of None \<Rightarrow> 1 | Some q0 \<Rightarrow> rq_attempts q0 + 1)"
    by (auto simp: st' x stored_retry_def)
  show "k \<noteq> (a, c) \<Longrightarrow> retry_at (ss_db st') k = retry_at (ss_db st) k"
    using rtr.put_others [of k ?x "se_db V" "ss_db st"] r x by (simp add: st')
  show "stable E F (ss_db st) (ss_db st')"
    using during_end(1) [OF keeps_scan_record assms] .
  show "ss_retried st' = ss_retried st" by (simp add: st')
qed

lemma save_findings_Inr:
  assumes "save_findings V fs st = (Inr u, st')" and "set fs \<subseteq> F"
  shows "stable (se_db V) F (ss_db st) (ss_db st')" and "retry_at (ss_db st') k = retry_at (ss_db st) k"
    and "ss_retried st' = ss_retried st"
proof -
  show "stable (se_db V) F (ss_db st) (ss_db st')"
    using during_end(1) [OF keeps_save_findings [OF assms(2)] assms(1)] .
  let ?I = "retry_view (ss_retried st) (\<lambda>d. retry_at d k = retry_at (ss_db st) k)"
  have "keeps ?I (save_findings V fs)"
    by (rule view_save_findings) (simp add: retry_at_def)
  from keepsD_eq [OF this _ assms(1)] have "?I st'" by (simp add: retry_view_def)
  then show "retry_at (ss_db st') k = retry_at (ss_db st) k" "ss_retried st' = ss_retried st"
    by (simp_all add: retry_view_def)
qed

lemma solo_check_Inr:
  assumes "solo_check V s i st = (Inr x, st')"
  shows "ss_db st' = ss_db st" and "ss_retried st' = ss_retried st @ [(i, x)]"
  using assms by (auto simp: solo_check_def Let_def split: option.splits)

lemma close_Inr:
  assumes "liftS (CloseRetry E a c) st = (Inr u, st')"
  shows "retry_at (ss_db st') (a, c) = Some q \<Longrightarrow> rq_resolved q \<noteq> None"
    and "k \<noteq> (a, c) \<Longrightarrow> retry_at (ss_db st') k = retry_at (ss_db st) k"
    and "stable E' F (ss_db st) (ss_db st')" and "ss_retried st' = ss_retried st"
proof -
  from assms obtain d where r: "CloseRetry E a c (ss_db st) = (Inr (), d)" and st': "st' = st\<lparr>ss_db := d\<rparr>"
    by (auto simp: liftS_Inr)
  show "retry_at (ss_db st') (a, c) = Some q \<Longrightarrow> rq_resolved q \<noteq> None"
    "k \<noteq> (a, c) \<Longrightarrow> retry_at (ss_db st') k = retry_at (ss_db st) k"
    using CloseRetry_row [OF r] by (auto simp: st')
  show "stable E' F (ss_db st) (ss_db st')"
    using keepsD [OF stable_CloseRetry stable_refl, of E' F "ss_db st" E a c] r by (simp add: st')
  show "ss_retried st' = ss_retried st" by (simp add: st')
qed

lemma stable_trans: "stable E F a b \<Longrightarrow> stable E F b c \<Longrightarrow> stable E F a c"
  unfolding stable_def by auto

lemma settled_later:
  assumes "settled E F d0 (i, x) d" and "stable E F d d'"
    and "retry_at d' (item_key i) = retry_at d (item_key i)"
  shows "settled E F d0 (i, x) d'"
  using assms stable_told [OF assms(2)] by (simp add: settled_def split: sum.splits)

lemma settled_earlier:
  assumes "settled E F d1 (i, x) d" and "retry_at d1 (item_key i) = retry_at d0 (item_key i)"
  shows "settled E F d0 (i, x) d"
  using assms by (simp add: settled_def split: sum.splits)

text \<open>
  The retries \<open>l\<close> took the state from \<open>st\<close> to \<open>st'\<close>: they are in the history, only the records
  of the keys \<open>K\<close> changed, and every retry is settled.
\<close>

definition retried ::
  "env \<Rightarrow> (retry_item \<times> (go_error + balance)) list \<Rightarrow> (int \<times> string) set \<Rightarrow> scan_state \<Rightarrow> scan_state \<Rightarrow> bool" where
  "retried E l K st st' \<longleftrightarrow>
     ss_retried st' = ss_retried st @ l \<and> item_key ` fst ` set l \<subseteq> K \<and>
     (\<forall>k. k \<notin> K \<longrightarrow> retry_at (ss_db st') k = retry_at (ss_db st) k) \<and>
     (\<forall>F. retry_findings l \<subseteq> F \<longrightarrow> stable E F (ss_db st) (ss_db st') \<and>
        (\<forall>p \<in> set l. settled E F (ss_db st) p (ss_db st')))"

lemma retried_others:
  "retried E l K st st' \<Longrightarrow> k \<notin> K \<Longrightarrow> retry_at (ss_db st') k = retry_at (ss_db st) k"
  unfolding retried_def by blast

lemma retried_item:
  assumes "retried E l K st st'" and "p \<in> set l"
  shows "item_key (fst p) \<in> K"
    and "retry_findings l \<subseteq> F \<Longrightarrow> settled E F (ss_db st) p (ss_db st')"
proof -
  have "item_key (fst p) \<in> item_key ` fst ` set l" using assms(2) by simp
  with assms(1) show "item_key (fst p) \<in> K" unfolding retried_def by blast
  show "retry_findings l \<subseteq> F \<Longrightarrow> settled E F (ss_db st) p (ss_db st')"
    using assms unfolding retried_def by blast
qed

lemma retried_none: "retried E [] K st st"
  by (simp add: retried_def)

lemma retried_more: "retried E l K st st' \<Longrightarrow> K \<subseteq> K' \<Longrightarrow> retried E l K' st st'"
  unfolding retried_def by blast

lemma retry_findings_append: "retry_findings (l @ m) = retry_findings l \<union> retry_findings m"
  by (simp add: retry_findings_def)

lemma retried_trans:
  assumes a: "retried E l K st st1" and b: "retried E m L st1 st2" and disj: "K \<inter> L = {}"
  shows "retried E (l @ m) (K \<union> L) st st2"
  unfolding retried_def retry_findings_append
proof (intro conjI allI impI ballI)
  show "ss_retried st2 = ss_retried st @ l @ m" using a b by (simp add: retried_def)
  have "item_key ` fst ` set l \<subseteq> K" "item_key ` fst ` set m \<subseteq> L" using a b by (simp_all add: retried_def)
  then show "item_key ` fst ` set (l @ m) \<subseteq> K \<union> L" unfolding set_append image_Un by (rule Un_mono)
  show "k \<notin> K \<union> L \<Longrightarrow> retry_at (ss_db st2) k = retry_at (ss_db st) k" for k
    using retried_others [OF a] retried_others [OF b] by simp
  fix F
  assume F: "retry_findings l \<union> retry_findings m \<subseteq> F"
  then have 1: "stable E F (ss_db st) (ss_db st1)" and 2: "stable E F (ss_db st1) (ss_db st2)"
    using a b by (simp_all add: retried_def)
  show "stable E F (ss_db st) (ss_db st2)" using stable_trans [OF 1 2] .
  fix p
  assume "p \<in> set (l @ m)"
  then consider "p \<in> set l" | "p \<in> set m" by auto
  then show "settled E F (ss_db st) p (ss_db st2)"
  proof cases
    case l: 1
    then have "settled E F (ss_db st) p (ss_db st1)" "item_key (fst p) \<notin> L"
      using retried_item [OF a l] F disj by auto
    with settled_later [OF _ 2, of _ "fst p" "snd p"] retried_others [OF b] show ?thesis by simp
  next
    case m: 2
    then have "settled E F (ss_db st1) p (ss_db st2)" "item_key (fst p) \<notin> K"
      using retried_item [OF b m] F disj by auto
    with settled_earlier [of E F _ "fst p" "snd p"] retried_others [OF a] show ?thesis by simp
  qed
qed

text \<open>One item, by the outcome of its query.\<close>

lemma retry_one_cases:
  assumes "retry_one V s i st = (Inr u, st')" and "it_chain i \<in> set (sn_providers s)"
  obtains (failed) e st1 where "solo_check V s i st = (Inr (Inl e), st1)"
      "record_retry V s (it_address_id i) (it_chain i) (pe_code (asProviderError e (it_chain i)))
        (pe_provider (asProviderError e (it_chain i))) (error_text (asProviderError e (it_chain i))) st1 = (Inr u, st')"
    | (zero) b n st1 where "solo_check V s i st = (Inr (Inr b), st1)" "bal_atomic b = Some n" "n \<le> 0"
      "liftS (CloseRetry (se_db V) (it_address_id i) (it_chain i)) st1 = (Inr (), st')"
    | (positive) b n st1 st2 where "solo_check V s i st = (Inr (Inr b), st1)" "bal_atomic b = Some n" "0 < n"
      "liftS (CloseRetry (se_db V) (it_address_id i) (it_chain i)) st1 = (Inr (), st2)"
      "save_findings V [item_finding i b n] st2 = (Inr u, st')"
proof -
  from assms obtain x st1 where c: "solo_check V s i st = (Inr x, st1)"
    and rest: "(case x of
            Inl e \<Rightarrow>
              let pe = asProviderError e (it_chain i)
              in record_retry V s (it_address_id i) (it_chain i) (pe_code pe) (pe_provider pe)
                   (error_text pe)
          | Inr b \<Rightarrow>
              bindE (liftS (CloseRetry (se_db V) (it_address_id i) (it_chain i))) (\<lambda>_.
                case bal_atomic b of
                  None \<Rightarrow> raise Se_crash
                | Some n \<Rightarrow>
                    if n \<le> 0 then ret ()
                    else save_findings V [item_finding i b n])) st1 = (Inr u, st')"
    unfolding retry_one_def by (auto simp: bindE_eq_Inr)
  show thesis
  proof (cases x)
    case (Inl e)
    with c rest failed show thesis by (simp add: Let_def)
  next
    case (Inr b)
    with rest obtain st2 n where "liftS (CloseRetry (se_db V) (it_address_id i) (it_chain i)) st1 = (Inr (), st2)"
      "bal_atomic b = Some n" "(if n \<le> 0 then ret () else save_findings V [item_finding i b n]) st2 = (Inr u, st')"
      by (auto simp: bindE_eq_Inr split: option.splits)
    with c Inr zero positive show thesis by (cases "n \<le> 0") auto
  qed
qed

lemma retry_one_Inr:
  assumes run: "retry_one V s i st = (Inr u, st')" and prov: "it_chain i \<in> set (sn_providers s)"
  shows "\<exists>x. retried (se_db V) [(i, x)] {item_key i} st st'"
  using run prov
proof (cases rule: retry_one_cases)
  case (failed e st1)
  with record_retry_Inr [OF failed(2)] solo_check_Inr [OF failed(1)] show ?thesis
    by (intro exI [of _ "Inl e"]) (simp add: retried_def item_key_def settled_def)
next
  case (zero b n st1)
  with close_Inr [OF zero(4)] solo_check_Inr [OF zero(1)] show ?thesis
    by (intro exI [of _ "Inr b"]) (auto simp: retried_def item_key_def settled_def)
next
  case (positive b n st1 st2)
  note sc = solo_check_Inr [OF positive(1)] and cc = close_Inr [OF positive(4)]
  note sf = save_findings_Inr [OF positive(5)] and tf = save_findings_told [OF positive(5)]
  have f: "item_finding i b n \<in> retry_findings [(i, Inr b)]"
    using positive(2,3) by (auto simp: retry_findings_def)
  have "stable (se_db V) F (ss_db st) (ss_db st') \<and> settled (se_db V) F (ss_db st) (i, Inr b) (ss_db st')"
    if F: "retry_findings [(i, Inr b)] \<subseteq> F" for F
  proof -
    have sub: "set [item_finding i b n] \<subseteq> F" using f F by auto
    have "stable (se_db V) F (ss_db st) (ss_db st')" using stable_trans [OF cc(3) sf(1) [OF sub]] sc by simp
    moreover have "told (se_db V) F (it_address_id i, bal_chain b) (ss_db st')"
      using tf [OF sub] by (simp add: item_finding_def fi_key_def)
    ultimately show ?thesis using cc(1) sf(2) [OF sub] positive(2) by (simp add: settled_def item_key_def)
  qed
  moreover have "retry_at (ss_db st') k = retry_at (ss_db st) k" if "k \<noteq> item_key i" for k
    using sf(2) [OF subset_refl] cc(2) sc that by (simp add: item_key_def)
  moreover have "ss_retried st' = ss_retried st @ [(i, Inr b)]"
    using sf(3) [OF subset_refl] cc(4) sc by simp
  ultimately show ?thesis by (intro exI [of _ "Inr b"]) (simp add: retried_def)
qed

section \<open>All items\<close>

lemma retry_all_Inr:
  assumes "eachE (retry_one V s) js st = (Inr u, st')" and "distinct (map item_key js)"
  shows "\<exists>l. retried (se_db V) l (item_key ` set js) st st' \<and>
    map fst l = filter (\<lambda>i. it_chain i \<in> set (sn_providers s)) js"
  using assms
proof (induction js arbitrary: st)
  case Nil
  then show ?case by (simp add: retried_none)
next
  case (Cons i js)
  then obtain st1 where 1: "retry_one V s i st = (Inr (), st1)" and 2: "eachE (retry_one V s) js st1 = (Inr u, st')"
    by (auto simp: bindE_eq_Inr)
  with Cons obtain l where l: "retried (se_db V) l (item_key ` set js) st1 st'"
      "map fst l = filter (\<lambda>i. it_chain i \<in> set (sn_providers s)) js" by auto
  show ?case
  proof (cases "it_chain i \<in> set (sn_providers s)")
    case False
    then have "st1 = st" using 1 by (simp add: retry_one_def)
    with l False show ?thesis by (intro exI [of _ l]) (auto intro: retried_more)
  next
    case True
    from retry_one_Inr [OF 1 True] obtain x where x: "retried (se_db V) [(i, x)] {item_key i} st st1" by blast
    have "{item_key i} \<inter> item_key ` set js = {}" using Cons.prems(2) by simp
    from retried_trans [OF x l(1) this] l(2) True show ?thesis
      by (intro exI [of _ "(i, x) # l"]) simp
  qed
qed

section \<open>The theorem\<close>

lemma items_distinct:
  assumes "db_ok d" and "NextRetries E n d = (Inr items, d')"
  shows "distinct (map item_key items)"
proof -
  let ?rs = "take n (filter (retry_due (ev_now E (tick d))) (retries d))"
  note items = NextRetries_items(2) [OF assms]
  have key: "item_key (the (to_item d r)) = retry_key r" if "r \<in> set ?rs" for r
  proof -
    have "r \<in> set (retries d)" using that by (auto dest: in_set_takeD)
    from to_item_some [OF assms(1) this] show ?thesis
      by (auto simp: to_item_def item_key_def retry_key_def split: option.splits)
  qed
  have "map item_key items = map (\<lambda>r. item_key (the (to_item d r))) ?rs"
    by (simp add: items)
  also have "\<dots> = map retry_key ?rs" by (rule map_cong [OF refl key])
  also have "distinct \<dots>"
  proof -
    have "distinct (map retry_key (retries d))"
      using assms(1) by (simp add: db_ok_def retries_ok_def retries_key_map)
    then have "distinct (map retry_key (filter (retry_due (ev_now E (tick d))) (retries d)))"
      by (rule distinct_map_filter)
    then show ?thesis by (metis distinct_take take_map)
  qed
  finally show ?thesis .
qed

text \<open>
  C18: a successful retry pass asks the provider once more for every item of the queue that is
  due, in its order and up to the limit, if the chain has a provider, and for no other; after
  it the record of an item that failed again is open with one attempt more, the record of one
  that was answered is closed, and a positive answer has its finding.
\<close>

theorem retry_settles:
  assumes "db_ok (ss_db st)" and "ss_retried st = []" and "RetryFailed V s limit st = (Inr (), st')"
  shows "\<exists>items d1. NextRetries (se_db V) limit (ss_db st) = (Inr items, d1) \<and>
    map fst (ss_retried st') = filter (\<lambda>i. it_chain i \<in> set (sn_providers s)) items \<and>
    (\<forall>p \<in> set (ss_retried st').
       settled (se_db V) (retry_findings (ss_retried st')) (ss_db st) p (ss_db st'))"
proof -
  from assms(3) obtain items d1 where n: "NextRetries (se_db V) limit (ss_db st) = (Inr items, d1)"
    and e: "eachE (retry_one V s) items (st\<lparr>ss_db := d1\<rparr>) = (Inr (), st')"
    by (auto simp: RetryFailed_def bindE_eq_Inr liftS_Inr)
  from retry_all_Inr [OF e items_distinct [OF assms(1) n]] assms(2) obtain l where
    l: "ss_retried st' = l" "map fst l = filter (\<lambda>i. it_chain i \<in> set (sn_providers s)) items"
      "\<forall>p \<in> set l. settled (se_db V) (retry_findings l) d1 p (ss_db st')"
    by (auto simp: retried_def)
  have "retries d1 = retries (ss_db st)"
    using NextRetries_items(1) [OF assms(1) n] by (simp add: tables_eq_iff)
  then have "settled E F d1 p d = settled E F (ss_db st) p d" for E F p d
    by (simp add: settled_def retry_at_def split: sum.split)
  with l n show ?thesis by auto
qed

text \<open>A due record of a BTC address, and a provider that answers 5 satoshi at the second attempt.\<close>

definition retry_scan :: scan_env where
  "retry_scan = good_scan\<lparr>se_answers := (\<lambda>k. [A_flag True, A_reply (Inl pool_refused), A_go, A_flag True,
     A_flag True, A_reply (Inr (pool_balance 5)), A_go, A_go])\<rparr>"

definition retry_start :: scan_state where
  "retry_start = scan_start (snd (RecordRetry sample_env (sample_retry\<lparr>ri_next := 0\<rparr>) wallet_db))"

lemma retry_start_ok: "db_ok (ss_db retry_start)"
  unfolding retry_start_def scan_start_simps
  by (rule goodD [OF _ wallet_db_ok]) (rule good_retry_ops)

theorem retry_settles_witness:
  "\<exists>i b st'. RetryFailed retry_scan pool_scanner 10 retry_start = (Inr (), st') \<and>
     ss_retried st' = [(i, Inr b)] \<and> bal_atomic b = Some 5 \<and>
     (\<forall>q. retry_at (ss_db st') (item_key i) = Some q \<longrightarrow> rq_resolved q \<noteq> None)"
proof -
  have "case RetryFailed retry_scan pool_scanner 10 retry_start of (r, st') \<Rightarrow>
      r = Inr () \<and> map snd (ss_retried st') = [Inr (pool_balance 5)]"
    by code_simp
  then obtain i st' where run: "RetryFailed retry_scan pool_scanner 10 retry_start = (Inr (), st')"
    and l: "ss_retried st' = [(i, Inr (pool_balance 5))]"
    by (auto split: prod.splits)
  have "ss_retried retry_start = []" by (simp add: retry_start_def)
  from retry_settles [OF retry_start_ok this run] l
  have "\<forall>q. retry_at (ss_db st') (item_key i) = Some q \<longrightarrow> rq_resolved q \<noteq> None"
    by (auto simp: settled_def)
  moreover have "bal_atomic (pool_balance 5) = Some 5" by (simp add: pool_balance_def)
  ultimately show ?thesis using run l by blast
qed

end
