(* ===== verification/Config.thy ===== *)
theory Config
  imports Prelude
begin

text \<open>
  \<^verbatim>\<open>internal/config\<close>: the configuration read from the environment. \<open>getenv\<close> gives the
  value of a variable, empty when it is not set; \<open>quote\<close> is Go's \<^verbatim>\<open>%q\<close>.
\<close>

section \<open>Records\<close>

record provider_config =
  pc_btc_url :: string
  pc_eth_url :: string
  pc_arb_url :: string
  pc_bsc_url :: string
  pc_sol_url :: string
  pc_tron_url :: string
  pc_btc :: int
  pc_eth :: int
  pc_arb :: int
  pc_bsc :: int
  pc_sol :: int
  pc_tron :: int

record config =
  cf_database_url :: string
  cf_bind :: string
  cf_api_key :: string
  cf_startup_wallet :: bool
  cf_max_in_flight :: int
  cf_initial :: int
  cf_queue_wait :: int
  cf_adjust_interval :: int
  cf_target_latency :: int
  cf_webhook :: string
  cf_mode :: string
  cf_batch :: int
  cf_retries :: int
  cf_retention_days :: int
  cf_timeout :: int
  cf_workers :: int
  cf_threshold :: int
  cf_base_delay :: int
  cf_provider :: provider_config

section \<open>Variables\<close>

definition envString :: "(string \<Rightarrow> string) \<Rightarrow> string \<Rightarrow> string \<Rightarrow> string" where
  "envString getenv name fallback = (if getenv name \<noteq> [] then getenv name else fallback)"

definition envInt :: "(string \<Rightarrow> string) \<Rightarrow> string \<Rightarrow> int \<Rightarrow> int" where
  "envInt getenv name fallback =
     (if getenv name = [] then fallback
      else (case atoi (getenv name) of None \<Rightarrow> fallback | Some n \<Rightarrow> n))"

text \<open>\<^verbatim>\<open>strconv.ParseBool\<close>.\<close>

definition parse_bool :: "string \<Rightarrow> bool option" where
  "parse_bool s =
     (if s \<in> set [''1'', ''t'', ''T'', ''TRUE'', ''true'', ''True''] then Some True
      else if s \<in> set [''0'', ''f'', ''F'', ''FALSE'', ''false'', ''False''] then Some False
      else None)"

definition envBool :: "(string \<Rightarrow> string) \<Rightarrow> string \<Rightarrow> bool \<Rightarrow> string + bool" where
  "envBool getenv name fallback =
     (if getenv name = [] then Inr fallback
      else (case parse_bool (getenv name) of
              None \<Rightarrow> Inl (name @ '' must be a boolean'')
            | Some b \<Rightarrow> Inr b))"

text \<open>
  \<^verbatim>\<open>net.SplitHostPort\<close>: the text of its error, if any. The port is what follows the last
  colon; a host in brackets may hold colons.
\<close>

fun index_of :: "char \<Rightarrow> string \<Rightarrow> nat option" where
  "index_of x [] = None"
| "index_of x (c # cs) = (if c = x then Some 0 else map_option Suc (index_of x cs))"

definition last_index :: "char \<Rightarrow> string \<Rightarrow> nat option" where
  "last_index x s = map_option (\<lambda>i. length s - 1 - i) (index_of x (rev s))"

definition addr_error_msg :: "string \<Rightarrow> string \<Rightarrow> string" where
  "addr_error_msg s why = (if s = [] then why else ''address '' @ s @ '': '' @ why)"

definition split_host_port_error :: "string \<Rightarrow> string option" where
  "split_host_port_error s =
     (case last_index (CHR '':'') s of
        None \<Rightarrow> Some (addr_error_msg s ''missing port in address'')
      | Some i \<Rightarrow>
          let brackets = (\<lambda>j k.
                if CHR ''['' \<in> set (drop j s) then Some (addr_error_msg s ''unexpected '[' in address'')
                else if CHR '']'' \<in> set (drop k s) then Some (addr_error_msg s ''unexpected ']' in address'')
                else None)
          in if s ! 0 = CHR ''['' then
               (case index_of (CHR '']'') s of
                  None \<Rightarrow> Some (addr_error_msg s ''missing ']' in address'')
                | Some e \<Rightarrow>
                    if e + 1 = length s then Some (addr_error_msg s ''missing port in address'')
                    else if e + 1 = i then brackets 1 (e + 1)
                    else if s ! (e + 1) = CHR '':'' then Some (addr_error_msg s ''too many colons in address'')
                    else Some (addr_error_msg s ''missing port in address''))
             else if CHR '':'' \<in> set (take i s) then Some (addr_error_msg s ''too many colons in address'')
             else brackets 0 0)"

section \<open>Loading\<close>

definition read_provider_config :: "(string \<Rightarrow> string) \<Rightarrow> provider_config" where
  "read_provider_config getenv =
     \<lparr>pc_btc_url = envString getenv ''BTC_API_URL'' ''https://mempool.space/api'',
      pc_eth_url = envString getenv ''ETH_RPC_URL'' ''https://ethereum-rpc.publicnode.com'',
      pc_arb_url = envString getenv ''ARB_RPC_URL'' ''https://arb1.arbitrum.io/rpc'',
      pc_bsc_url = envString getenv ''BSC_RPC_URL'' ''https://bsc-dataseed.bnbchain.org'',
      pc_sol_url = envString getenv ''SOL_RPC_URL'' ''https://solana-rpc.publicnode.com'',
      pc_tron_url = envString getenv ''TRON_API_URL'' ''https://api.trongrid.io'',
      pc_btc = envInt getenv ''BTC_CONCURRENCY'' 2, pc_eth = envInt getenv ''ETH_CONCURRENCY'' 4,
      pc_arb = envInt getenv ''ARB_CONCURRENCY'' 4, pc_bsc = envInt getenv ''BSC_CONCURRENCY'' 4,
      pc_sol = envInt getenv ''SOL_CONCURRENCY'' 2, pc_tron = envInt getenv ''TRON_CONCURRENCY'' 2\<rparr>"

text \<open>A duration is a number of nanoseconds; the product wraps around.\<close>

definition read_config :: "(string \<Rightarrow> string) \<Rightarrow> bool \<Rightarrow> config" where
  "read_config getenv startup =
     \<lparr>cf_database_url = getenv ''DATABASE_URL'',
      cf_bind = envString getenv ''BIND_ADDRESS'' ''0.0.0.0:8080'',
      cf_api_key = getenv ''SCANNER_API_KEY'',
      cf_startup_wallet = startup,
      cf_max_in_flight = envInt getenv ''API_MAX_IN_FLIGHT'' 100,
      cf_initial = envInt getenv ''API_INITIAL_CONCURRENCY'' 20,
      cf_queue_wait = wrap64 (envInt getenv ''API_QUEUE_WAIT_MS'' 250 * millisecond),
      cf_adjust_interval = wrap64 (envInt getenv ''API_ADJUST_INTERVAL_SECONDS'' 5 * second),
      cf_target_latency = wrap64 (envInt getenv ''API_TARGET_LATENCY_MS'' 800 * millisecond),
      cf_webhook = getenv ''WECOM_WEBHOOK_URL'',
      cf_mode = envString getenv ''SCAN_MODE'' ''once'',
      cf_batch = envInt getenv ''BATCH_SIZE'' 100,
      cf_retries = envInt getenv ''MAX_RETRIES'' 3,
      cf_retention_days = envInt getenv ''EMPTY_RETENTION_DAYS'' 7,
      cf_timeout = wrap64 (envInt getenv ''REQUEST_TIMEOUT_SECONDS'' 12 * second),
      cf_workers = envInt getenv ''ADDRESS_WORKERS'' 8,
      cf_threshold = envInt getenv ''NODE_FAILURE_THRESHOLD'' 5,
      cf_base_delay = wrap64 (envInt getenv ''RETRY_BASE_DELAY_SECONDS'' 2 * second),
      cf_provider = read_provider_config getenv\<rparr>"

text \<open>The checks in their order: the condition that fails and its message.\<close>

definition config_checks :: "(string \<Rightarrow> string) \<Rightarrow> config \<Rightarrow> (bool \<times> string) list" where
  "config_checks quote c =
     [(cf_database_url c = [], ''DATABASE_URL is required''),
      (cf_mode c \<noteq> ''once'', ''SCAN_MODE must be once, got '' @ quote (cf_mode c)),
      (cf_max_in_flight c < 1 \<or> cf_max_in_flight c > 10000, ''API_MAX_IN_FLIGHT must be between 1 and 10000''),
      (cf_initial c < 1 \<or> cf_initial c > cf_max_in_flight c,
        ''API_INITIAL_CONCURRENCY must be between 1 and API_MAX_IN_FLIGHT''),
      (cf_queue_wait c \<le> 0, ''API_QUEUE_WAIT_MS must be positive''),
      (cf_adjust_interval c \<le> 0, ''API_ADJUST_INTERVAL_SECONDS must be positive''),
      (cf_target_latency c \<le> 0, ''API_TARGET_LATENCY_MS must be positive''),
      (cf_batch c \<le> 0 \<or> cf_batch c > 10000, ''BATCH_SIZE must be between 1 and 10000''),
      (cf_retries c < 0 \<or> cf_retries c > 20, ''MAX_RETRIES must be between 0 and 20''),
      (cf_retention_days c < 1, ''EMPTY_RETENTION_DAYS must be at least 1''),
      (cf_timeout c \<le> 0, ''REQUEST_TIMEOUT_SECONDS must be positive''),
      (cf_workers c \<le> 0 \<or> cf_workers c > 256, ''ADDRESS_WORKERS must be between 1 and 256''),
      (cf_threshold c < 1 \<or> cf_threshold c > 100, ''NODE_FAILURE_THRESHOLD must be between 1 and 100''),
      (cf_base_delay c \<le> 0, ''RETRY_BASE_DELAY_SECONDS must be positive''),
      (split_host_port_error (cf_bind c) \<noteq> None,
        ''BIND_ADDRESS must be host:port: '' @ the (split_host_port_error (cf_bind c)))]"

definition Load :: "(string \<Rightarrow> string) \<Rightarrow> (string \<Rightarrow> string) \<Rightarrow> string + config" where
  "Load quote getenv =
     (case envBool getenv ''GENERATE_WALLET_ON_STARTUP'' True of
        Inl e \<Rightarrow> Inl e
      | Inr startup \<Rightarrow>
          let c = read_config getenv startup
          in case List.find fst (config_checks quote c) of
               Some (b, e) \<Rightarrow> Inl e
             | None \<Rightarrow> Inr c)"

section \<open>Accepted configurations\<close>

definition config_ok :: "config \<Rightarrow> bool" where
  "config_ok c \<longleftrightarrow>
     cf_database_url c \<noteq> [] \<and> cf_mode c = ''once'' \<and>
     1 \<le> cf_max_in_flight c \<and> cf_max_in_flight c \<le> 10000 \<and>
     1 \<le> cf_initial c \<and> cf_initial c \<le> cf_max_in_flight c \<and>
     0 < cf_queue_wait c \<and> 0 < cf_adjust_interval c \<and> 0 < cf_target_latency c \<and>
     1 \<le> cf_batch c \<and> cf_batch c \<le> 10000 \<and> 0 \<le> cf_retries c \<and> cf_retries c \<le> 20 \<and>
     1 \<le> cf_retention_days c \<and> 0 < cf_timeout c \<and> 1 \<le> cf_workers c \<and> cf_workers c \<le> 256 \<and>
     1 \<le> cf_threshold c \<and> cf_threshold c \<le> 100 \<and> 0 < cf_base_delay c \<and>
     split_host_port_error (cf_bind c) = None"

lemma no_failed_check: "List.find fst (config_checks quote c) = None \<longleftrightarrow> config_ok c"
  by (auto simp: find_None_iff config_checks_def config_ok_def)

lemma Load_ok: "Load quote getenv = Inr c \<Longrightarrow> config_ok c"
  by (auto simp: Load_def Let_def no_failed_check split: sum.splits option.splits)

lemma Load_accepts:
  "envBool getenv ''GENERATE_WALLET_ON_STARTUP'' True = Inr b \<Longrightarrow> config_ok (read_config getenv b) \<Longrightarrow>
     Load quote getenv = Inr (read_config getenv b)"
  using no_failed_check [of quote "read_config getenv b"] by (simp add: Load_def Let_def)

end
