(* ===== verification/Limiter.thy ===== *)
theory Limiter
  imports Slots
begin

text \<open>
  \<^verbatim>\<open>internal/adaptive/limiter.go\<close>: the adaptive in-flight limiter of the API. Every exported
  operation but \<^verbatim>\<open>Acquire\<close> runs under the mutex and is one function on the limiter; the
  polling loop of \<^verbatim>\<open>Acquire\<close> releases the mutex between its tries, so the model lets other
  goroutines change the limiter there. A time is a number of nanoseconds on the monotonic
  clock; a function that reads the clock more than once takes the readings as a sequence.
\<close>

section \<open>State\<close>

record limiter_config =
  cfg_initial :: int
  cfg_max :: int
  cfg_queue_wait :: int
  cfg_adjust_interval :: int
  cfg_target_latency :: int

record outcome =
  out_chain :: string
  out_retryable :: bool
  out_latency :: int

record chain_snapshot =
  snap_limit :: int
  snap_active :: int

record snapshot =
  snap_max :: int
  snap_recommended :: int
  snap_in_flight :: int
  snap_queue_wait_ms :: int
  snap_chains :: "string \<rightharpoonup> chain_snapshot"

record chain_state =
  cs_limit :: int
  cs_active :: int
  cs_samples :: int
  cs_failures :: int
  cs_ewma :: int
  cs_last :: int

record limiter =
  lm_max :: int
  lm_global_limit :: int
  lm_global_active :: int
  lm_queue_wait :: int
  lm_interval :: int
  lm_target :: int
  lm_chains :: "string \<rightharpoonup> chain_state"
  lm_global :: chain_state

definition new_chain_state :: "int \<Rightarrow> int \<Rightarrow> chain_state" where
  "new_chain_state lim now =
     \<lparr>cs_limit = lim, cs_active = 0, cs_samples = 0, cs_failures = 0, cs_ewma = 0, cs_last = now\<rparr>"

definition new_limiter :: "limiter_config \<Rightarrow> int \<Rightarrow> limiter" where
  "new_limiter c now =
     (let mx = (if cfg_max c < 1 then 1 else cfg_max c);
          ini = (if cfg_initial c < 1 then 1 else cfg_initial c);
          ini = (if ini > mx then mx else ini);
          qw = (if cfg_queue_wait c \<le> 0 then 250 * millisecond else cfg_queue_wait c);
          ai = (if cfg_adjust_interval c \<le> 0 then 5 * second else cfg_adjust_interval c);
          tl = (if cfg_target_latency c \<le> 0 then 800 * millisecond else cfg_target_latency c)
      in \<lparr>lm_max = mx, lm_global_limit = ini, lm_global_active = 0, lm_queue_wait = qw,
          lm_interval = ai, lm_target = tl, lm_chains = Map.empty,
          lm_global = new_chain_state ini now\<rparr>)"

section \<open>Operations under the mutex\<close>

text \<open>\<^verbatim>\<open>l.chain(name)\<close> returns the state of a chain and creates it on first use.\<close>

definition chain_of :: "limiter \<Rightarrow> string \<Rightarrow> int \<Rightarrow> chain_state \<times> limiter" where
  "chain_of l name now =
     (case lm_chains l name of
        Some st \<Rightarrow> (st, l)
      | None \<Rightarrow>
          let st = new_chain_state (lm_global_limit l) now
          in (st, l\<lparr>lm_chains := (lm_chains l)(name \<mapsto> st)\<rparr>))"

definition set_chain :: "limiter \<Rightarrow> string \<Rightarrow> chain_state \<Rightarrow> limiter" where
  "set_chain l name st = l\<lparr>lm_chains := (lm_chains l)(name \<mapsto> st)\<rparr>"

text \<open>One try of \<^verbatim>\<open>Acquire\<close>, from the lock to the unlock.\<close>

definition try_acquire :: "int \<Rightarrow> string \<Rightarrow> limiter \<Rightarrow> bool \<times> limiter" where
  "try_acquire now name l =
     (case chain_of l name now of (st, l1) \<Rightarrow>
        if lm_global_active l1 < lm_global_limit l1 \<and> cs_active st < cs_limit st
        then (True, set_chain (l1\<lparr>lm_global_active := wrap64 (lm_global_active l1 + 1)\<rparr>) name
                      (st\<lparr>cs_active := wrap64 (cs_active st + 1)\<rparr>))
        else (False, l1))"

definition update_stats :: "chain_state \<Rightarrow> outcome \<Rightarrow> chain_state" where
  "update_stats st out =
     (let st = st\<lparr>cs_samples := wrap64 (cs_samples st + 1)\<rparr>;
          st = (if out_retryable out then st\<lparr>cs_failures := wrap64 (cs_failures st + 1)\<rparr> else st)
      in if cs_ewma st = 0 then st\<lparr>cs_ewma := out_latency out\<rparr>
         else st\<lparr>cs_ewma := wrap64 (wrap64 (cs_ewma st * 4) + out_latency out) sdiv 5\<rparr>)"

text \<open>The limit after a full window: halved, kept, or raised by a fifth.\<close>

definition next_limit :: "limiter \<Rightarrow> chain_state \<Rightarrow> int" where
  "next_limit l st =
     (if cs_failures st > 0 \<or> cs_ewma st > wrap64 (lm_target l * 2) then
        (let lim = cs_limit st sdiv 2 in if lim < 1 then 1 else lim)
      else if cs_ewma st \<le> lm_target l then
        (let increase = cs_limit st sdiv 5;
             increase = (if increase < 1 then 1 else increase);
             lim = wrap64 (cs_limit st + increase)
         in if lim > lm_max l then lm_max l else lim)
      else cs_limit st)"

definition adjust_due :: "limiter \<Rightarrow> chain_state \<Rightarrow> int \<Rightarrow> bool" where
  "adjust_due l st now \<longleftrightarrow> \<not> (cs_samples st < 10 \<or> time_sub now (cs_last st) < lm_interval l)"

definition adjust :: "limiter \<Rightarrow> chain_state \<Rightarrow> bool \<Rightarrow> int \<Rightarrow> int \<Rightarrow> limiter \<times> chain_state" where
  "adjust l st global now now' =
     (if \<not> adjust_due l st now then (l, st)
      else
        let st1 = st\<lparr>cs_limit := next_limit l st\<rparr>;
            l1 = (if global then l\<lparr>lm_global_limit := cs_limit st1\<rparr> else l)
        in (l1, st1\<lparr>cs_samples := 0, cs_failures := 0, cs_last := now'\<rparr>))"

text \<open>\<^verbatim>\<open>release\<close>; \<open>t k\<close> is the \<open>k\<close>-th reading of the clock inside it.\<close>

definition release :: "outcome \<Rightarrow> (nat \<Rightarrow> int) \<Rightarrow> limiter \<Rightarrow> limiter" where
  "release out t l =
     (case chain_of l (out_chain out) (t 0) of (st, l1) \<Rightarrow>
        let l2 = (if lm_global_active l1 > 0
                  then l1\<lparr>lm_global_active := lm_global_active l1 - 1\<rparr> else l1);
            st1 = (if cs_active st > 0 then st\<lparr>cs_active := cs_active st - 1\<rparr> else st);
            g1 = update_stats (lm_global l2) out;
            st2 = update_stats st1 out
        in case adjust l2 g1 True (t 1) (t 2) of (l3, g2) \<Rightarrow>
             let l4 = l3\<lparr>lm_global := g2\<rparr>
             in case adjust l4 st2 False (t 3) (t 4) of (l5, st3) \<Rightarrow>
                  set_chain l5 (out_chain out) st3)"

definition retryAfter :: "string \<Rightarrow> int \<Rightarrow> limiter \<Rightarrow> int \<times> limiter" where
  "retryAfter name now l =
     (case chain_of l name now of (st, l1) \<Rightarrow>
        (if cs_limit st < 1 \<or> lm_global_limit l1 < 1 then second else 250 * millisecond, l1))"

definition Register :: "string \<Rightarrow> int \<Rightarrow> limiter \<Rightarrow> limiter" where
  "Register name now l = snd (chain_of l name now)"

definition Snapshot :: "limiter \<Rightarrow> snapshot" where
  "Snapshot l =
     \<lparr>snap_max = lm_max l, snap_recommended = lm_global_limit l,
      snap_in_flight = lm_global_active l,
      snap_queue_wait_ms = lm_queue_wait l sdiv millisecond,
      snap_chains = (\<lambda>name. map_option
        (\<lambda>st. \<lparr>snap_limit = cs_limit st, snap_active = cs_active st\<rparr>) (lm_chains l name))\<rparr>"

section \<open>The polling loop of Acquire\<close>

text \<open>
  What happens around the loop: the clock (\<open>ae_read i k now\<close> is the \<open>k\<close>-th reading of poll
  \<open>i\<close>, which starts at \<open>now\<close>; \<open>ae_wake i now d\<close> is the time at which a timer of length
  \<open>d\<close> started at \<open>now\<close> has fired and the goroutine runs again), what the other goroutines
  do to the limiter before the lock is taken for the \<open>i\<close>-th time, and whether the
  \<^verbatim>\<open>select\<close> of poll \<open>i\<close> takes the branch of the cancelled context. The loop gets fuel;
  \<open>acquire_returns\<close> below says how much is enough.
\<close>

record acquire_env =
  ae_start :: int
  ae_read :: "nat \<Rightarrow> nat \<Rightarrow> int \<Rightarrow> int"
  ae_wake :: "nat \<Rightarrow> int \<Rightarrow> int \<Rightarrow> int"
  ae_others :: "nat \<Rightarrow> limiter \<Rightarrow> limiter"
  ae_cancel :: "nat \<Rightarrow> bool"

datatype acquire_result = Granted | Denied int

definition deny ::
  "acquire_env \<Rightarrow> nat \<Rightarrow> int \<Rightarrow> string \<Rightarrow> limiter \<Rightarrow> acquire_result \<times> limiter" where
  "deny env i now name l =
     (case retryAfter name (ae_read env i 0 now) (ae_others env i l) of (r, l1) \<Rightarrow> (Denied r, l1))"

fun acquire_loop ::
  "nat \<Rightarrow> acquire_env \<Rightarrow> nat \<Rightarrow> int \<Rightarrow> int \<Rightarrow> string \<Rightarrow> limiter \<Rightarrow>
   (acquire_result \<times> limiter) option" where
  "acquire_loop 0 env i now deadline name l = None"
| "acquire_loop (Suc n) env i now deadline name l =
     (case try_acquire (ae_read env i 0 now) name (ae_others env i l) of (ok, l1) \<Rightarrow>
        if ok then Some (Granted, l1)
        else
          let now1 = ae_read env i 1 now;
              wait = time_sub deadline now1
          in if wait \<le> 0 then Some (deny env (Suc i) now1 name l1)
             else
               let wait = (if wait > 10 * millisecond then 10 * millisecond else wait)
               in if ae_cancel env i then Some (deny env (Suc i) now1 name l1)
                  else acquire_loop n env (Suc i) (ae_wake env i now1 wait) deadline name l1)"

definition Acquire ::
  "nat \<Rightarrow> acquire_env \<Rightarrow> string \<Rightarrow> limiter \<Rightarrow> (acquire_result \<times> limiter) option" where
  "Acquire fuel env name l =
     acquire_loop fuel env 0 (ae_start env) (ae_start env + lm_queue_wait l) name l"

section \<open>The invariant\<close>

text \<open>
  \<open>lim_ok\<close>: every limit lies between 1 and the hard cap, and the global limit is the limit
  of the global state. \<open>accounts l h\<close>: the active counters count exactly the slots \<open>h\<close> that
  are out, and there are at most as many as the cap. The bound \<open>2 ^ 62\<close> on the cap keeps
  the sums in the 64-bit range.
\<close>

definition lim_ok :: "limiter \<Rightarrow> bool" where
  "lim_ok l \<longleftrightarrow>
     1 \<le> lm_max l \<and> lm_max l \<le> 2 ^ 62 \<and> 1 \<le> lm_global_limit l \<and> lm_global_limit l \<le> lm_max l \<and>
     cs_limit (lm_global l) = lm_global_limit l \<and> finite (dom (lm_chains l)) \<and>
     (\<forall>c st. lm_chains l c = Some st \<longrightarrow> 1 \<le> cs_limit st \<and> cs_limit st \<le> lm_max l)"

definition active_of :: "limiter \<Rightarrow> string \<Rightarrow> int" where
  "active_of l c = (case lm_chains l c of None \<Rightarrow> 0 | Some st \<Rightarrow> cs_active st)"

definition accounts :: "limiter \<Rightarrow> string multiset \<Rightarrow> bool" where
  "accounts l h \<longleftrightarrow>
     lm_global_active l = int (size h) \<and> (\<forall>c. active_of l c = int (count h c)) \<and>
     int (size h) \<le> lm_max l"

definition lim_inv :: "limiter \<Rightarrow> string multiset \<Rightarrow> bool" where
  "lim_inv l h \<longleftrightarrow> lim_ok l \<and> accounts l h"

lemma chain_of_props:
  assumes "chain_of l c now = (st, l1)"
  shows "lm_max l1 = lm_max l" "lm_global_limit l1 = lm_global_limit l"
    "lm_global_active l1 = lm_global_active l" "lm_global l1 = lm_global l"
    "lm_target l1 = lm_target l" "lm_interval l1 = lm_interval l"
    "lm_queue_wait l1 = lm_queue_wait l" "lm_chains l1 c = Some st" "cs_active st = active_of l c"
    "\<And>d. active_of l1 d = active_of l d"
  using assms
  by (auto simp: chain_of_def active_of_def new_chain_state_def Let_def
      split: option.splits if_splits)

lemma chain_of_ok:
  assumes "chain_of l c now = (st, l1)" and "lim_ok l"
  shows "lim_ok l1" and "1 \<le> cs_limit st" and "cs_limit st \<le> lm_max l"
  using assms
  by (auto simp: chain_of_def lim_ok_def new_chain_state_def Let_def
      split: option.splits if_splits)

lemma chain_of_inv: "chain_of l c now = (st, l1) \<Longrightarrow> lim_inv l h \<Longrightarrow> lim_inv l1 h"
  using chain_of_props [of l c now st l1] chain_of_ok [of l c now st l1]
  by (simp add: lim_inv_def accounts_def)

lemma active_of_set_chain:
  "active_of (set_chain l c st) d = (if d = c then cs_active st else active_of l d)"
  by (simp add: active_of_def set_chain_def)

lemma active_of_le_size: "accounts l h \<Longrightarrow> active_of l c \<le> int (size h)"
  by (simp add: accounts_def count_le_size)

lemma lim_ok_set_chain:
  "lim_ok l \<Longrightarrow> 1 \<le> cs_limit st \<Longrightarrow> cs_limit st \<le> lm_max l \<Longrightarrow> lim_ok (set_chain l c st)"
  by (auto simp: lim_ok_def set_chain_def)

lemma active_of_update [simp]:
  "active_of (l\<lparr>lm_global_active := g\<rparr>) c = active_of l c"
  "active_of (l\<lparr>lm_global_limit := k\<rparr>) c = active_of l c"
  "active_of (l\<lparr>lm_global := s\<rparr>) c = active_of l c"
  by (simp_all add: active_of_def)

lemma set_chain_fields [simp]:
  "lm_max (set_chain l c st) = lm_max l"
  "lm_global_limit (set_chain l c st) = lm_global_limit l"
  "lm_global_active (set_chain l c st) = lm_global_active l"
  "lm_global (set_chain l c st) = lm_global l"
  "lm_queue_wait (set_chain l c st) = lm_queue_wait l"
  by (simp_all add: set_chain_def)

lemma try_acquire_granted:
  assumes inv: "lim_inv l h" and tr: "try_acquire now c l = (True, l')"
  shows "lim_inv l' (add_mset c h)" and "int (size h) < lm_global_limit l"
proof -
  obtain st l1 where ch: "chain_of l c now = (st, l1)" by force
  note p = chain_of_props [OF ch] and ok = chain_of_ok [OF ch]
  have ok1: "lim_ok l" and acc: "accounts l h" using inv by (simp_all add: lim_inv_def)
  from tr ch have ga: "lm_global_active l1 < lm_global_limit l1"
    and l': "l' = set_chain (l1\<lparr>lm_global_active := wrap64 (lm_global_active l1 + 1)\<rparr>) c
               (st\<lparr>cs_active := wrap64 (cs_active st + 1)\<rparr>)"
    by (auto simp: try_acquire_def split: if_splits)
  have g: "lm_global_active l1 = int (size h)" using p acc by (simp add: accounts_def)
  have lim: "lm_global_limit l1 \<le> lm_max l" "lm_max l \<le> 2 ^ 62"
    using ok1 p by (simp_all add: lim_ok_def)
  have a: "cs_active st = int (count h c)" using p acc by (simp add: accounts_def)
  have "int (count h c) \<le> int (size h)" by (simp add: count_le_size)
  then have w: "wrap64 (lm_global_active l1 + 1) = int (size h) + 1"
    "wrap64 (cs_active st + 1) = int (count h c) + 1"
    using g ga lim a by (auto intro!: wrap64_small)
  have "lim_ok l1" by (rule ok(1) [OF ok1])
  then have "lim_ok (l1\<lparr>lm_global_active := wrap64 (lm_global_active l1 + 1)\<rparr>)"
    by (simp add: lim_ok_def)
  then have "lim_ok l'"
    unfolding l' by (rule lim_ok_set_chain) (simp_all add: ok(2,3) [OF ok1] p(1))
  moreover have "accounts l' (add_mset c h)"
    unfolding accounts_def
  proof (intro conjI allI)
    show "lm_global_active l' = int (size (add_mset c h))" by (simp add: l' w)
    show "active_of l' d = int (count (add_mset c h) d)" for d
      using acc by (simp add: l' w active_of_set_chain p(10) accounts_def)
    show "int (size (add_mset c h)) \<le> lm_max l'" using ga g lim p(1) by (simp add: l')
  qed
  ultimately show "lim_inv l' (add_mset c h)" by (simp add: lim_inv_def)
  show "int (size h) < lm_global_limit l" using ga g p by simp
qed

lemma try_acquire_denied:
  assumes inv: "lim_inv l h" and tr: "try_acquire now c l = (False, l')"
  shows "lim_inv l' h"
proof -
  obtain st l1 where ch: "chain_of l c now = (st, l1)" by force
  with tr have "l' = l1" by (auto simp: try_acquire_def split: if_splits)
  with chain_of_inv [OF ch inv] show ?thesis by simp
qed

lemma update_stats_fields [simp]:
  "cs_limit (update_stats st out) = cs_limit st"
  "cs_active (update_stats st out) = cs_active st"
  "cs_last (update_stats st out) = cs_last st"
  by (simp_all add: update_stats_def Let_def)

lemma next_limit_range:
  assumes "1 \<le> cs_limit st" and "cs_limit st \<le> lm_max l" and "lm_max l \<le> 2 ^ 62"
  shows "1 \<le> next_limit l st \<and> next_limit l st \<le> lm_max l"
proof -
  have "cs_limit st sdiv 2 = cs_limit st div 2" and "cs_limit st sdiv 5 = cs_limit st div 5"
    using assms by (simp_all add: sdiv_nonneg)
  moreover have "wrap64 (cs_limit st + cs_limit st div 5) = cs_limit st + cs_limit st div 5"
    and "wrap64 (cs_limit st + 1) = cs_limit st + 1"
    using assms by (auto intro!: wrap64_small)
  ultimately show ?thesis
    using assms by (auto simp: next_limit_def Let_def)
qed

lemma adjust_fields:
  assumes "adjust l st g now now' = (l1, st1)"
  shows "cs_active st1 = cs_active st" "lm_max l1 = lm_max l"
    "lm_global_active l1 = lm_global_active l" "lm_global l1 = lm_global l"
    "lm_chains l1 = lm_chains l" "\<And>c. active_of l1 c = active_of l c"
    "lm_queue_wait l1 = lm_queue_wait l"
    "\<not> g \<Longrightarrow> l1 = l"
    "g \<Longrightarrow> cs_limit st = lm_global_limit l \<Longrightarrow> lm_global_limit l1 = cs_limit st1"
  using assms by (auto simp: adjust_def Let_def active_of_def split: if_splits)

lemma adjust_range:
  assumes "adjust l st g now now' = (l1, st1)"
    and "1 \<le> cs_limit st" and "cs_limit st \<le> lm_max l" and "lm_max l \<le> 2 ^ 62"
  shows "1 \<le> cs_limit st1 \<and> cs_limit st1 \<le> lm_max l"
  using assms next_limit_range [OF assms(2-4)] by (auto simp: adjust_def Let_def split: if_splits)

lemma lim_okI:
  assumes "lim_ok l" and "lm_max l' = lm_max l" and "lm_chains l' = lm_chains l"
    and "cs_limit (lm_global l') = lm_global_limit l'"
    and "1 \<le> lm_global_limit l'" and "lm_global_limit l' \<le> lm_max l"
  shows "lim_ok l'"
  using assms by (simp add: lim_ok_def)

lemma release_shape:
  assumes ok: "lim_ok l" and r: "release out t l = l'"
  shows "lim_ok l'" "lm_max l' = lm_max l"
    "lm_global_active l' =
       (if lm_global_active l > 0 then lm_global_active l - 1 else lm_global_active l)"
    "\<And>d. active_of l' d =
       (if d = out_chain out \<and> active_of l d > 0 then active_of l d - 1 else active_of l d)"
proof -
  define c where "c = out_chain out"
  obtain st l1 where ch: "chain_of l c (t 0) = (st, l1)" by force
  note p = chain_of_props [OF ch]
  define l2 where "l2 = (if lm_global_active l1 > 0
      then l1\<lparr>lm_global_active := lm_global_active l1 - 1\<rparr> else l1)"
  define st1 where "st1 = (if cs_active st > 0 then st\<lparr>cs_active := cs_active st - 1\<rparr> else st)"
  obtain l3 g2 where a1: "adjust l2 (update_stats (lm_global l2) out) True (t 1) (t 2) = (l3, g2)"
    by force
  note q = adjust_fields [OF a1]
  obtain l5 st3 where a2:
    "adjust (l3\<lparr>lm_global := g2\<rparr>) (update_stats st1 out) False (t 3) (t 4) = (l5, st3)"
    by force
  note s = adjust_fields [OF a2]
  have l': "l' = set_chain l5 c st3"
    using r ch a1 a2 by (simp add: release_def c_def Let_def l2_def st1_def)
  have ok1: "lim_ok l1" and lim: "1 \<le> cs_limit st" "cs_limit st \<le> lm_max l"
    using chain_of_ok [OF ch ok] by auto
  have l2: "lm_max l2 = lm_max l" "lm_global l2 = lm_global l1" "lm_chains l2 = lm_chains l1"
    "lm_global_limit l2 = lm_global_limit l1" "\<And>d. active_of l2 d = active_of l d"
    "lim_ok l2"
    using ok1 p by (auto simp: l2_def lim_ok_def)
  have g: "cs_limit (lm_global l2) = lm_global_limit l2" "1 \<le> lm_global_limit l2"
    "lm_global_limit l2 \<le> lm_max l2" "lm_max l2 \<le> 2 ^ 62"
    using l2(6) by (simp_all add: lim_ok_def)
  have g2: "1 \<le> cs_limit g2 \<and> cs_limit g2 \<le> lm_max l2"
    using adjust_range [OF a1] g by simp
  have gl: "lm_global_limit l3 = cs_limit g2" using q(9) g(1) by simp
  have ok4: "lim_ok (l3\<lparr>lm_global := g2\<rparr>)"
    by (rule lim_okI [OF l2(6)]) (use gl g2 q(2,5) in simp_all)
  have "1 \<le> cs_limit st3 \<and> cs_limit st3 \<le> lm_max l"
    using adjust_range [OF a2] lim q(2) l2(1) g(4) by (simp add: st1_def)
  moreover have l5: "l5 = l3\<lparr>lm_global := g2\<rparr>" using s(8) by simp
  ultimately show "lim_ok l'"
    using ok4 q(2) l2(1) unfolding l' by (intro lim_ok_set_chain) simp_all
  show "lm_max l' = lm_max l" using l' l5 q(2) l2(1) by simp
  show "lm_global_active l' =
      (if lm_global_active l > 0 then lm_global_active l - 1 else lm_global_active l)"
    using l' l5 q(3) p(3) by (simp add: l2_def)
  show "active_of l' d =
      (if d = out_chain out \<and> active_of l d > 0 then active_of l d - 1 else active_of l d)" for d
    using l' l5 s(1) q(6) l2(5) p(9) by (simp add: active_of_set_chain st1_def c_def)
qed

lemma release_inv:
  assumes inv: "lim_inv l h" and c: "out_chain out \<in># h"
  shows "lim_inv (release out t l) (h - {#out_chain out#})"
proof -
  have ok: "lim_ok l" and acc: "accounts l h" using inv by (simp_all add: lim_inv_def)
  note r = release_shape [OF ok refl, of out t]
  have pos: "0 < count h (out_chain out)" using c by simp
  then have sz: "0 < size h" using count_le_size [of h "out_chain out"] by linarith
  have "accounts (release out t l) (h - {#out_chain out#})"
    unfolding accounts_def
  proof (intro conjI allI)
    show "lm_global_active (release out t l) = int (size (h - {#out_chain out#}))"
      using r(3) acc sz c by (simp add: accounts_def size_Diff_singleton)
    show "active_of (release out t l) d = int (count (h - {#out_chain out#}) d)" for d
      using r(4) [of d] acc pos by (auto simp: accounts_def)
    have "size (h - {#out_chain out#}) \<le> size h" by (simp add: size_mset_mono)
    then show "int (size (h - {#out_chain out#})) \<le> lm_max (release out t l)"
      using r(2) acc by (simp add: accounts_def)
  qed
  with r(1) show ?thesis by (simp add: lim_inv_def)
qed

lemma retryAfter_inv: "retryAfter c now l = (r, l1) \<Longrightarrow> lim_inv l h \<Longrightarrow> lim_inv l1 h"
  by (auto simp: retryAfter_def split: prod.splits dest: chain_of_inv)

lemma Register_inv: "lim_inv l h \<Longrightarrow> lim_inv (Register c now l) h"
  using chain_of_inv [of l c now] by (cases "chain_of l c now") (auto simp: Register_def)

lemma new_limiter_inv:
  assumes "cfg_max cfg \<le> 2 ^ 62"
  shows "lim_inv (new_limiter cfg now) {#}"
  using assms
  by (auto simp: lim_inv_def lim_ok_def accounts_def active_of_def new_limiter_def Let_def
      new_chain_state_def)

section \<open>The limiter as a pool of slots\<close>

text \<open>
  The operations a goroutine may run between an acquisition and its release. The closure
  \<^verbatim>\<open>Acquire\<close> returns is called with an outcome of the chain it was acquired for.
\<close>

datatype limiter_op = Op_register string int | Op_retry string int | Op_snapshot

fun limiter_other :: "limiter_op \<Rightarrow> limiter \<Rightarrow> limiter" where
  "limiter_other (Op_register c now) l = Register c now l"
| "limiter_other (Op_retry c now) l = snd (retryAfter c now l)"
| "limiter_other Op_snapshot l = l"

definition limiter_free :: "outcome \<times> (nat \<Rightarrow> int) \<Rightarrow> string \<Rightarrow> limiter \<Rightarrow> limiter" where
  "limiter_free y c l = release ((fst y)\<lparr>out_chain := c\<rparr>) (snd y) l"

definition lim_inv_at :: "int \<Rightarrow> limiter \<Rightarrow> string multiset \<Rightarrow> bool" where
  "lim_inv_at m l h \<longleftrightarrow> lim_inv l h \<and> lm_max l = m"

definition lim_within :: "int \<Rightarrow> limiter \<Rightarrow> string multiset \<Rightarrow> bool" where
  "lim_within m l h \<longleftrightarrow>
     lm_global_active l = int (size h) \<and> (\<forall>c. active_of l c = int (count h c)) \<and>
     int (size h) \<le> m \<and> 1 \<le> lm_global_limit l \<and> lm_global_limit l \<le> m"

lemma try_acquire_max: "try_acquire now c l = (b, l1) \<Longrightarrow> lm_max l1 = lm_max l"
  by (auto simp: try_acquire_def split: prod.splits if_splits dest: chain_of_props(1))

lemma limiter_other_inv: "lim_inv_at m l h \<Longrightarrow> lim_inv_at m (limiter_other z l) h"
proof (cases z)
  case (Op_register c now)
  assume a: "lim_inv_at m l h"
  obtain st l1 where ch: "chain_of l c now = (st, l1)" by force
  then have "limiter_other z l = l1" using Op_register by (simp add: Register_def)
  with a chain_of_inv [OF ch, of h] chain_of_props(1) [OF ch] show ?thesis
    by (simp add: lim_inv_at_def)
next
  case (Op_retry c now)
  assume a: "lim_inv_at m l h"
  obtain st l1 where ch: "chain_of l c now = (st, l1)" by force
  then have "limiter_other z l = l1" using Op_retry by (simp add: retryAfter_def)
  with a chain_of_inv [OF ch, of h] chain_of_props(1) [OF ch] show ?thesis
    by (simp add: lim_inv_at_def)
qed simp

interpretation lim: live_slot_pool try_acquire limiter_free limiter_other
  "lim_inv_at m" "lim_within m" for m
proof unfold_locales
  fix l h now c l'
  assume "lim_inv_at m l h" and "try_acquire now c l = (True, l')"
  then show "lim_inv_at m l' (add_mset c h)"
    using try_acquire_granted(1) try_acquire_max by (auto simp: lim_inv_at_def)
next
  fix l h now c l'
  assume "lim_inv_at m l h" and "try_acquire now c l = (False, l')"
  then show "lim_inv_at m l' h"
    using try_acquire_denied try_acquire_max by (auto simp: lim_inv_at_def)
next
  fix l h y c
  assume "lim_inv_at m l h" and "c \<in># h"
  then show "lim_inv_at m (limiter_free y c l) (h - {#c#})"
    using release_inv [of l h "(fst y)\<lparr>out_chain := c\<rparr>" "snd y"]
      release_shape(2) [of l "(fst y)\<lparr>out_chain := c\<rparr>" "snd y"]
    by (simp add: lim_inv_at_def limiter_free_def lim_inv_def)
next
  fix l h z
  assume "lim_inv_at m l h"
  then show "lim_inv_at m (limiter_other z l) h" by (rule limiter_other_inv)
next
  fix l h
  assume "lim_inv_at m l h"
  then show "lim_within m l h"
    by (auto simp: lim_inv_at_def lim_inv_def lim_ok_def accounts_def lim_within_def)
next
  fix l now c
  assume a: "lim_inv_at m l {#}"
  obtain st l1 where ch: "chain_of l c now = (st, l1)" by force
  have ok: "lim_ok l" and acc: "accounts l {#}"
    using a by (simp_all add: lim_inv_at_def lim_inv_def)
  have "lm_global_active l1 = 0" and "cs_active st = 0"
    using acc chain_of_props(3,9) [OF ch] by (simp_all add: accounts_def)
  moreover have "1 \<le> lm_global_limit l1"
    using ok chain_of_props(2) [OF ch] by (simp add: lim_ok_def)
  ultimately show "fst (try_acquire now c l)"
    using chain_of_ok(2) [OF ch ok] ch by (simp add: try_acquire_def)
qed

lemma new_limiter_inv_at:
  "cfg_max cfg \<le> 2 ^ 62 \<Longrightarrow> lim_inv_at (max 1 (cfg_max cfg)) (new_limiter cfg now) {#}"
  using new_limiter_inv [of cfg now] by (simp add: lim_inv_at_def new_limiter_def Let_def)

section \<open>Theorems\<close>


text \<open>
  No slot leaks: whatever happened before, once every slot is back the next try succeeds
  on every chain, so the limiter cannot shut the API down for good.
\<close>

theorem limiter_no_leak:
  assumes "cfg_max cfg \<le> 2 ^ 62"
    and "slot_run try_acquire limiter_free limiter_other es (new_limiter cfg now, {#}) = Some (l, {#})"
  shows "fst (try_acquire t c l)"
  by (rule lim.drained_grants [OF new_limiter_inv_at [OF assms(1)] assms(2)])

text \<open>
  What a snapshot of \<^verbatim>\<open>/v1/capacity\<close> says is consistent: the in-flight total is the
  sum over the chains, and the recommendation and every chain's limit are within the cap.
\<close>

theorem snapshot_consistent:
  assumes "lim_inv l h"
  shows "snap_in_flight (Snapshot l) =
      (\<Sum>c \<in> dom (snap_chains (Snapshot l)). snap_active (the (snap_chains (Snapshot l) c))) \<and>
    snap_recommended (Snapshot l) \<le> snap_max (Snapshot l) \<and>
    (\<forall>c s. snap_chains (Snapshot l) c = Some s \<longrightarrow>
       1 \<le> snap_limit s \<and> snap_limit s \<le> snap_max (Snapshot l) \<and> snap_active s = int (count h c))"
proof -
  have ok: "lim_ok l" and acc: "accounts l h" using assms by (simp_all add: lim_inv_def)
  have dom: "dom (snap_chains (Snapshot l)) = dom (lm_chains l)"
    by (auto simp: Snapshot_def dom_def)
  have act: "snap_active (the (snap_chains (Snapshot l) c)) = int (count h c)"
    if "c \<in> dom (lm_chains l)" for c
    using that acc by (auto simp: Snapshot_def accounts_def active_of_def split: option.splits)
  have "set_mset h \<subseteq> dom (lm_chains l)"
  proof
    fix c
    assume "c \<in># h"
    then have "active_of l c \<noteq> 0" using acc by (simp add: accounts_def)
    then show "c \<in> dom (lm_chains l)" by (auto simp: active_of_def split: option.splits)
  qed
  then have "(\<Sum>c \<in> dom (lm_chains l). count h c) = size h"
    using ok by (subst size_multiset_overloaded_eq, intro sum.mono_neutral_right)
      (auto simp: lim_ok_def not_in_iff)
  then have "(\<Sum>c \<in> dom (lm_chains l). int (count h c)) = int (size h)"
    by (metis of_nat_sum)
  then have "snap_in_flight (Snapshot l) =
      (\<Sum>c \<in> dom (snap_chains (Snapshot l)). snap_active (the (snap_chains (Snapshot l) c)))"
    using acc act by (simp add: dom accounts_def) (simp add: Snapshot_def)
  moreover have "snap_active s = int (count h c)" if "snap_chains (Snapshot l) c = Some s" for c s
    using act [of c] that dom by auto
  ultimately show ?thesis
    using ok by (auto simp: Snapshot_def lim_ok_def)
qed

lemma at_least_one: "(if k < 1 then 1 else k) = max 1 (k :: int)"
  by simp

lemma at_most: "(if m < k then m else k) = min m (k :: int)"
  by simp

text \<open>
  The control law. When a window is due (ten samples, interval elapsed), a failure or a
  latency above twice the target halves the limit, down to 1; a latency within the target
  raises it by a fifth, by at least 1 and at most to the cap; in between it stays. The window
  counters restart. When it is not due, nothing changes.
\<close>

theorem adjust_law:
  assumes "1 \<le> cs_limit st" and "cs_limit st \<le> lm_max l" and "lm_max l \<le> 2 ^ 62"
    and "0 \<le> lm_target l" and "lm_target l < 2 ^ 62"
    and "adjust l st global now now' = (l', st')"
  shows "if adjust_due l st now then
      cs_limit st' =
        (if 0 < cs_failures st \<or> lm_target l * 2 < cs_ewma st then max 1 (cs_limit st div 2)
         else if cs_ewma st \<le> lm_target l
         then min (lm_max l) (cs_limit st + max 1 (cs_limit st div 5))
         else cs_limit st) \<and>
      cs_samples st' = 0 \<and> cs_failures st' = 0 \<and> cs_last st' = now' \<and>
      l' = (if global then l\<lparr>lm_global_limit := cs_limit st'\<rparr> else l)
    else l' = l \<and> st' = st"
proof (cases "adjust_due l st now")
  case True
  have s: "cs_limit st sdiv 2 = cs_limit st div 2" "cs_limit st sdiv 5 = cs_limit st div 5"
    using assms(1) by (simp_all add: sdiv_nonneg)
  have w: "wrap64 (lm_target l * 2) = lm_target l * 2"
    "wrap64 (cs_limit st + max 1 (cs_limit st div 5)) = cs_limit st + max 1 (cs_limit st div 5)"
    using assms(1-5) by (simp_all add: wrap64_small max_def)
  have "next_limit l st =
      (if 0 < cs_failures st \<or> lm_target l * 2 < cs_ewma st then max 1 (cs_limit st div 2)
       else if cs_ewma st \<le> lm_target l
       then min (lm_max l) (cs_limit st + max 1 (cs_limit st div 5))
       else cs_limit st)"
    by (simp only: next_limit_def Let_def s at_least_one at_most w)
  moreover have "st' = st\<lparr>cs_limit := next_limit l st, cs_samples := 0, cs_failures := 0,
      cs_last := now'\<rparr>" and "l' = (if global then l\<lparr>lm_global_limit := next_limit l st\<rparr> else l)"
    using True assms(6) by (auto simp: adjust_def Let_def)
  ultimately show ?thesis using True by simp
next
  case False
  with assms(6) show ?thesis by (simp add: adjust_def)
qed


lemma acquire_loop_returns:
  assumes "\<And>i t d. 0 < d \<Longrightarrow> t + d \<le> ae_wake env i t d" and "\<And>i k t. t \<le> ae_read env i k t"
    and "deadline - now \<le> int n * (10 * millisecond)"
  shows "\<exists>r. acquire_loop (Suc n) env i now deadline c l = Some r"
  using assms(3)
proof (induction n arbitrary: i now l)
  case 0
  have "deadline - ae_read env i 1 now \<le> 0" using 0 assms(2) [of now i 1] by simp
  then have "time_sub deadline (ae_read env i 1 now) \<le> 0"
    by (simp add: time_sub_le_iff min_int64_def max_int64_def)
  then show ?case by (auto simp: Let_def split: prod.split)
next
  case (Suc n)
  define now1 where "now1 = ae_read env i 1 now"
  define wait where "wait = time_sub deadline now1"
  define wait' where "wait' = (if wait > 10 * millisecond then 10 * millisecond else wait)"
  define now2 where "now2 = ae_wake env i now1 wait'"
  have next_poll: "\<exists>r. acquire_loop (Suc n) env (Suc i) now2 deadline c l1 = Some r"
    if w: "0 < wait" for l1
  proof (rule Suc.IH)
    have n1: "now \<le> now1" using assms(2) by (simp add: now1_def)
    have w': "0 < wait'" using w by (simp add: wait'_def millisecond_def)
    then have "now1 + wait' \<le> now2" using assms(1) by (simp add: now2_def)
    moreover have "wait' = 10 * millisecond \<or> deadline - now1 \<le> wait'"
      by (auto simp: wait'_def wait_def time_sub_def millisecond_def max_int64_def min_int64_def
          split: if_splits)
    moreover have "deadline - now \<le> int n * (10 * millisecond) + 10 * millisecond"
      using Suc.prems by (simp add: algebra_simps)
    moreover have "0 \<le> int n * (10 * millisecond)" by (simp add: millisecond_def)
    ultimately show "deadline - now2 \<le> int n * (10 * millisecond)"
      using n1 by linarith
  qed
  show ?case
  proof (cases "try_acquire (ae_read env i 0 now) c (ae_others env i l)")
    case (Pair ok l1)
    show ?thesis
    proof (cases "ok \<or> wait \<le> 0 \<or> ae_cancel env i")
      case True
      with Pair show ?thesis
        by (auto simp: Let_def wait_def now1_def)
    next
      case False
      with Pair have "acquire_loop (Suc (Suc n)) env i now deadline c l =
          acquire_loop (Suc n) env (Suc i) now2 deadline c l1"
        by (subst acquire_loop.simps(2))
          (simp add: Let_def now2_def wait'_def wait_def now1_def del: acquire_loop.simps)
      with False next_poll [of l1] show ?thesis by simp
    qed
  qed
qed

text \<open>
  C29: \<^verbatim>\<open>Acquire\<close> returns. With timers that fire no earlier than asked and a clock that does
  not go back, the loop ends after at most \<open>queueWait / 10ms + 2\<close> polls, whatever the other
  goroutines do and whether or not a slot frees up.
\<close>

theorem acquire_returns:
  assumes "0 < lm_queue_wait l"
    and "\<And>i t d. 0 < d \<Longrightarrow> t + d \<le> ae_wake env i t d" and "\<And>i k t. t \<le> ae_read env i k t"
  shows "\<exists>r. Acquire (nat (lm_queue_wait l div (10 * millisecond)) + 2) env c l = Some r"
proof -
  define q where "q = lm_queue_wait l div (10 * millisecond)"
  have "lm_queue_wait l mod (10 * millisecond) < 10 * millisecond"
    by (simp add: millisecond_def)
  then have "lm_queue_wait l \<le> (q + 1) * (10 * millisecond)"
    using mult_div_mod_eq [of "10 * millisecond" "lm_queue_wait l"]
    by (simp add: q_def algebra_simps)
  then have "lm_queue_wait l \<le> (1 + q) * (10 * millisecond)" by (simp add: add.commute)
  moreover have "0 \<le> q" using assms(1) by (simp add: q_def millisecond_def)
  ultimately have
    "(ae_start env + lm_queue_wait l) - ae_start env \<le> int (Suc (nat q)) * (10 * millisecond)"
    by simp
  from acquire_loop_returns [OF assms(2,3) this]
  show ?thesis by (simp add: Acquire_def q_def del: acquire_loop.simps)
qed

lemma retryAfter_ok: "lim_ok l \<Longrightarrow> fst (retryAfter c now l) = 250 * millisecond"
  using chain_of_ok [of l c now] chain_of_props(2) [of l c now]
  by (cases "chain_of l c now") (auto simp: retryAfter_def lim_ok_def)

lemma try_acquire_ok: "try_acquire now c l = (b, l1) \<Longrightarrow> lim_ok l \<Longrightarrow> b \<or> lim_ok l1"
  by (auto simp: try_acquire_def split: prod.splits if_splits dest: chain_of_ok(1))

lemma acquire_loop_denied:
  assumes "\<And>i l. lim_ok l \<Longrightarrow> lim_ok (ae_others env i l)" and "lim_ok l"
    and "acquire_loop n env i now deadline c l = Some (Denied r, l')"
  shows "r = 250 * millisecond"
  using assms(2,3)
proof (induction n arbitrary: i now l)
  case (Suc n)
  obtain ok l1 where try1: "try_acquire (ae_read env i 0 now) c (ae_others env i l) = (ok, l1)"
    by force
  with Suc.prems have "\<not> ok" by (auto split: if_splits)
  with try1 try_acquire_ok assms(1) Suc.prems(1) have l1: "lim_ok l1" by blast
  have "fst (deny env (Suc i) t c l1) = Denied (250 * millisecond)" for t
    using retryAfter_ok [OF assms(1) [OF l1]] by (simp add: deny_def split: prod.splits)
      (metis fst_conv)
  with Suc.prems(2) try1 \<open>\<not> ok\<close> Suc.IH [OF l1] show ?case
    by (auto simp: Let_def split: if_splits) (metis acquire_result.inject fst_conv)+
qed simp

text \<open>
  A rejected caller is told to come back after 250 ms. The other branch of
  \<^verbatim>\<open>retryAfter\<close>, one second when a limit has fallen below 1, is never taken, because no limit
  ever does.
\<close>

theorem denied_retry_after:
  assumes "lim_ok l" and "\<And>i l. lim_ok l \<Longrightarrow> lim_ok (ae_others env i l)"
    and "Acquire fuel env c l = Some (Denied r, l')"
  shows "r = 250 * millisecond"
  using acquire_loop_denied [OF assms(2,1)] assms(3) by (simp add: Acquire_def)

section \<open>Witnesses\<close>

definition sample_cfg :: limiter_config where
  "sample_cfg = \<lparr>cfg_initial = 1, cfg_max = 2, cfg_queue_wait = 5 * millisecond,
     cfg_adjust_interval = 1, cfg_target_latency = second\<rparr>"

definition quiet_env :: acquire_env where
  "quiet_env = \<lparr>ae_start = 0, ae_read = (\<lambda>_ _ t. t), ae_wake = (\<lambda>_ t d. t + d),
     ae_others = (\<lambda>_ l. l), ae_cancel = (\<lambda>_. False)\<rparr>"

lemmas run_simps = try_acquire_def chain_of_def set_chain_def new_limiter_def new_chain_state_def
  limiter_free_def release_def update_stats_def adjust_def adjust_due_def wrap64_def Let_def
  sample_cfg_def

lemma sample_run:
  "\<exists>l. slot_run try_acquire limiter_free limiter_other
     [Other (Op_register ''btc'' 1), Try 2 ''btc'', Try 3 ''btc'']
     (new_limiter sample_cfg 0, {#}) = Some (l, {#''btc''#})"
  by (simp add: run_simps Register_def)

lemma sample_run_drained:
  "\<exists>l. slot_run try_acquire limiter_free limiter_other
     [Try 2 ''btc'', Free (\<lparr>out_chain = [], out_retryable = False, out_latency = 7\<rparr>, \<lambda>_. 9) ''btc'']
     (new_limiter sample_cfg 0, {#}) = Some (l, {#})"
  by (simp add: run_simps)


theorem limiter_no_leak_witness:
  "\<exists>l. slot_run try_acquire limiter_free limiter_other
     [Try 2 ''btc'', Free (\<lparr>out_chain = [], out_retryable = False, out_latency = 7\<rparr>, \<lambda>_. 9) ''btc'']
     (new_limiter sample_cfg 0, {#}) = Some (l, {#}) \<and> fst (try_acquire 9 ''tron'' l)"
proof -
  obtain l where run: "slot_run try_acquire limiter_free limiter_other
      [Try 2 ''btc'', Free (\<lparr>out_chain = [], out_retryable = False, out_latency = 7\<rparr>, \<lambda>_. 9) ''btc'']
      (new_limiter sample_cfg 0, {#}) = Some (l, {#})"
    using sample_run_drained by blast
  have "cfg_max sample_cfg \<le> 2 ^ 62" by (simp add: sample_cfg_def)
  from limiter_no_leak [OF this run] run show ?thesis by blast
qed

theorem snapshot_consistent_witness:
  "snap_recommended (Snapshot (new_limiter sample_cfg 0)) \<le> 2"
  using snapshot_consistent [OF new_limiter_inv [of sample_cfg 0]]
  by (simp add: sample_cfg_def Snapshot_def new_limiter_def Let_def)

definition full_window :: chain_state where
  "full_window = \<lparr>cs_limit = 8, cs_active = 0, cs_samples = 10, cs_failures = 1, cs_ewma = 5,
     cs_last = 0\<rparr>"

definition sample_limiter :: limiter where
  "sample_limiter = new_limiter (sample_cfg\<lparr>cfg_max := 10\<rparr>) 0"

theorem adjust_law_witness:
  "cs_limit (snd (adjust sample_limiter full_window False second second)) = 4"
  using adjust_law [of full_window sample_limiter False second second]
  by (cases "adjust sample_limiter full_window False second second")
    (simp add: full_window_def sample_limiter_def sample_cfg_def new_limiter_def Let_def
      adjust_due_def time_sub_def second_def millisecond_def max_int64_def min_int64_def)


theorem acquire_returns_witness:
  "\<exists>r. Acquire 2 quiet_env ''btc'' (new_limiter sample_cfg 0) = Some r"
proof -
  have qw: "lm_queue_wait (new_limiter sample_cfg 0) = 5000000"
    by (simp add: sample_cfg_def new_limiter_def Let_def millisecond_def)
  have "\<exists>r. Acquire (nat (lm_queue_wait (new_limiter sample_cfg 0) div (10 * millisecond)) + 2)
      quiet_env ''btc'' (new_limiter sample_cfg 0) = Some r"
    by (rule acquire_returns) (simp_all add: qw, simp_all add: quiet_env_def)
  then show ?thesis by (simp only: qw) (simp add: millisecond_def numeral_2_eq_2)
qed

definition busy_limiter :: limiter where
  "busy_limiter = snd (try_acquire 0 ''btc'' (new_limiter sample_cfg 0))"

lemma busy_ok: "lim_ok busy_limiter"
proof -
  have "try_acquire 0 ''btc'' (new_limiter sample_cfg 0) = (True, busy_limiter)"
    by (simp add: run_simps busy_limiter_def)
  moreover have "lim_inv (new_limiter sample_cfg 0) {#}"
    by (rule new_limiter_inv) (simp add: sample_cfg_def)
  ultimately show ?thesis using try_acquire_granted(1) by (auto simp: lim_inv_def)
qed

lemma busy_denied:
  "\<exists>r l. Acquire 2 quiet_env ''btc'' busy_limiter = Some (Denied r, l)"
  by (simp add: Acquire_def busy_limiter_def quiet_env_def run_simps deny_def retryAfter_def
      numeral_2_eq_2 time_sub_def millisecond_def max_int64_def min_int64_def)

theorem denied_retry_after_witness:
  "\<exists>l. Acquire 2 quiet_env ''btc'' busy_limiter = Some (Denied (250 * millisecond), l)"
proof -
  obtain r l where d: "Acquire 2 quiet_env ''btc'' busy_limiter = Some (Denied r, l)"
    using busy_denied by blast
  moreover have "r = 250 * millisecond"
    by (rule denied_retry_after [OF busy_ok _ d]) (simp add: quiet_env_def)
  ultimately show ?thesis by blast
qed

end
