(* ===== verification/Api.thy ===== *)
theory Api
  imports Limiter Providers
begin

text \<open>
  What the balance API and the startup check have in common: one provider query under a slot
  of the adaptive limiter. The order of the calls to the limiter and the provider is recorded
  as a trace.
\<close>

text \<open>
  The environment of one query: the polls of \<^verbatim>\<open>Acquire\<close> and their fuel, what the provider
  answers for a chain and an address, what the other goroutines do to the limiter while the
  query runs, its latency, and the clock readings of \<^verbatim>\<open>release\<close>.
\<close>

record call_env =
  ce_fuel :: nat
  ce_acquire :: acquire_env
  ce_query :: "string \<Rightarrow> string \<Rightarrow> go_error + balance"
  ce_others :: "limiter \<Rightarrow> limiter"
  ce_latency :: int
  ce_clock :: "nat \<Rightarrow> int"

datatype api_call = Api_try string bool | Api_query string string | Api_free outcome

text \<open>\<^verbatim>\<open>asProviderError\<close> of the API: an unknown error counts as temporary.\<close>

definition apiError :: "go_error \<Rightarrow> string \<Rightarrow> provider_error" where
  "apiError e fallback =
     (case e of
        Perr pe \<Rightarrow> pe
      | Other_error m \<Rightarrow>
          \<lparr>pe_code = ''rpc_error'', pe_provider = fallback, pe_status = 0, pe_retry_after = 0,
           pe_temporary = True, pe_err = Some m\<rparr>)"

text \<open>The query and the release of its slot.\<close>

definition query_outcome :: "call_env \<Rightarrow> string \<Rightarrow> string \<Rightarrow> outcome" where
  "query_outcome env chain addr =
     \<lparr>out_chain = chain,
      out_retryable =
        (case ce_query env chain addr of Inl e \<Rightarrow> pe_temporary (apiError e chain) | Inr _ \<Rightarrow> False),
      out_latency = ce_latency env\<rparr>"

definition query_slot :: "call_env \<Rightarrow> string \<Rightarrow> string \<Rightarrow> limiter \<Rightarrow> api_call list \<times> limiter" where
  "query_slot env chain addr l =
     ([Api_query chain addr, Api_free (query_outcome env chain addr)],
      release (query_outcome env chain addr) (ce_clock env) (ce_others env l))"

section \<open>Slots are given back\<close>

text \<open>The other goroutines keep the accounts of the slots \<open>h\<close> that do not belong to them.\<close>

definition fair_others :: "call_env \<Rightarrow> bool" where
  "fair_others env \<longleftrightarrow>
     (\<forall>l h. lim_inv l h \<longrightarrow> lim_inv (ce_others env l) h) \<and>
     (\<forall>i l h. lim_inv l h \<longrightarrow> lim_inv (ae_others (ce_acquire env) i l) h)"

lemma deny_inv:
  assumes "fair_others env" and "lim_inv l h" and "deny (ce_acquire env) i now c l = (r, l')"
  shows "lim_inv l' h \<and> (\<exists>d. r = Denied d)"
proof -
  let ?l = "ae_others (ce_acquire env) i l"
  have "lim_inv ?l h" using assms(1,2) by (simp add: fair_others_def)
  then show ?thesis
    using assms(3) chain_of_inv [of ?l c "ae_read (ce_acquire env) i 0 now"]
    by (auto simp: deny_def retryAfter_def split: prod.splits)
qed

lemma acquire_loop_inv:
  assumes "fair_others env" and "lim_inv l h"
    and "acquire_loop n (ce_acquire env) i now deadline c l = Some (r, l')"
  shows "lim_inv l' (if r = Granted then add_mset c h else h)"
  using assms(2,3)
proof (induction n arbitrary: i now l)
  case (Suc n)
  let ?e = "ce_acquire env"
  let ?l = "ae_others ?e i l"
  have l: "lim_inv ?l h" using assms(1) Suc.prems(1) by (simp add: fair_others_def)
  obtain ok l1 where t: "try_acquire (ae_read ?e i 0 now) c ?l = (ok, l1)" by fastforce
  show ?case
  proof (cases ok)
    case True
    with Suc.prems(2) t have "r = Granted" "l' = l1" by simp_all
    with try_acquire_granted(1) [OF l] t True show ?thesis by simp
  next
    case False
    with t have l1: "lim_inv l1 h" using try_acquire_denied [OF l] by simp
    let ?now1 = "ae_read ?e i 1 now"
    let ?wait = "time_sub deadline ?now1"
    show ?thesis
    proof (cases "?wait \<le> 0 \<or> ae_cancel ?e i")
      case True
      with Suc.prems(2) t False have "deny ?e (Suc i) ?now1 c l1 = (r, l')"
        by (auto simp: Let_def split: if_splits)
      from deny_inv [OF assms(1) l1 this] show ?thesis by auto
    next
      case go: False
      with Suc.prems(2) t False have
        "acquire_loop n ?e (Suc i) (ae_wake ?e i ?now1
           (if ?wait > 10 * millisecond then 10 * millisecond else ?wait)) deadline c l1 = Some (r, l')"
        by (simp add: Let_def cong: if_cong split del: if_split)
      with Suc.IH [OF l1] show ?thesis by blast
    qed
  qed
qed simp

lemma Acquire_inv:
  assumes "fair_others env" and "lim_inv l h"
    and "Acquire (ce_fuel env) (ce_acquire env) c l = Some (r, l')"
  shows "lim_inv l' (if r = Granted then add_mset c h else h)"
  using acquire_loop_inv [OF assms(1,2)] assms(3) by (simp add: Acquire_def)

lemma query_slot_inv:
  assumes "fair_others env" and "lim_inv l (add_mset c h)" and "query_slot env c a l = (tr, l')"
  shows "lim_inv l' h"
proof -
  have "lim_inv (ce_others env l) (add_mset c h)" using assms(1,2) by (simp add: fair_others_def)
  from release_inv [OF this, of "query_outcome env c a" "ce_clock env"] assms(3) show ?thesis
    by (auto simp: query_slot_def query_outcome_def)
qed

text \<open>
  The traces a query may leave: no call, a refused try, or a granted try followed by exactly
  one query of the same chain and exactly one release of its slot.
\<close>

definition slot_trace :: "string \<Rightarrow> string \<Rightarrow> api_call list \<Rightarrow> bool" where
  "slot_trace c a tr \<longleftrightarrow>
     tr = [] \<or> tr = [Api_try c False] \<or>
     (\<exists>out. tr = [Api_try c True, Api_query c a, Api_free out] \<and> out_chain out = c)"

lemma slot_trace_simps [simp]:
  "slot_trace c a []" "slot_trace c a [Api_try c False]"
  "slot_trace c a (Api_try c True # fst (query_slot env c a l))"
  by (auto simp: slot_trace_def query_slot_def query_outcome_def)

end
