(* ===== verification/Wallet.thy ===== *)
theory Wallet
  imports Programs "HOL-Library.Word"
begin

text \<open>
  \<^verbatim>\<open>internal/wallet\<close>: the generation of a wallet and the derivation of one address per
  network. The cryptography is third-party code (\<^verbatim>\<open>bip39\<close>, \<^verbatim>\<open>bip32\<close>, \<^verbatim>\<open>crypto\<close>,
  \<^verbatim>\<open>base58\<close>, \<^verbatim>\<open>ed25519\<close>, \<^verbatim>\<open>hmac\<close>) and a parameter: the record \<open>crypto\<close> holds
  the functions the sources call. What is modelled is which of them are called, on what and in
  which order, and the derivation paths.
\<close>

unbundle bit_operations_syntax

type_synonym octets = "8 word list"

text \<open>\<open>'k\<close>: an extended key of \<^verbatim>\<open>bip32\<close>, \<open>'p\<close>: a private key of \<^verbatim>\<open>ecdsa\<close>.\<close>

record ('k, 'p) crypto =
  cr_entropy :: "int \<Rightarrow> string + octets"
  cr_mnemonic :: "octets \<Rightarrow> string + string"
  cr_valid :: "string \<Rightarrow> bool"
  cr_seed :: "string \<Rightarrow> octets"
  cr_master :: "octets \<Rightarrow> string + 'k"
  cr_child :: "'k \<Rightarrow> 32 word \<Rightarrow> string + 'k"
  cr_ecdsa :: "'k \<Rightarrow> string + 'p"
  cr_compress :: "'p \<Rightarrow> octets"
  cr_hash160 :: "octets \<Rightarrow> octets"
  cr_witness :: "octets \<Rightarrow> string + string"
  cr_eth_address :: "'p \<Rightarrow> octets"
  cr_hex :: "octets \<Rightarrow> string"
  cr_base58 :: "octets \<Rightarrow> string"
  cr_base58check :: "octets \<Rightarrow> 8 word \<Rightarrow> string"
  cr_ed_public :: "octets \<Rightarrow> octets"
  cr_hmac512 :: "octets \<Rightarrow> octets \<Rightarrow> octets"

section \<open>Paths\<close>

definition BTCPath :: string where "BTCPath = ''m/84'/0'/0'/0/0''"
definition ETHPath :: string where "ETHPath = ''m/44'/60'/0'/0/0''"
definition SOLPath :: string where "SOLPath = ''m/44'/501'/0'/0'' @ [CHR 0x27]"
definition TRXPath :: string where "TRXPath = ''m/44'/195'/0'/0/0''"

text \<open>\<^verbatim>\<open>bip32.FirstHardenedChild\<close> is \<open>0x80000000\<close>.\<close>

definition first_hardened :: "32 word" where
  "first_hardened = 0x80000000"

definition btcDerivation :: "32 word list" where
  "btcDerivation = [84 + first_hardened, 0 + first_hardened, 0 + first_hardened, 0, 0]"

definition ethDerivation :: "32 word list" where
  "ethDerivation = [44 + first_hardened, 60 + first_hardened, 0 + first_hardened, 0, 0]"

definition trxDerivation :: "32 word list" where
  "trxDerivation = [44 + first_hardened, 195 + first_hardened, 0 + first_hardened, 0, 0]"

definition solanaHardened :: "32 word" where
  "solanaHardened = push_bit 31 1"

definition solDerivation :: "32 word list" where
  "solDerivation =
     [44 OR solanaHardened, 501 OR solanaHardened, 0 OR solanaHardened, 0 OR solanaHardened]"

section \<open>Keys\<close>

fun child_keys :: "('k, 'p) crypto \<Rightarrow> 'k \<Rightarrow> 32 word list \<Rightarrow> string + 'k" where
  "child_keys cr key [] = Inr key"
| "child_keys cr key (i # is) =
     (case cr_child cr key i of Inl e \<Rightarrow> Inl e | Inr key' \<Rightarrow> child_keys cr key' is)"

definition deriveSecpPrivate :: "('k, 'p) crypto \<Rightarrow> octets \<Rightarrow> 32 word list \<Rightarrow> string + 'p" where
  "deriveSecpPrivate cr seed path =
     (case cr_master cr seed of
        Inl e \<Rightarrow> Inl e
      | Inr key \<Rightarrow> (case child_keys cr key path of Inl e \<Rightarrow> Inl e | Inr key' \<Rightarrow> cr_ecdsa cr key'))"

definition deriveBTC :: "('k, 'p) crypto \<Rightarrow> octets \<Rightarrow> string + string" where
  "deriveBTC cr seed =
     (case deriveSecpPrivate cr seed btcDerivation of
        Inl e \<Rightarrow> Inl e
      | Inr p \<Rightarrow> cr_witness cr (cr_hash160 cr (cr_compress cr p)))"

definition deriveETH :: "('k, 'p) crypto \<Rightarrow> octets \<Rightarrow> string + string" where
  "deriveETH cr seed =
     (case deriveSecpPrivate cr seed ethDerivation of
        Inl e \<Rightarrow> Inl e
      | Inr p \<Rightarrow> Inr (cr_hex cr (cr_eth_address cr p)))"

definition deriveTRX :: "('k, 'p) crypto \<Rightarrow> octets \<Rightarrow> string + string" where
  "deriveTRX cr seed =
     (case deriveSecpPrivate cr seed trxDerivation of
        Inl e \<Rightarrow> Inl e
      | Inr p \<Rightarrow> Inr (cr_base58check cr (cr_eth_address cr p) 0x41))"

definition octets_of :: "string \<Rightarrow> octets" where
  "octets_of s = map (\<lambda>c. word_of_nat (of_char c)) s"

definition be32 :: "32 word \<Rightarrow> octets" where
  "be32 i = [ucast (drop_bit 24 i), ucast (drop_bit 16 i), ucast (drop_bit 8 i), ucast i]"

fun ed_children ::
  "(octets \<Rightarrow> octets \<Rightarrow> octets) \<Rightarrow> octets \<Rightarrow> octets \<Rightarrow> 32 word list \<Rightarrow> string + octets" where
  "ed_children hmac key chainCode [] = Inr key"
| "ed_children hmac key chainCode (i # is) =
     (if i < solanaHardened
      then Inl (''ed25519 path contains non-hardened index '' @ show_int (uint i))
      else
        let state = hmac chainCode ([0] @ key @ be32 i)
        in ed_children hmac (take 32 state) (drop 32 state) is)"

definition deriveEd25519Hardened ::
  "(octets \<Rightarrow> octets \<Rightarrow> octets) \<Rightarrow> octets \<Rightarrow> 32 word list \<Rightarrow> string + octets" where
  "deriveEd25519Hardened hmac seed path =
     (let state = hmac (octets_of ''ed25519 seed'') seed
      in ed_children hmac (take 32 state) (drop 32 state) path)"

definition deriveSOL :: "('k, 'p) crypto \<Rightarrow> octets \<Rightarrow> string + string" where
  "deriveSOL cr seed =
     (case deriveEd25519Hardened (cr_hmac512 cr) seed solDerivation of
        Inl e \<Rightarrow> Inl e
      | Inr key \<Rightarrow> Inr (cr_base58 cr (cr_ed_public cr key)))"

section \<open>Wallets\<close>

record wallet_address =
  wd_address :: string
  wd_path :: string

record wallet_addresses =
  ws_btc :: wallet_address
  ws_eth :: wallet_address
  ws_sol :: wallet_address
  ws_trx :: wallet_address

record wallet =
  wl_mnemonic :: string
  wl_addresses :: wallet_addresses

definition wrap_err :: "string \<Rightarrow> string + 'a \<Rightarrow> string + 'a" where
  "wrap_err m x = (case x of Inl e \<Rightarrow> Inl (m @ e) | Inr y \<Rightarrow> Inr y)"

definition and_then :: "string + 'a \<Rightarrow> ('a \<Rightarrow> string + 'b) \<Rightarrow> string + 'b" where
  "and_then x f = (case x of Inl e \<Rightarrow> Inl e | Inr y \<Rightarrow> f y)"

definition Derive :: "('k, 'p) crypto \<Rightarrow> string \<Rightarrow> string + wallet" where
  "Derive cr mnemonic =
     (if \<not> cr_valid cr mnemonic then Inl ''invalid BIP-39 mnemonic''
      else
        let seed = cr_seed cr mnemonic in
        and_then (wrap_err ''derive BTC address: '' (deriveBTC cr seed)) (\<lambda>btc.
        and_then (wrap_err ''derive ETH address: '' (deriveETH cr seed)) (\<lambda>eth.
        and_then (wrap_err ''derive Solana address: '' (deriveSOL cr seed)) (\<lambda>sol.
        and_then (wrap_err ''derive TRX address: '' (deriveTRX cr seed)) (\<lambda>trx.
          Inr \<lparr>wl_mnemonic = mnemonic,
               wl_addresses =
                 \<lparr>ws_btc = \<lparr>wd_address = btc, wd_path = BTCPath\<rparr>,
                  ws_eth = \<lparr>wd_address = eth, wd_path = ETHPath\<rparr>,
                  ws_sol = \<lparr>wd_address = sol, wd_path = SOLPath\<rparr>,
                  ws_trx = \<lparr>wd_address = trx, wd_path = TRXPath\<rparr>\<rparr>\<rparr>)))))"

definition entropyBits :: "int \<Rightarrow> string + int" where
  "entropyBits words =
     (if words = 12 then Inr 128 else if words = 24 then Inr 256
      else Inl (''--words must be 12 or 24, got '' @ show_int words))"

definition Generate :: "('k, 'p) crypto \<Rightarrow> int \<Rightarrow> string + wallet" where
  "Generate cr words =
     and_then (entropyBits words) (\<lambda>bits.
     and_then (wrap_err ''generate secure entropy: '' (cr_entropy cr bits)) (\<lambda>entropy.
     and_then (wrap_err ''create BIP-39 mnemonic: '' (cr_mnemonic cr entropy)) (\<lambda>mnemonic.
       Derive cr mnemonic)))"

section \<open>The reported paths\<close>

text \<open>
  A reader of BIP-32 path strings: \<^verbatim>\<open>m\<close>, then indices separated by slashes, an apostrophe
  marking a hardened one.
\<close>

fun slashes :: "string \<Rightarrow> string list" where
  "slashes [] = [[]]"
| "slashes (c # cs) =
     (if c = CHR ''/'' then [] # slashes cs
      else (case slashes cs of [] \<Rightarrow> [[c]] | x # xs \<Rightarrow> (c # x) # xs))"

definition path_index :: "string \<Rightarrow> 32 word option" where
  "path_index s =
     (if s \<noteq> [] \<and> last s = CHR 0x27
      then map_option (\<lambda>n. word_of_nat n + 2 ^ 31) (unsigned_val 10 (butlast s))
      else map_option word_of_nat (unsigned_val 10 s))"

definition parse_path :: "string \<Rightarrow> 32 word list option" where
  "parse_path s =
     (case slashes s of
        [] \<Rightarrow> None
      | m # ps \<Rightarrow> if m = ''m'' then those (map path_index ps) else None)"

lemma parsed_paths:
  "parse_path BTCPath = Some btcDerivation" "parse_path ETHPath = Some ethDerivation"
  "parse_path SOLPath = Some solDerivation" "parse_path TRXPath = Some trxDerivation"
  by code_simp+

section \<open>SLIP-0010\<close>

text \<open>
  The reference for Solana keys: the master key and the hardened child of SLIP-0010, folded
  over the path.
\<close>

definition slip10_master :: "(octets \<Rightarrow> octets \<Rightarrow> octets) \<Rightarrow> octets \<Rightarrow> octets \<times> octets" where
  "slip10_master hmac seed =
     (let d = hmac (octets_of ''ed25519 seed'') seed in (take 32 d, drop 32 d))"

definition slip10_child :: "(octets \<Rightarrow> octets \<Rightarrow> octets) \<Rightarrow> octets \<times> octets \<Rightarrow> 32 word \<Rightarrow> octets \<times> octets" where
  "slip10_child hmac kc i =
     (let d = hmac (snd kc) (0 # fst kc @ be32 i) in (take 32 d, drop 32 d))"

definition slip10 :: "(octets \<Rightarrow> octets \<Rightarrow> octets) \<Rightarrow> octets \<Rightarrow> 32 word list \<Rightarrow> octets" where
  "slip10 hmac seed path = fst (foldl (slip10_child hmac) (slip10_master hmac seed) path)"

lemma ed_children_slip10:
  "ed_children hmac key cc path =
     (case List.find (\<lambda>i. i < solanaHardened) path of
        None \<Rightarrow> Inr (fst (foldl (slip10_child hmac) (key, cc) path))
      | Some i \<Rightarrow> Inl (''ed25519 path contains non-hardened index '' @ show_int (uint i)))"
  by (induction path arbitrary: key cc)
    (simp_all add: slip10_child_def Let_def split: option.split)

lemma derive_slip10:
  "deriveEd25519Hardened hmac seed path =
     (case List.find (\<lambda>i. i < solanaHardened) path of
        None \<Rightarrow> Inr (slip10 hmac seed path)
      | Some i \<Rightarrow> Inl (''ed25519 path contains non-hardened index '' @ show_int (uint i)))"
  by (simp add: deriveEd25519Hardened_def ed_children_slip10 slip10_def slip10_master_def Let_def
      split: option.split)

lemma slip10_length:
  assumes "\<And>k m. length (hmac k m) = 64"
  shows "length (slip10 hmac seed path) = 32"
  using assms
  by (cases path rule: rev_cases) (simp_all add: slip10_def slip10_master_def slip10_child_def Let_def)

lemma solDerivation_hardened: "List.find (\<lambda>i. i < solanaHardened) solDerivation = None"
  by code_simp

lemma deriveSOL_slip10:
  "deriveSOL cr seed =
     Inr (cr_base58 cr (cr_ed_public cr (slip10 (cr_hmac512 cr) seed solDerivation)))"
  by (simp add: deriveSOL_def derive_slip10 solDerivation_hardened)

section \<open>Properties\<close>

text \<open>The address is the encoding of the key at the end of the path reported beside it.\<close>

definition secp_at ::
  "('k, 'p) crypto \<Rightarrow> octets \<Rightarrow> ('p \<Rightarrow> string + string) \<Rightarrow> wallet_address \<Rightarrow> bool" where
  "secp_at cr seed encode a \<longleftrightarrow>
     (\<exists>path p. parse_path (wd_path a) = Some path \<and> deriveSecpPrivate cr seed path = Inr p \<and>
        encode p = Inr (wd_address a))"

definition ed_at :: "('k, 'p) crypto \<Rightarrow> octets \<Rightarrow> wallet_address \<Rightarrow> bool" where
  "ed_at cr seed a \<longleftrightarrow>
     (\<exists>path. parse_path (wd_path a) = Some path \<and>
        wd_address a = cr_base58 cr (cr_ed_public cr (slip10 (cr_hmac512 cr) seed path)))"

definition wallet_at :: "('k, 'p) crypto \<Rightarrow> wallet \<Rightarrow> bool" where
  "wallet_at cr w \<longleftrightarrow>
     (let seed = cr_seed cr (wl_mnemonic w); as = wl_addresses w in
        cr_valid cr (wl_mnemonic w) \<and>
        secp_at cr seed (\<lambda>p. cr_witness cr (cr_hash160 cr (cr_compress cr p))) (ws_btc as) \<and>
        secp_at cr seed (\<lambda>p. Inr (cr_hex cr (cr_eth_address cr p))) (ws_eth as) \<and>
        ed_at cr seed (ws_sol as) \<and>
        secp_at cr seed (\<lambda>p. Inr (cr_base58check cr (cr_eth_address cr p) 0x41)) (ws_trx as))"

lemma and_then_Inr: "and_then x f = Inr y \<longleftrightarrow> (\<exists>z. x = Inr z \<and> f z = Inr y)"
  by (cases x) (simp_all add: and_then_def)

lemma wrap_err_Inr [simp]: "wrap_err m x = Inr y \<longleftrightarrow> x = Inr y"
  by (cases x) (simp_all add: wrap_err_def)

lemma sum_bind_Inr:
  "(case x of Inl e \<Rightarrow> Inl e | Inr p \<Rightarrow> f p) = Inr y \<longleftrightarrow> (\<exists>p. x = Inr p \<and> f p = Inr y)"
  by (cases x) simp_all

lemma Derive_at: "Derive cr m = Inr w \<Longrightarrow> wallet_at cr w \<and> wl_mnemonic w = m"
  by (auto simp: Derive_def Let_def and_then_Inr wallet_at_def secp_at_def ed_at_def parsed_paths
      deriveBTC_def deriveETH_def deriveTRX_def deriveSOL_slip10 sum_bind_Inr split: if_splits)



section \<open>Witnesses\<close>

definition toy_crypto :: "(nat, nat) crypto" where
  "toy_crypto =
     \<lparr>cr_entropy = (\<lambda>b. Inr [word_of_int b]), cr_mnemonic = (\<lambda>e. Inr ''abandon''),
      cr_valid = (\<lambda>m. m = ''abandon''), cr_seed = octets_of,
      cr_master = (\<lambda>s. Inr (length s)), cr_child = (\<lambda>k i. Inr (k + unat (i AND 255))),
      cr_ecdsa = Inr, cr_compress = (\<lambda>p. replicate 33 (word_of_nat p)), cr_hash160 = take 20,
      cr_witness = (\<lambda>h. Inr (''bc1'' @ show_int (int (length h)))),
      cr_eth_address = (\<lambda>p. replicate 20 (word_of_nat p)), cr_hex = (\<lambda>b. ''0x''),
      cr_base58 = (\<lambda>b. ''S''), cr_base58check = (\<lambda>b v. ''T''), cr_ed_public = id,
      cr_hmac512 = (\<lambda>k m. take 64 (k @ m @ replicate 64 0))\<rparr>"



end
