(* ===== verification/Startup.thy ===== *)
theory Startup
  imports Api Wallet Store_Addresses Store_Findings
begin

text \<open>
  \<^verbatim>\<open>internal/startupcheck\<close>: at the start of the service one wallet is generated, its
  addresses are stored, each of the six targets is queried once under the limiter of the API,
  and one row per target records what came out.
\<close>

section \<open>The service\<close>

text \<open>
  The interface \<^verbatim>\<open>Store\<close> as a record of its two operations, and the service with its
  providers and whether it has a limiter.
\<close>

record startup_store =
  ss_insert :: "uuid \<Rightarrow> address_input list \<Rightarrow> int list dbp"
  ss_save :: "wallet_check \<Rightarrow> unit dbp"

record startup_service =
  su_store :: startup_store
  su_providers :: "string list"
  su_limited :: bool

record target =
  tg_address_id :: int
  tg_type :: string
  tg_chain :: string
  tg_address :: string

text \<open>
  The six checks run as goroutines: what the \<open>i\<close>-th one meets is its own \<open>call_env\<close>, in which
  the others act on the limiter, the limiter it finds and its reading of the clock.
\<close>

record startup_env =
  se_call :: "nat \<Rightarrow> call_env"
  se_limiter :: "nat \<Rightarrow> limiter"
  se_now :: "nat \<Rightarrow> int"

datatype startup_error =
    Su_generate string
  | Su_insert db_error
  | Su_count nat nat
  | Su_save db_error

definition defaultWordCount :: int where
  "defaultWordCount = 12"

definition durationMillis :: "int \<Rightarrow> int option" where
  "durationMillis v =
     (if v \<le> 0 then None else let ms = v sdiv millisecond in Some (if ms < 1 then 1 else ms))"

section \<open>One check\<close>

definition fresh_check :: "int \<Rightarrow> target \<Rightarrow> wallet_check" where
  "fresh_check now t =
     \<lparr>wc_address_id = tg_address_id t, wc_chain = tg_chain t, wc_state = ''retry'', wc_balance = [],
      wc_symbol = [], wc_code = [], wc_message = [], wc_provider = [], wc_retry_ms = None,
      wc_checked_at = now\<rparr>"

definition failed_check :: "string \<Rightarrow> string \<Rightarrow> string \<Rightarrow> int option \<Rightarrow> wallet_check \<Rightarrow> wallet_check" where
  "failed_check code message provider ms c =
     c\<lparr>wc_code := code, wc_message := message, wc_provider := provider, wc_retry_ms := ms\<rparr>"

definition answer_check :: "int \<Rightarrow> target \<Rightarrow> go_error + balance \<Rightarrow> wallet_check" where
  "answer_check now t res =
     (case res of
        Inl e \<Rightarrow>
          let pe = apiError e (tg_chain t)
          in failed_check (pe_code pe) (error_text pe) (pe_provider pe)
               (durationMillis (pe_retry_after pe)) (fresh_check now t)
      | Inr b \<Rightarrow>
          let invalid = failed_check ''response_decode_error'' ''provider returned an invalid balance''
                (tg_chain t) None (fresh_check now t)
          in case bal_atomic b of
               None \<Rightarrow> invalid
             | Some n \<Rightarrow>
                 if n < 0 \<or> bal_symbol b = [] then invalid
                 else (fresh_check now t)\<lparr>wc_state := ''checked'', wc_balance := show_int n,
                        wc_symbol := bal_symbol b, wc_provider := bal_provider b\<rparr>)"

definition startup_check ::
  "startup_service \<Rightarrow> call_env \<Rightarrow> int \<Rightarrow> target \<Rightarrow> limiter \<Rightarrow>
   (wallet_check \<times> api_call list \<times> limiter) option" where
  "startup_check su env now t l =
     (let chain = tg_chain t; c = fresh_check now t
      in if \<not> su_limited su then
           Some (failed_check ''capacity_unavailable'' ''capacity controller unavailable'' chain None c, [], l)
         else if chain \<notin> set (su_providers su) then
           Some (failed_check ''provider_unconfigured'' ''provider is not configured'' chain None c, [], l)
         else
           (case Acquire (ce_fuel env) (ce_acquire env) chain l of
              None \<Rightarrow> None
            | Some (Denied d, l1) \<Rightarrow>
                Some (failed_check ''capacity_exhausted'' ''provider capacity is temporarily full'' chain
                        (durationMillis d) c, [Api_try chain False], l1)
            | Some (Granted, l1) \<Rightarrow>
                (case query_slot env chain (tg_address t) l1 of
                   (tr, l2) \<Rightarrow>
                     Some (answer_check now t (ce_query env chain (tg_address t)),
                       Api_try chain True # tr, l2))))"

section \<open>The run\<close>

definition startup_inputs :: "wallet_addresses \<Rightarrow> address_input list" where
  "startup_inputs as =
     (let input = (\<lambda>t a. \<lparr>ai_type = t, ai_address = wd_address a, ai_normalized = wd_address a,
                         ai_label = ''startup-generated''\<rparr>)
      in [input TypeBTC (ws_btc as), input TypeEVM (ws_eth as), input TypeSOL (ws_sol as),
          input TypeTRX (ws_trx as)])"

definition startup_targets :: "wallet_addresses \<Rightarrow> int list \<Rightarrow> target list" where
  "startup_targets as ids =
     (let tg = (\<lambda>i t c a. \<lparr>tg_address_id = ids ! i, tg_type = t, tg_chain = c, tg_address = wd_address a\<rparr>)
      in [tg 0 TypeBTC ChainBTC (ws_btc as), tg 1 TypeEVM ChainEthereum (ws_eth as),
          tg 1 TypeEVM ChainArbitrum (ws_eth as), tg 1 TypeEVM ChainBSC (ws_eth as),
          tg 2 TypeSOL ChainSolana (ws_sol as), tg 3 TypeTRX ChainTRON (ws_trx as)])"

definition run_checks :: "startup_service \<Rightarrow> startup_env \<Rightarrow> target list \<Rightarrow> wallet_check list option" where
  "run_checks su env ts =
     those (map (\<lambda>i. map_option fst
                  (startup_check su (se_call env i) (se_now env i) (ts ! i) (se_limiter env i)))
             [0..<length ts])"

text \<open>Every check is saved; the first error is kept.\<close>

fun save_checks ::
  "(wallet_check \<Rightarrow> unit dbp) \<Rightarrow> wallet_check list \<Rightarrow> db_error option \<Rightarrow> db \<Rightarrow> db_error option \<times> db" where
  "save_checks save [] err d = (err, d)"
| "save_checks save (c # cs) err d =
     (case save c d of
        (Inr u, d1) \<Rightarrow> save_checks save cs err d1
      | (Inl e, d1) \<Rightarrow> save_checks save cs (if err = None then Some e else err) d1)"

definition startup_RunOnce ::
  "startup_service \<Rightarrow> startup_env \<Rightarrow> ('k, 'p) crypto \<Rightarrow> uuid \<Rightarrow> db \<Rightarrow> ((startup_error + unit) \<times> db) option" where
  "startup_RunOnce su env cr batch d =
     (case Generate cr defaultWordCount of
        Inl e \<Rightarrow> Some (Inl (Su_generate e), d)
      | Inr w \<Rightarrow>
          let as = wl_addresses w; inputs = startup_inputs as
          in case ss_insert (su_store su) batch inputs d of
               (Inl e, d1) \<Rightarrow> Some (Inl (Su_insert e), d1)
             | (Inr ids, d1) \<Rightarrow>
                 if length ids \<noteq> length inputs then Some (Inl (Su_count (length ids) (length inputs)), d1)
                 else
                   (case run_checks su env (startup_targets as ids) of
                      None \<Rightarrow> None
                    | Some cs \<Rightarrow>
                        (case save_checks (ss_save (su_store su)) cs None d1 of
                           (None, d2) \<Rightarrow> Some (Inr (), d2)
                         | (Some e, d2) \<Rightarrow> Some (Inl (Su_save e), d2))))"

section \<open>What the store promises\<close>

text \<open>
  The contract of the interface \<^verbatim>\<open>Store\<close>: the saved checks are found under their keys, and
  an insertion returns one identifier per address, all of them found in the table.
\<close>

locale startup_storing = upserting save look key stored
  for save :: "wallet_check \<Rightarrow> unit dbp"
    and look :: "db \<Rightarrow> int \<times> string \<Rightarrow> 'r option"
    and key :: "wallet_check \<Rightarrow> int \<times> string"
    and stored :: "'r option \<Rightarrow> wallet_check \<Rightarrow> 'r \<Rightarrow> bool" +
  fixes insert :: "uuid \<Rightarrow> address_input list \<Rightarrow> int list dbp"
    and holds :: "db \<Rightarrow> address_input \<Rightarrow> int \<Rightarrow> bool"
  assumes insert_holds: "insert batch xs d = (Inr ids, d') \<Longrightarrow> list_all2 (holds d') xs ids"
    and save_holds: "holds d a i \<Longrightarrow> holds (snd (save c d)) a i"
begin

lemma save_checks_each:
  "save_checks save cs err d = (None, d') \<Longrightarrow>
     err = None \<and> eachE (\<lambda>x. voidE (save x)) cs d = (Inr (), d')"
proof (induction cs arbitrary: err d)
  case (Cons c cs)
  obtain r d1 where c: "save c d = (r, d1)" by fastforce
  with Cons.prems Cons.IH [of _ d1] show ?case
    by (cases r) (auto simp: bindE_def voidE_def split: if_splits)
qed simp

lemma save_checks_holds: "holds d a i \<Longrightarrow> holds (snd (save_checks save cs err d)) a i"
proof (induction cs arbitrary: err d)
  case (Cons c cs)
  obtain r d1 where c: "save c d = (r, d1)" by fastforce
  with save_holds [OF Cons.prems, of c] have "holds d1 a i" by simp
  with Cons.IH c show ?case by (cases r) auto
qed simp

lemma run_stored:
  assumes "startup_RunOnce su env cr batch d = Some (Inr (), d')"
    and "su_store su = \<lparr>ss_insert = insert, ss_save = save\<rparr>"
    and "\<forall>as ids cs. run_checks su env (startup_targets as ids) = Some cs \<longrightarrow> distinct (map key cs)"
  shows "\<exists>w ids cs d1. Generate cr defaultWordCount = Inr w \<and>
    insert batch (startup_inputs (wl_addresses w)) d = (Inr ids, d1) \<and>
    list_all2 (holds d') (startup_inputs (wl_addresses w)) ids \<and>
    run_checks su env (startup_targets (wl_addresses w) ids) = Some cs \<and>
    (\<forall>c \<in> set cs. \<exists>r. look d' (key c) = Some r \<and> stored (look d1 (key c)) c r)"
proof -
  from assms(1,2) obtain w ids cs d1 where gen: "Generate cr defaultWordCount = Inr w"
      and ins: "insert batch (startup_inputs (wl_addresses w)) d = (Inr ids, d1)"
      and run: "run_checks su env (startup_targets (wl_addresses w) ids) = Some cs"
      and sav: "save_checks save cs None d1 = (None, d')"
    by (auto simp: startup_RunOnce_def Let_def split: sum.splits prod.splits option.splits if_splits)
  have "list_all2 (holds d') (startup_inputs (wl_addresses w)) ids"
    using insert_holds [OF ins] by (rule list_all2_mono)
      (use save_checks_holds [of d1 _ _ cs None] sav in simp)
  moreover have "eachE (\<lambda>x. voidE (save x)) cs d1 = (Inr (), d')"
    using save_checks_each [OF sav] by simp
  from each_stored [OF assms(3) [rule_format, OF run] this]
  have "\<forall>c \<in> set cs. \<exists>r. look d' (key c) = Some r \<and> stored (look d1 (key c)) c r" by blast
  ultimately show ?thesis using gen ins run by blast
qed

end

text \<open>The model of the database provides it.\<close>

definition db_store :: "env \<Rightarrow> int \<Rightarrow> startup_store" where
  "db_store E clock =
     \<lparr>ss_insert = InsertAddressesWithIDs E, ss_save = SaveWalletBalanceCheck E clock\<rparr>"

definition address_held :: "db \<Rightarrow> address_input \<Rightarrow> int \<Rightarrow> bool" where
  "address_held d a i \<longleftrightarrow> (\<exists>r \<in> set (addresses d). address_key r = input_key a \<and> wa_id r = i)"

lemma addresses_save_check: "addresses (snd (sql_save_check E c now d)) = addresses d"
  by (simp add: sql_save_check_def Let_def split: option.split)

lemma addresses_SaveWalletBalanceCheck:
  "addresses (snd (SaveWalletBalanceCheck E clock c d)) = addresses d"
  unfolding SaveWalletBalanceCheck_def
  using snd_exec [of E "sql_save_check E (if wc_checked_at c = 0 then c\<lparr>wc_checked_at := clock\<rparr> else c)" d]
  by (auto simp: addresses_save_check)

lemma InsertAddressesWithIDs_held:
  assumes "InsertAddressesWithIDs E batch xs d = (Inr ids, d')"
  shows "list_all2 (address_held d') xs ids"
proof -
  from assms obtain n where "insertAddressesWithIDs E batch xs d = (Inr (ids, n), d')"
    by (auto simp: InsertAddressesWithIDs_def bindE_eq_Inr)
  then have "list_all2 (\<lambda>a i. \<exists>r. row_of address_key (input_key a) (addresses d') = Some r \<and> wa_id r = i) xs ids"
    using insert_imported by (simp add: imported_def)
  then show ?thesis
    by (rule list_all2_mono) (auto simp: address_held_def row_of_def find_Some_iff)
qed

interpretation sto: startup_storing "SaveWalletBalanceCheck E clock" check_at wc_key "stored_check E"
    "InsertAddressesWithIDs E" address_held
  for E clock
  by unfold_locales
    (auto simp: InsertAddressesWithIDs_held address_held_def addresses_SaveWalletBalanceCheck)

section \<open>What a check says\<close>

text \<open>The number and the symbol the provider gave, when it was asked and they are usable.\<close>

definition answered :: "call_env \<Rightarrow> target \<Rightarrow> api_call list \<Rightarrow> (int \<times> string) option" where
  "answered env t tr =
     (if Api_query (tg_chain t) (tg_address t) \<notin> set tr then None
      else
        (case ce_query env (tg_chain t) (tg_address t) of
           Inl e \<Rightarrow> None
         | Inr b \<Rightarrow>
             (case bal_atomic b of
                None \<Rightarrow> None
              | Some n \<Rightarrow> if 0 \<le> n \<and> bal_symbol b \<noteq> [] then Some (n, bal_symbol b) else None)))"

definition check_tells :: "(int \<times> string) option \<Rightarrow> wallet_check \<Rightarrow> bool" where
  "check_tells ans c \<longleftrightarrow>
     (case ans of
        Some (n, symbol) \<Rightarrow> wc_state c = ''checked'' \<and> wc_balance c = show_int n \<and> wc_symbol c = symbol
      | None \<Rightarrow> wc_state c = ''retry'' \<and> wc_balance c = []) \<and>
     (\<forall>ms. wc_retry_ms c = Some ms \<longrightarrow> 1 \<le> ms)"

lemma durationMillis_bound: "durationMillis v = Some ms \<Longrightarrow> 1 \<le> ms"
  by (auto simp: durationMillis_def Let_def split: if_splits)

lemmas check_simps = check_tells_def failed_check_def fresh_check_def wc_key_def

lemma answer_check_tells:
  assumes "Api_query (tg_chain t) (tg_address t) \<in> set tr"
  shows "check_tells (answered env t tr) (answer_check now t (ce_query env (tg_chain t) (tg_address t)))"
  using assms
  by (auto simp: answered_def answer_check_def check_simps Let_def durationMillis_bound
      split: sum.split option.split)

lemma wc_key_answer: "wc_key (answer_check now t res) = (tg_address_id t, tg_chain t)"
  by (auto simp: answer_check_def check_simps Let_def split: sum.split option.split)

lemma startup_check_spec:
  assumes "startup_check su env now t l = Some (c, tr, l')"
  shows "wc_key c = (tg_address_id t, tg_chain t) \<and> check_tells (answered env t tr) c \<and>
    slot_trace (tg_chain t) (tg_address t) tr"
proof (cases "su_limited su \<and> tg_chain t \<in> set (su_providers su)")
  case False
  with assms show ?thesis
    by (auto simp: startup_check_def Let_def check_simps answered_def split: if_splits)
next
  case True
  show ?thesis
  proof (cases "Acquire (ce_fuel env) (ce_acquire env) (tg_chain t) l")
    case None
    with assms True show ?thesis by (simp add: startup_check_def Let_def)
  next
    case (Some p)
    then obtain res l1 where p: "Acquire (ce_fuel env) (ce_acquire env) (tg_chain t) l = Some (res, l1)"
      by (cases p) simp
    show ?thesis
    proof (cases res)
      case (Denied d)
      with assms True p show ?thesis
        by (auto simp: startup_check_def Let_def check_simps answered_def durationMillis_bound)
    next
      case Granted
      with assms True p have tr: "tr = Api_try (tg_chain t) True # fst (query_slot env (tg_chain t) (tg_address t) l1)"
        and c: "c = answer_check now t (ce_query env (tg_chain t) (tg_address t))"
        by (simp_all add: startup_check_def Let_def split: prod.splits)
      have "Api_query (tg_chain t) (tg_address t) \<in> set tr" by (simp add: tr query_slot_def)
      from answer_check_tells [OF this] show ?thesis by (simp add: c wc_key_answer) (simp add: tr)
    qed
  qed
qed

lemma those_map_Some:
  "those (map f xs) = Some ys \<Longrightarrow> list_all2 (\<lambda>x y. f x = Some y) xs ys"
  by (induction xs arbitrary: ys) (auto split: option.splits)

lemma run_checks_nth:
  assumes "run_checks su env ts = Some cs"
  shows "length cs = length ts"
    and "i < length ts \<Longrightarrow> \<exists>tr l'. startup_check su (se_call env i) (se_now env i) (ts ! i)
           (se_limiter env i) = Some (cs ! i, tr, l')"
  using those_map_Some [OF assms [unfolded run_checks_def]]
  by (auto simp: list_all2_conv_all_nth)

lemma run_checks_keys:
  assumes "run_checks su env ts = Some cs"
  shows "map wc_key cs = map (\<lambda>t. (tg_address_id t, tg_chain t)) ts"
proof (rule nth_equalityI)
  note n = run_checks_nth [OF assms]
  show "length (map wc_key cs) = length (map (\<lambda>t. (tg_address_id t, tg_chain t)) ts)"
    by (simp add: n(1))
  fix i
  assume "i < length (map wc_key cs)"
  with n show "map wc_key cs ! i = map (\<lambda>t. (tg_address_id t, tg_chain t)) ts ! i"
    using startup_check_spec by fastforce
qed

lemma startup_targets_distinct:
  "distinct (map (\<lambda>t. (tg_address_id t, tg_chain t)) (startup_targets as ids))"
  by (simp add: startup_targets_def Let_def)

lemma run_checks_distinct:
  "\<forall>as ids cs. run_checks su env (startup_targets as ids) = Some cs \<longrightarrow> distinct (map wc_key cs)"
  by (simp add: run_checks_keys startup_targets_distinct)

section \<open>What a run leaves in the database\<close>

definition startup_service_of :: "env \<Rightarrow> int \<Rightarrow> string list \<Rightarrow> bool \<Rightarrow> startup_service" where
  "startup_service_of E clock ps limited =
     \<lparr>su_store = db_store E clock, su_providers = ps, su_limited = limited\<rparr>"

definition row_tells :: "(int \<times> string) option \<Rightarrow> check_row \<Rightarrow> bool" where
  "row_tells ans r \<longleftrightarrow>
     (case ans of
        Some (n, symbol) \<Rightarrow> bc_state r = ''checked'' \<and> bc_balance r = Some n \<and> bc_symbol r = Some symbol
      | None \<Rightarrow> bc_state r = ''retry'' \<and> bc_balance r = None) \<and>
     (\<forall>ms. bc_retry_ms r = Some ms \<longrightarrow> 1 \<le> ms)"

lemma answered_symbol: "answered env t tr = Some (n, symbol) \<Longrightarrow> symbol \<noteq> [] \<and> 0 \<le> n"
  by (auto simp: answered_def split: sum.splits option.splits if_splits)

lemma stored_tells:
  assumes "\<forall>n. ev_numeric E (show_int n) = Some n" and "check_tells (answered env t tr) c"
    and "stored_check E old c r"
  shows "row_tells (answered env t tr) r"
  using assms answered_symbol [of env t tr]
  by (auto simp: check_tells_def row_tells_def stored_check_def nullif_empty_def split: option.splits)

definition target_recorded :: "startup_service \<Rightarrow> startup_env \<Rightarrow> db \<Rightarrow> nat \<Rightarrow> target \<Rightarrow> bool" where
  "target_recorded su env d i t \<longleftrightarrow>
     (\<exists>c tr l' r. startup_check su (se_call env i) (se_now env i) t (se_limiter env i) = Some (c, tr, l') \<and>
        slot_trace (tg_chain t) (tg_address t) tr \<and>
        check_at d (tg_address_id t, tg_chain t) = Some r \<and> row_tells (answered (se_call env i) t tr) r)"

lemma run_recorded:
  assumes "\<forall>n. ev_numeric E (show_int n) = Some n"
    and "startup_RunOnce (startup_service_of E clock ps limited) env cr batch d = Some (Inr (), d')"
  shows "\<exists>w ids. Generate cr defaultWordCount = Inr w \<and>
    list_all2 (address_held d') (startup_inputs (wl_addresses w)) ids \<and>
    (\<forall>i < 6. target_recorded (startup_service_of E clock ps limited) env d' i
               (startup_targets (wl_addresses w) ids ! i))"
proof -
  let ?su = "startup_service_of E clock ps limited"
  have su: "su_store ?su = \<lparr>ss_insert = InsertAddressesWithIDs E, ss_save = SaveWalletBalanceCheck E clock\<rparr>"
    by (simp add: startup_service_of_def db_store_def)
  from sto.run_stored [OF assms(2) su run_checks_distinct] obtain w ids cs d1 where
    gen: "Generate cr defaultWordCount = Inr w"
    and held: "list_all2 (address_held d') (startup_inputs (wl_addresses w)) ids"
    and run: "run_checks ?su env (startup_targets (wl_addresses w) ids) = Some cs"
    and st: "\<forall>c \<in> set cs. \<exists>r. check_at d' (wc_key c) = Some r \<and> stored_check E (check_at d1 (wc_key c)) c r"
    by blast
  have "target_recorded ?su env d' i (startup_targets (wl_addresses w) ids ! i)" if "i < 6" for i
  proof -
    let ?t = "startup_targets (wl_addresses w) ids ! i"
    have len: "length (startup_targets (wl_addresses w) ids) = 6"
      by (simp add: startup_targets_def Let_def)
    with run_checks_nth [OF run] that obtain tr l' where
      c: "startup_check ?su (se_call env i) (se_now env i) ?t (se_limiter env i) = Some (cs ! i, tr, l')"
      and mem: "cs ! i \<in> set cs" by fastforce
    note spec = startup_check_spec [OF c]
    from st mem spec obtain r where "check_at d' (tg_address_id ?t, tg_chain ?t) = Some r"
      and "stored_check E (check_at d1 (wc_key (cs ! i))) (cs ! i) r" by fastforce
    with stored_tells [OF assms(1) _ this(2)] spec c show ?thesis
      unfolding target_recorded_def by blast
  qed
  with gen held show ?thesis by blast
qed

section \<open>Runs that succeed\<close>

definition savable :: "db \<Rightarrow> wallet_check \<Rightarrow> bool" where
  "savable d c \<longleftrightarrow>
     wc_chain c \<in> set all_chains \<and> wc_address_id c \<in> set (map wa_id (addresses d)) \<and>
     (\<exists>ans. check_tells ans c \<and>
        (\<forall>n symbol. ans = Some (n, symbol) \<longrightarrow> 0 \<le> n \<and> n < numeric_limit \<and> symbol \<noteq> []))"

lemma new_check_ok:
  assumes "\<forall>n. ev_numeric E (show_int n) = Some n" and "savable d c"
  shows "\<exists>new. new_check E c i = Some new \<and> check_ok new"
  using assms
  by (auto simp: savable_def check_tells_def new_check_def check_ok_def nullif_empty_def
      split: option.splits)

lemma check_tells_clock [simp]: "check_tells ans (c\<lparr>wc_checked_at := t\<rparr>) = check_tells ans c"
  by (cases ans) (auto simp: check_tells_def)

lemma savable_clock [simp]: "savable d (c\<lparr>wc_checked_at := t\<rparr>) = savable d c"
  by (simp add: savable_def)

lemma savable_tick [simp]: "savable (d\<lparr>tick := k\<rparr>) c = savable d c"
  by (simp add: savable_def)

lemma savable_saved [simp]: "savable (snd (SaveWalletBalanceCheck E clock c' d)) c = savable d c"
  by (simp add: savable_def addresses_SaveWalletBalanceCheck)

lemma save_quiet:
  assumes "quiet E" and "\<forall>n. ev_numeric E (show_int n) = Some n" and "savable d c"
  shows "\<exists>d'. SaveWalletBalanceCheck E clock c d = (Inr (), d')"
proof -
  let ?c = "if wc_checked_at c = 0 then c\<lparr>wc_checked_at := clock\<rparr> else c"
  have c: "savable (d\<lparr>tick := Suc (tick d)\<rparr>) ?c" using assms(3) by simp
  then have a: "wc_address_id ?c \<in> set (map wa_id (addresses d))" by (simp add: savable_def)
  obtain new where "new_check E ?c (next_check d) = Some new" "check_ok new"
    using new_check_ok [OF assms(2) c] by blast
  with a assms(1) show ?thesis
    unfolding SaveWalletBalanceCheck_def by (simp add: exec_Inr sql_save_check_def Let_def)
qed

lemma save_checks_quiet:
  assumes "quiet E" and "\<forall>n. ev_numeric E (show_int n) = Some n" and "\<forall>c \<in> set cs. savable d c"
  shows "\<exists>d'. save_checks (SaveWalletBalanceCheck E clock) cs None d = (None, d')"
  using assms(3)
proof (induction cs arbitrary: d)
  case (Cons c cs)
  then obtain d1 where d1: "SaveWalletBalanceCheck E clock c d = (Inr (), d1)"
    using save_quiet [OF assms(1,2)] by fastforce
  have "\<forall>c' \<in> set cs. savable d1 c'"
    using Cons.prems savable_saved [of E clock c d] d1 by simp
  with Cons.IH d1 show ?case by simp
qed simp

text \<open>Every goroutine gets an answer from \<^verbatim>\<open>Acquire\<close>, and balances fit their column.\<close>

definition answering :: "startup_env \<Rightarrow> bool" where
  "answering env \<longleftrightarrow>
     (\<forall>i c. Acquire (ce_fuel (se_call env i)) (ce_acquire (se_call env i)) c (se_limiter env i) \<noteq> None) \<and>
     (\<forall>i c a b n. ce_query (se_call env i) c a = Inr b \<longrightarrow> bal_atomic b = Some n \<longrightarrow> n < numeric_limit)"

lemma startup_check_answers:
  assumes "answering env"
  shows "startup_check su (se_call env i) now t (se_limiter env i) \<noteq> None"
proof -
  obtain res l1 where "Acquire (ce_fuel (se_call env i)) (ce_acquire (se_call env i)) (tg_chain t)
      (se_limiter env i) = Some (res, l1)"
    using assms by (fastforce simp: answering_def)
  then show ?thesis
    by (cases res) (simp_all add: startup_check_def Let_def split: prod.split)
qed

lemma those_map_total: "\<forall>x \<in> set xs. f x \<noteq> None \<Longrightarrow> \<exists>ys. those (map f xs) = Some ys"
  by (induction xs) auto

lemma run_checks_answers: "answering env \<Longrightarrow> \<exists>cs. run_checks su env ts = Some cs"
  unfolding run_checks_def by (rule those_map_total) (use startup_check_answers in auto)

lemma target_chains: "t \<in> set (startup_targets as ids) \<Longrightarrow> tg_chain t \<in> set all_chains"
  by (auto simp: startup_targets_def Let_def all_chains_def)

lemma target_ids:
  "length ids = 4 \<Longrightarrow> t \<in> set (startup_targets as ids) \<Longrightarrow> tg_address_id t \<in> set ids"
  by (auto simp: startup_targets_def Let_def)

lemma check_savable:
  assumes "answering env" and "run_checks su env (startup_targets as ids) = Some cs" and "c \<in> set cs"
    and "length ids = 4" and "set ids \<subseteq> wa_id ` set (addresses d)"
  shows "savable d c"
proof -
  let ?ts = "startup_targets as ids"
  obtain i where i: "i < length ?ts" "c = cs ! i"
    using assms(3) run_checks_nth(1) [OF assms(2)] by (metis in_set_conv_nth)
  then have mem: "?ts ! i \<in> set ?ts" by simp
  obtain tr l' where "startup_check su (se_call env i) (se_now env i) (?ts ! i) (se_limiter env i) =
      Some (c, tr, l')"
    using run_checks_nth(2) [OF assms(2) i(1)] i(2) by blast
  note spec = startup_check_spec [OF this]
  have "\<forall>n symbol. answered (se_call env i) (?ts ! i) tr = Some (n, symbol) \<longrightarrow>
      0 \<le> n \<and> n < numeric_limit \<and> symbol \<noteq> []"
    using assms(1) by (auto simp: answering_def answered_def split: sum.splits option.splits if_splits)
  with spec target_chains [OF mem] target_ids [OF assms(4) mem] assms(5) show ?thesis
    by (auto simp: savable_def wc_key_def)
qed

lemma run_succeeds:
  assumes "quiet E" and "\<forall>n. ev_numeric E (show_int n) = Some n" and "answering env"
    and "Generate cr defaultWordCount = Inr w"
  shows "\<exists>d'. startup_RunOnce (startup_service_of E clock ps limited) env cr batch d = Some (Inr (), d')"
proof -
  let ?as = "wl_addresses w" and ?su = "startup_service_of E clock ps limited"
  have "\<forall>a \<in> set (startup_inputs ?as). ai_type a \<in> set address_types"
    by (simp add: startup_inputs_def address_types_def Let_def)
  then obtain ids n d1 where "insertAddressesWithIDs E batch (startup_inputs ?as) d = (Inr (ids, n), d1)"
    using insert_quiet [OF assms(1)] by blast
  then have ins: "InsertAddressesWithIDs E batch (startup_inputs ?as) d = (Inr ids, d1)"
    by (simp add: InsertAddressesWithIDs_def bindE_def)
  note held = InsertAddressesWithIDs_held [OF ins]
  have len: "length ids = 4" using list_all2_lengthD [OF held] by (simp add: startup_inputs_def Let_def)
  have "set ids \<subseteq> wa_id ` set (addresses d1)"
  proof
    fix i
    assume "i \<in> set ids"
    then obtain k where "k < length ids" "i = ids ! k" by (auto simp: in_set_conv_nth)
    with held have "address_held d1 (startup_inputs ?as ! k) i" by (auto dest: list_all2_nthD2)
    then show "i \<in> wa_id ` set (addresses d1)" by (auto simp: address_held_def)
  qed
  moreover obtain cs where cs: "run_checks ?su env (startup_targets ?as ids) = Some cs"
    using run_checks_answers [OF assms(3)] by blast
  ultimately have "\<forall>c \<in> set cs. savable d1 c"
    using check_savable [OF assms(3) cs _ len] by blast
  then obtain d2 where "save_checks (SaveWalletBalanceCheck E clock) cs None d1 = (None, d2)"
    using save_checks_quiet [OF assms(1,2)] by blast
  moreover have "length ids = length (startup_inputs ?as)"
    using len by (simp add: startup_inputs_def Let_def)
  ultimately show ?thesis
    using assms(4) ins cs
    by (simp add: startup_RunOnce_def startup_service_of_def db_store_def)
qed

section \<open>Properties\<close>


text \<open>
  The startup check always builds rows the schema accepts: when the database meets no
  fault, the wallet is generated, \<^verbatim>\<open>Acquire\<close> returns and balances fit their column, the run
  returns without an error, whatever the providers answer.
\<close>

theorem startup_succeeds:
  assumes "quiet E" and "\<forall>n. ev_numeric E (show_int n) = Some n" and "answering env"
    and "Generate cr defaultWordCount = Inr w"
  shows "\<exists>d'. startup_RunOnce (startup_service_of E clock ps limited) env cr batch d = Some (Inr (), d')"
  by (rule run_succeeds [OF assms])

section \<open>Witnesses\<close>

definition sample_startup :: startup_env where
  "sample_startup =
     \<lparr>se_call = (\<lambda>i. \<lparr>ce_fuel = 1, ce_acquire = quiet_env,
        ce_query = (\<lambda>c a. if c = ''btc'' then Inl (Other_error ''timeout'')
                          else Inr \<lparr>bal_atomic = Some 0, bal_symbol = ''X'', bal_chain = c, bal_provider = c\<rparr>),
        ce_others = (\<lambda>l. l), ce_latency = 5, ce_clock = (\<lambda>_. 9)\<rparr>),
      se_limiter = (\<lambda>_. new_limiter sample_cfg 0), se_now = (\<lambda>_. 3)\<rparr>"

lemma sample_answering: "answering sample_startup"
  by (auto simp: answering_def sample_startup_def Acquire_def quiet_env_def run_simps
      numeric_limit_def split: if_splits)

lemma toy_generates: "\<exists>w. Generate toy_crypto defaultWordCount = Inr w"
  by (simp add: Generate_def entropyBits_def and_then_def wrap_err_def toy_crypto_def Derive_def
      deriveBTC_def deriveETH_def deriveTRX_def deriveSOL_slip10 deriveSecpPrivate_def
      btcDerivation_def ethDerivation_def trxDerivation_def Let_def defaultWordCount_def)

lemma numeric_sample: "\<forall>n. ev_numeric sample_env (show_int n) = Some n"
  by (simp add: sample_env_def big_set_string_show_int)

theorem startup_succeeds_witness:
  "\<exists>d'. startup_RunOnce (startup_service_of sample_env 1 all_chains True) sample_startup toy_crypto 7
     empty_db = Some (Inr (), d')"
proof -
  obtain w where "Generate toy_crypto defaultWordCount = Inr w" using toy_generates by blast
  from startup_succeeds [OF quiet_sample numeric_sample sample_answering this] show ?thesis .
qed


end
