(* ===== verification/Importer.thy ===== *)
theory Importer
  imports Domain
begin

text \<open>
  \<^verbatim>\<open>internal/importer/importer.go\<close>: validation and normalisation of public addresses, and
  the CSV import. The records the CSV reader yields are the input of \<open>ParseCSV\<close>: a list of
  records and read errors, with the end of the list as \<^verbatim>\<open>io.EOF\<close>.
\<close>

section \<open>Address validation\<close>

definition is_hex :: "char \<Rightarrow> bool" where
  "is_hex c \<longleftrightarrow> (let n = of_char c :: nat in
     48 \<le> n \<and> n \<le> 57 \<or> 97 \<le> n \<and> n \<le> 102 \<or> 65 \<le> n \<and> n \<le> 70)"

text \<open>The classes \<^verbatim>\<open>[1-9A-HJ-NP-Za-km-z]\<close>: no \<open>0\<close>, \<open>O\<close>, \<open>I\<close> or \<open>l\<close>.\<close>

definition is_base58 :: "char \<Rightarrow> bool" where
  "is_base58 c \<longleftrightarrow> (let n = of_char c :: nat in
     49 \<le> n \<and> n \<le> 57 \<or> 65 \<le> n \<and> n \<le> 72 \<or> 74 \<le> n \<and> n \<le> 78 \<or> 80 \<le> n \<and> n \<le> 90 \<or>
     97 \<le> n \<and> n \<le> 107 \<or> 109 \<le> n \<and> n \<le> 122)"

definition evmPattern :: "string \<Rightarrow> bool" where
  "evmPattern s \<longleftrightarrow> has_prefix s ''0x'' \<and> length s = 42 \<and> list_all is_hex (drop 2 s)"

definition base58Pattern :: "string \<Rightarrow> bool" where
  "base58Pattern s \<longleftrightarrow> s \<noteq> [] \<and> list_all is_base58 s"

definition blank_chars :: string where
  "blank_chars = bytes [13, 10, 9, 32]"

datatype addr_error =
    Addr_blank
  | Invalid_evm
  | Invalid_btc
  | Invalid_sol
  | Invalid_trx
  | Unsupported_type string

definition NormalizeAndValidate ::
  "(string \<Rightarrow> string) \<Rightarrow> string \<Rightarrow> string \<Rightarrow> addr_error + string" where
  "NormalizeAndValidate ul addressType address =
     (if address = [] \<or> list_ex (\<lambda>c. c \<in> set blank_chars) address then Inl Addr_blank
      else if addressType = TypeEVM then
        (if \<not> evmPattern address then Inl Invalid_evm else Inr (to_lower ul address))
      else if addressType = TypeBTC then
        (if length address < 14 \<or> length address > 90 \<or>
            \<not> (has_prefix address ''1'' \<or> has_prefix address ''3'' \<or>
               has_prefix (to_lower ul address) ''bc1'')
         then Inl Invalid_btc else Inr address)
      else if addressType = TypeSOL then
        (if length address < 32 \<or> length address > 44 \<or> \<not> base58Pattern address
         then Inl Invalid_sol else Inr address)
      else if addressType = TypeTRX then
        (if length address \<noteq> 34 \<or> \<not> has_prefix address ''T'' \<or> \<not> base58Pattern address
         then Inl Invalid_trx else Inr address)
      else Inl (Unsupported_type addressType))"

section \<open>CSV import\<close>

datatype import_error =
    Header_read string
  | Header_invalid
  | Line_read nat string
  | Line_fields nat
  | Line_address nat addr_error

type_synonym csv_read = "string + string list"

definition header_ok :: "string list \<Rightarrow> bool" where
  "header_ok header \<longleftrightarrow>
     \<not> (length header < 2 \<or> trim_space (header ! 0) \<noteq> ''address_type'' \<or>
        trim_space (header ! 1) \<noteq> ''address'' \<or> length header > 3 \<or>
        length header = 3 \<and> trim_space (header ! 2) \<noteq> ''label'')"

text \<open>One record of the loop body, up to the duplicate check.\<close>

definition parse_record ::
  "(string \<Rightarrow> string) \<Rightarrow> nat \<Rightarrow> string list \<Rightarrow> import_error + address_input" where
  "parse_record ul line rec =
     (if length rec < 2 \<or> length rec > 3 then Inl (Line_fields line)
      else
        let addressType = to_lower ul (trim_space (rec ! 0));
            addr = trim_space (rec ! 1);
            label = (if length rec = 3 then trim_space (rec ! 2) else [])
        in case NormalizeAndValidate ul addressType addr of
             Inl e \<Rightarrow> Inl (Line_address line e)
           | Inr n \<Rightarrow> Inr \<lparr>ai_type = addressType, ai_address = addr, ai_normalized = n,
                           ai_label = label\<rparr>)"

definition seen_key :: "address_input \<Rightarrow> string" where
  "seen_key a = ai_type a @ [char_of (0 :: nat)] @ ai_normalized a"

fun parse_rows ::
  "(string \<Rightarrow> string) \<Rightarrow> nat \<Rightarrow> string set \<Rightarrow> address_input list \<Rightarrow> csv_read list \<Rightarrow>
   import_error + address_input list" where
  "parse_rows ul line seen acc [] = Inr acc"
| "parse_rows ul line seen acc (Inl e # rs) = Inl (Line_read (line + 1) e)"
| "parse_rows ul line seen acc (Inr rec # rs) =
     (case parse_record ul (line + 1) rec of
        Inl e \<Rightarrow> Inl e
      | Inr a \<Rightarrow>
          if seen_key a \<in> seen then parse_rows ul (line + 1) seen acc rs
          else parse_rows ul (line + 1) (insert (seen_key a) seen) (acc @ [a]) rs)"

definition ParseCSV ::
  "(string \<Rightarrow> string) \<Rightarrow> csv_read list \<Rightarrow> import_error + address_input list" where
  "ParseCSV ul reads =
     (case reads of
        [] \<Rightarrow> Inl (Header_read ''EOF'')
      | Inl e # rs \<Rightarrow> Inl (Header_read e)
      | Inr header # rs \<Rightarrow>
          if header_ok header then parse_rows ul 1 {} [] rs else Inl Header_invalid)"

section \<open>Properties of validation\<close>

lemma is_hex_lower [simp]: "is_hex (ascii_lower c) = is_hex c"
  by (auto simp: is_hex_def ascii_lower_def Let_def)

lemma is_hex_ascii: "is_hex c \<Longrightarrow> of_char c < (128 :: nat)"
  by (auto simp: is_hex_def Let_def)

lemma blank_chars_code: "c \<in> set blank_chars \<longleftrightarrow> of_char c \<in> {9, 10, 13, 32 :: nat}"
  by (auto simp: blank_chars_def bytes_def eq_char_of)

lemma literal_chars [simp]:
  "CHR ''0'' \<notin> set blank_chars" "CHR ''x'' \<notin> set blank_chars"
  "ascii_lower CHR ''0'' = CHR ''0''" "ascii_lower CHR ''x'' = CHR ''x''"
  by (simp_all add: blank_chars_code ascii_lower_def)

lemma is_hex_not_blank: "is_hex c \<Longrightarrow> c \<notin> set blank_chars"
  by (auto simp: is_hex_def blank_chars_code Let_def)

lemma is_base58_not_blank: "is_base58 c \<Longrightarrow> c \<notin> set blank_chars"
  by (auto simp: is_base58_def blank_chars_code Let_def)

lemma evmPattern_split: "evmPattern s \<longleftrightarrow> (\<exists>h. s = ''0x'' @ h \<and> length h = 40 \<and> list_all is_hex h)"
proof
  assume e: "evmPattern s"
  then have "take 2 s = ''0x''"
    by (simp add: evmPattern_def has_prefix_def numeral_2_eq_2)
  then have "s = ''0x'' @ drop 2 s"
    using append_take_drop_id [of 2 s] by metis
  with e show "\<exists>h. s = ''0x'' @ h \<and> length h = 40 \<and> list_all is_hex h"
    by (intro exI [of _ "drop 2 s"]) (simp add: evmPattern_def)
qed (auto simp: evmPattern_def has_prefix_def)

lemma evmPattern_chars:
  assumes "evmPattern s" and "c \<in> set s"
  shows "c = CHR ''0'' \<or> c = CHR ''x'' \<or> is_hex c"
  using assms by (auto simp: evmPattern_split list_all_iff)

lemma evmPattern_ascii: "evmPattern s \<Longrightarrow> is_ascii s"
  using evmPattern_chars [of s] is_hex_ascii by (fastforce simp: is_ascii_def list_all_iff)

lemma evmPattern_lower: "evmPattern s \<Longrightarrow> evmPattern (map ascii_lower s)"
  by (auto simp: evmPattern_split list_all_iff)

lemma evmPattern_to_lower: "evmPattern s \<Longrightarrow> to_lower ul s = map ascii_lower s"
  by (simp add: to_lower_def evmPattern_ascii)

lemma evmPattern_no_blank: "evmPattern s \<Longrightarrow> c \<in> set s \<Longrightarrow> c \<notin> set blank_chars"
  using evmPattern_chars [of s c] is_hex_not_blank by auto

lemmas normalize_simps = NormalizeAndValidate_def evmPattern_to_lower

lemma normalize_evm_iff:
  "NormalizeAndValidate ul ''evm'' a = Inr n \<longleftrightarrow> evmPattern a \<and> n = map ascii_lower a"
proof (cases "evmPattern a")
  case True
  then have "a \<noteq> []" and "\<not> list_ex (\<lambda>c. c \<in> set blank_chars) a"
    using evmPattern_no_blank by (auto simp: evmPattern_def list_ex_iff)
  with True show ?thesis by (auto simp: normalize_simps)
next
  case False
  then show ?thesis by (simp add: NormalizeAndValidate_def)
qed

lemma normalize_type: "NormalizeAndValidate ul t a = Inr n \<Longrightarrow> t \<in> set address_types"
  by (auto simp: NormalizeAndValidate_def address_types_def split: if_splits)

lemma normalize_not_evm: "NormalizeAndValidate ul t a = Inr n \<Longrightarrow> t \<noteq> ''evm'' \<Longrightarrow> n = a"
  by (auto simp: NormalizeAndValidate_def split: if_splits)

lemma normalize_idem_aux:
  assumes "NormalizeAndValidate ul t a = Inr n"
  shows "NormalizeAndValidate ul t n = Inr n"
proof (cases "t = ''evm''")
  case True
  with assms have "evmPattern a" and n: "n = map ascii_lower a"
    by (auto simp: normalize_evm_iff)
  with True show ?thesis
    by (simp add: normalize_evm_iff evmPattern_lower o_def)
next
  case False
  with assms normalize_not_evm show ?thesis by blast
qed

lemma normalize_clean:
  assumes "NormalizeAndValidate ul t a = Inr n"
  shows "n \<noteq> [] \<and> (\<forall>c. c \<in> set n \<longrightarrow> c \<notin> set blank_chars) \<and> length n \<le> 90"
proof -
  have n: "NormalizeAndValidate ul t n = Inr n"
    using assms by (rule normalize_idem_aux)
  then have "n \<noteq> []" and "\<not> list_ex (\<lambda>c. c \<in> set blank_chars) n"
    by (auto simp: NormalizeAndValidate_def split: if_splits)
  moreover have "length n \<le> 90"
    using n by (auto simp: NormalizeAndValidate_def evmPattern_def split: if_splits)
  ultimately show ?thesis by (auto simp: list_ex_iff)
qed

section \<open>The import loop against a reference\<close>

text \<open>
  The reference reads every record first (\<open>parse_all\<close>) and removes later duplicates
  afterwards (\<open>dedup_by\<close>), with no accumulator and no set of seen keys.
\<close>

fun parse_all ::
  "(string \<Rightarrow> string) \<Rightarrow> nat \<Rightarrow> csv_read list \<Rightarrow> import_error + address_input list" where
  "parse_all ul line [] = Inr []"
| "parse_all ul line (Inl e # rs) = Inl (Line_read (line + 1) e)"
| "parse_all ul line (Inr rec # rs) =
     (case parse_record ul (line + 1) rec of
        Inl e \<Rightarrow> Inl e
      | Inr a \<Rightarrow> map_sum id (Cons a) (parse_all ul (line + 1) rs))"

fun dedup_by :: "('a \<Rightarrow> 'k) \<Rightarrow> 'a list \<Rightarrow> 'a list" where
  "dedup_by key [] = []"
| "dedup_by key (a # as) = a # filter (\<lambda>b. key b \<noteq> key a) (dedup_by key as)"

lemma dedup_by_keys: "key ` set (dedup_by key xs) = key ` set xs"
proof (induction xs)
  case (Cons a xs)
  have "insert (key a) (key ` {b \<in> A. key b \<noteq> key a}) = insert (key a) (key ` A)" for A
    by auto
  with Cons show ?case by simp
qed simp

lemma dedup_by_subset: "set (dedup_by key xs) \<subseteq> set xs"
  by (induction xs) auto

lemma dedup_by_distinct: "distinct (map key (dedup_by key xs))"
  by (induction xs) (auto simp: distinct_map inj_on_def)

lemma parse_rows_reference:
  "parse_rows ul line seen acc rs =
     map_sum id (\<lambda>ins. acc @ filter (\<lambda>a. seen_key a \<notin> seen) (dedup_by seen_key ins))
       (parse_all ul line rs)"
proof (induction ul line seen acc rs rule: parse_rows.induct)
  case (3 ul line seen acc rec rs)
  show ?case
  proof (cases "parse_record ul (line + 1) rec")
    case (Inl e)
    then show ?thesis by simp
  next
    case (Inr a)
    have drop: "filter (\<lambda>x. seen_key x \<noteq> seen_key a \<and> seen_key x \<notin> seen) ys =
        filter (\<lambda>x. seen_key x \<notin> seen) ys" if "seen_key a \<in> seen" for ys
      using that by (auto intro: filter_cong)
    from Inr "3.IH" show ?thesis
      by (cases "parse_all ul (line + 1) rs") (auto simp: drop)
  qed
qed simp_all

lemma parse_record_type:
  "parse_record ul line rec = Inr a \<Longrightarrow>
     NormalizeAndValidate ul (ai_type a) (ai_address a) = Inr (ai_normalized a)"
  by (auto simp: parse_record_def Let_def split: if_splits sum.splits)

lemma parse_all_valid:
  "parse_all ul line rs = Inr ins \<Longrightarrow> a \<in> set ins \<Longrightarrow>
     NormalizeAndValidate ul (ai_type a) (ai_address a) = Inr (ai_normalized a)"
proof (induction ul line rs arbitrary: ins rule: parse_all.induct)
  case (3 ul line rec rs)
  from "3.prems"(1) obtain b bs where b: "parse_record ul (line + 1) rec = Inr b"
    and bs: "parse_all ul (line + 1) rs = Inr bs" and ins: "ins = b # bs"
    by (cases "parse_all ul (line + 1) rs") (auto split: sum.splits)
  from "3.prems"(2) ins show ?case
    using b bs "3.IH" parse_record_type by auto
qed simp_all

text \<open>On validated inputs the key separates type and address: no type contains a NUL byte.\<close>

lemma seen_key_inj:
  assumes "ai_type a \<in> set address_types" and "ai_type b \<in> set address_types"
  shows "seen_key a = seen_key b \<longleftrightarrow> ai_type a = ai_type b \<and> ai_normalized a = ai_normalized b"
  using assms by (auto simp: seen_key_def address_types_def)

section \<open>Theorems\<close>

text \<open>
  Normalisation is a projection on accepted addresses: a normalised address is accepted
  again, under the same type, and is its own normal form. So the identity under which the
  database keeps an address does not depend on how often it went through the importer.
\<close>

theorem normalize_idempotent:
  assumes "NormalizeAndValidate ul t a = Inr n"
  shows "NormalizeAndValidate ul t n = Inr n"
  using assms by (rule normalize_idem_aux)

text \<open>
  What an accepted address looks like: one of the four types, not empty, at most 90
  bytes, no blank, and for an EVM address \<^verbatim>\<open>0x\<close> with forty hexadecimal digits in lower case.
\<close>

theorem normalize_accepts:
  assumes "NormalizeAndValidate ul t a = Inr n"
  shows "t \<in> set address_types \<and> n \<noteq> [] \<and> length n \<le> 90 \<and>
    (\<forall>c. c \<in> set n \<longrightarrow> c \<notin> set blank_chars) \<and>
    (t = TypeEVM \<longrightarrow> evmPattern n \<and> map ascii_lower n = n) \<and> (t \<noteq> TypeEVM \<longrightarrow> n = a)"
  using assms normalize_type [OF assms] normalize_clean [OF assms] normalize_not_evm [OF assms]
  by (auto simp: normalize_evm_iff evmPattern_lower o_def)

definition sample_sol :: string where
  "sample_sol = ''11111111111111111111111111111111''"

definition sample_evm :: string where
  "sample_evm = ''0x000000000000000000000000000000000000dEaD''"

lemma sample_sol_ok: "NormalizeAndValidate ul ''sol'' sample_sol = Inr sample_sol"
  by (simp add: sample_sol_def NormalizeAndValidate_def base58Pattern_def is_base58_def
      blank_chars_code)

lemma sample_evm_ok:
  "NormalizeAndValidate ul ''evm'' sample_evm = Inr (map ascii_lower sample_evm)"
  by (simp add: normalize_evm_iff sample_evm_def evmPattern_def has_prefix_def is_hex_def)

theorem normalize_idempotent_witness:
  "NormalizeAndValidate id ''evm'' (map ascii_lower sample_evm) =
     Inr (map ascii_lower sample_evm)"
  by (rule normalize_idempotent [OF sample_evm_ok])

theorem normalize_accepts_witness:
  "map ascii_lower sample_evm \<noteq> [] \<and> evmPattern (map ascii_lower sample_evm)"
  using normalize_accepts [OF sample_evm_ok [of id]] by simp

text \<open>
  C39: the import loop, with its accumulator and its set of seen keys, computes what
  reading every record and then removing later duplicates computes, on errors too: the first
  bad record or read error aborts the import with its line number.
\<close>

theorem ParseCSV_reference:
  "ParseCSV ul (Inr header # rs) =
     (if header_ok header then map_sum id (dedup_by seen_key) (parse_all ul 1 rs)
      else Inl Header_invalid)"
  by (simp add: ParseCSV_def parse_rows_reference)

text \<open>
  An accepted file yields valid addresses only, each identity (type and normalised
  address) once.
\<close>

theorem ParseCSV_valid_distinct:
  assumes "ParseCSV ul reads = Inr xs"
  shows "distinct (map (\<lambda>a. (ai_type a, ai_normalized a)) xs) \<and>
    (\<forall>a. a \<in> set xs \<longrightarrow>
       NormalizeAndValidate ul (ai_type a) (ai_address a) = Inr (ai_normalized a))"
proof -
  from assms obtain header rs where reads: "reads = Inr header # rs" and ok: "header_ok header"
    by (auto simp: ParseCSV_def split: list.splits sum.splits if_splits)
  with assms obtain ins where ins: "parse_all ul 1 rs = Inr ins"
    and xs: "xs = dedup_by seen_key ins"
    by (cases "parse_all ul 1 rs") (auto simp: ParseCSV_def parse_rows_reference)
  have valid: "NormalizeAndValidate ul (ai_type a) (ai_address a) = Inr (ai_normalized a)"
    if "a \<in> set xs" for a
    using that xs dedup_by_subset [of seen_key ins] parse_all_valid [OF ins] by auto
  have keys: "seen_key a = seen_key b"
    if "(ai_type a, ai_normalized a) = (ai_type b, ai_normalized b)" for a b
    using that by (simp add: seen_key_def)
  have "distinct (map seen_key xs)"
    using xs by (simp add: dedup_by_distinct)
  then have "distinct (map (\<lambda>a. (ai_type a, ai_normalized a)) xs)"
    using keys unfolding distinct_map inj_on_def by blast
  with valid show ?thesis by blast
qed

lemma sample_csv:
  "ParseCSV ul [Inr [''address_type'', ''address''], Inr [''sol'', sample_sol],
     Inr [''sol'', sample_sol, ''again'']] =
   Inr [\<lparr>ai_type = ''sol'', ai_address = sample_sol, ai_normalized = sample_sol,
         ai_label = []\<rparr>]"
proof -
  have [simp]: "trim_space ''sol'' = ''sol''" "trim_space ''address'' = ''address''"
    "trim_space ''address_type'' = ''address_type''" "trim_space ''again'' = ''again''"
    "trim_space sample_sol = sample_sol" "to_lower ul ''sol'' = ''sol''"
    by (simp_all add: trim_space_id sample_sol_def to_lower_def is_ascii_def ascii_lower_def)
  show ?thesis
    by (simp add: ParseCSV_def parse_rows_reference header_ok_def parse_record_def sample_sol_ok
        seen_key_def)
qed

theorem ParseCSV_valid_distinct_witness:
  "distinct (map (\<lambda>a. (ai_type a, ai_normalized a))
     [\<lparr>ai_type = ''sol'', ai_address = sample_sol, ai_normalized = sample_sol,
       ai_label = []\<rparr>])"
  using ParseCSV_valid_distinct [OF sample_csv [of id]] by blast

end
