(* ===== verification/HttpServer.thy ===== *)
theory HttpServer
  imports Api Importer Store_Retries Tasks
begin

text \<open>
  \<^verbatim>\<open>internal/httpserver\<close>: the synchronous balance API. A request carries
  what the decoder reads from its body, a reply the value it encodes; \<^verbatim>\<open>Wire\<close> has the bytes.
\<close>

section \<open>Requests and replies\<close>

record balance_request =
  br_type :: string
  br_chain :: string
  br_address :: string

text \<open>\<open>hr_body\<close>: the decoded object, if any; \<open>hr_extra\<close>: whether the body holds more after it.\<close>

record http_request =
  hr_method :: string
  hr_key :: string
  hr_body :: "balance_request option"
  hr_extra :: bool

record balance_response =
  bs_state :: string
  bs_type :: string
  bs_address :: string
  bs_chain :: string
  bs_balance :: string
  bs_symbol :: string
  bs_has_balance :: bool
  bs_checked_at :: string

record error_response =
  es_state :: string
  es_code :: string
  es_message :: string
  es_provider :: string
  es_retry_ms :: int

datatype reply_body = Checked balance_response | Failed error_response | Capacity snapshot

record http_reply =
  rp_status :: int
  rp_retry_after :: "string option"
  rp_body :: reply_body

text \<open>The service: the chains with a provider, whether it has a limiter, and its API key.\<close>

record balance_service =
  sv_providers :: "string list"
  sv_limited :: bool
  sv_key :: string

definition writeError :: "int \<Rightarrow> error_response \<Rightarrow> http_reply" where
  "writeError code response =
     \<lparr>rp_status = code, rp_retry_after = None, rp_body = Failed response\<rparr>"

definition retry_seconds :: "int \<Rightarrow> int" where
  "retry_seconds d = wrap64 (wrap64 (d + second) - 1) sdiv second"

definition writeRetry :: "int \<Rightarrow> error_response \<Rightarrow> int \<Rightarrow> http_reply" where
  "writeRetry code response d =
     (writeError code response)\<lparr>rp_retry_after :=
        (if d > 0 then Some (show_int (retry_seconds d)) else None)\<rparr>"

definition refused :: "string \<Rightarrow> string \<Rightarrow> error_response" where
  "refused code message =
     \<lparr>es_state = ''rejected'', es_code = code, es_message = message, es_provider = [], es_retry_ms = 0\<rparr>"

definition try_later :: "string \<Rightarrow> string \<Rightarrow> string \<Rightarrow> int \<Rightarrow> error_response" where
  "try_later code message provider ms =
     \<lparr>es_state = ''retry'', es_code = code, es_message = message, es_provider = provider,
      es_retry_ms = ms\<rparr>"

text \<open>\<^verbatim>\<open>ConstantTimeCompare\<close> is equality.\<close>

definition authorized :: "balance_service \<Rightarrow> http_request \<Rightarrow> bool" where
  "authorized sv r \<longleftrightarrow>
     sv_key sv = [] \<or> length (hr_key r) = length (sv_key sv) \<and> hr_key r = sv_key sv"

definition chainAllowed :: "string \<Rightarrow> string \<Rightarrow> bool" where
  "chainAllowed addressType chain =
     (if addressType = ''evm'' then chain = ''ethereum'' \<or> chain = ''arbitrum'' \<or> chain = ''bsc''
      else if addressType = ''btc'' then chain = ''btc''
      else if addressType = ''sol'' then chain = ''solana''
      else if addressType = ''trx'' then chain = ''tron''
      else False)"

section \<open>The capacity endpoint\<close>

definition HandleCapacity :: "balance_service \<Rightarrow> http_request \<Rightarrow> limiter \<Rightarrow> http_reply" where
  "HandleCapacity sv r l =
     (if hr_method r \<noteq> ''GET'' then writeError 405 (refused ''method_not_allowed'' ''use GET'')
      else if \<not> authorized sv r then writeError 401 (refused ''unauthorized'' ''invalid API key'')
      else if \<not> sv_limited sv then
        writeError 503 (try_later ''capacity_unavailable'' ''capacity controller unavailable'' [] 0)
      else \<lparr>rp_status = 200, rp_retry_after = None, rp_body = Capacity (Snapshot l)\<rparr>)"

section \<open>The balance endpoint\<close>

text \<open>\<open>quote\<close> is Go's \<^verbatim>\<open>%q\<close>.\<close>

definition addr_error_text :: "(string \<Rightarrow> string) \<Rightarrow> addr_error \<Rightarrow> string" where
  "addr_error_text quote e =
     (case e of
        Addr_blank \<Rightarrow> ''address is empty or contains whitespace''
      | Invalid_evm \<Rightarrow> ''invalid EVM address''
      | Invalid_btc \<Rightarrow> ''invalid Bitcoin address prefix or length''
      | Invalid_sol \<Rightarrow> ''invalid Solana address encoding''
      | Invalid_trx \<Rightarrow> ''invalid TRON address encoding''
      | Unsupported_type t \<Rightarrow> ''unsupported address_type '' @ quote t)"

text \<open>The checks before a slot is taken: the reply that refuses the request, or its data.\<close>

definition accept_request ::
  "(string \<Rightarrow> string) \<Rightarrow> (string \<Rightarrow> string) \<Rightarrow> balance_service \<Rightarrow> http_request \<Rightarrow>
   http_reply + (string \<times> string \<times> string)" where
  "accept_request ul quote sv r =
     (if hr_method r \<noteq> ''POST'' then Inl (writeError 405 (refused ''method_not_allowed'' ''use POST''))
      else if \<not> authorized sv r then Inl (writeError 401 (refused ''unauthorized'' ''invalid API key''))
      else
        (case hr_body r of
           None \<Rightarrow> Inl (writeError 400 (refused ''invalid_json'' ''request must be a valid JSON object''))
         | Some body \<Rightarrow>
             if hr_extra r then
               Inl (writeError 400 (refused ''invalid_json'' ''request must contain one JSON object''))
             else
               let addressType = to_lower ul (trim_space (br_type body));
                   chain = to_lower ul (trim_space (br_chain body));
                   addr = trim_space (br_address body)
               in case NormalizeAndValidate ul addressType addr of
                    Inl e \<Rightarrow> Inl (writeError 400 (refused ''invalid_address'' (addr_error_text quote e)))
                  | Inr normalized \<Rightarrow>
                      if \<not> chainAllowed addressType chain then
                        Inl (writeError 400 (refused ''invalid_chain'' ''chain does not match address_type''))
                      else if chain \<notin> set (sv_providers sv) then
                        Inl (writeError 503
                          (try_later ''provider_unconfigured'' ''provider is not configured'' chain 0))
                      else if \<not> sv_limited sv then
                        Inl (writeError 503
                          (try_later ''capacity_unavailable'' ''capacity controller unavailable'' [] 0))
                      else Inr (addressType, chain, normalized)))"

text \<open>The reply to what the provider answered; \<open>clock\<close> is the formatted time.\<close>

definition answer_reply :: "string \<Rightarrow> string \<Rightarrow> string \<Rightarrow> string \<Rightarrow> go_error + balance \<Rightarrow> http_reply" where
  "answer_reply clock addressType chain normalized res =
     (case res of
        Inl e \<Rightarrow>
          let pe = apiError e chain in
          if \<not> pe_temporary pe then
            writeError 502 (try_later (pe_code pe) ''provider query failed'' (pe_provider pe) 0)
          else
            let d = (if pe_retry_after pe \<le> 0 then second else pe_retry_after pe);
                code = (if pe_code pe = ''rate_limited'' then 429 else 503)
            in writeRetry code
                 (try_later (pe_code pe) ''provider is temporarily unavailable'' (pe_provider pe)
                    (d sdiv millisecond)) d
      | Inr b \<Rightarrow>
          (case bal_atomic b of
             None \<Rightarrow>
               writeError 502
                 (try_later ''response_decode_error'' ''provider returned an invalid balance'' chain 0)
           | Some n \<Rightarrow>
               \<lparr>rp_status = 200, rp_retry_after = None,
                rp_body = Checked
                  \<lparr>bs_state = ''checked'', bs_type = addressType, bs_address = normalized,
                   bs_chain = chain, bs_balance = show_int n, bs_symbol = bal_symbol b,
                   bs_has_balance = n > 0, bs_checked_at = clock\<rparr>\<rparr>))"

text \<open>The handler: its reply, the calls it makes and the limiter afterwards.\<close>

definition HandleBalance ::
  "(string \<Rightarrow> string) \<Rightarrow> (string \<Rightarrow> string) \<Rightarrow> balance_service \<Rightarrow> call_env \<Rightarrow> string \<Rightarrow> http_request \<Rightarrow> limiter \<Rightarrow>
   (http_reply \<times> api_call list \<times> limiter) option" where
  "HandleBalance ul quote sv env clock r l =
     (case accept_request ul quote sv r of
        Inl reply \<Rightarrow> Some (reply, [], l)
      | Inr (addressType, chain, normalized) \<Rightarrow>
          (case Acquire (ce_fuel env) (ce_acquire env) chain l of
             None \<Rightarrow> None
           | Some (Denied d, l1) \<Rightarrow>
               Some (writeRetry 429
                 (try_later ''capacity_exhausted'' ''server concurrency capacity is temporarily full'' []
                    (d sdiv millisecond)) d, [Api_try chain False], l1)
           | Some (Granted, l1) \<Rightarrow>
               (case query_slot env chain normalized l1 of
                  (tr, l2) \<Rightarrow>
                    Some (answer_reply clock addressType chain normalized (ce_query env chain normalized),
                      Api_try chain True # tr, l2))))"

section \<open>The routes\<close>

datatype endpoint = Ep_health | Ep_status | Ep_capacity | Ep_balance

text \<open>\<^verbatim>\<open>Handler\<close>: the balance routes are there only with a balance service.\<close>

definition route :: "bool \<Rightarrow> string \<Rightarrow> endpoint option" where
  "route with_balance path =
     (if path = ''/healthz'' then Some Ep_health
      else if path = ''/status'' then Some Ep_status
      else if with_balance \<and> path = ''/v1/capacity'' then Some Ep_capacity
      else if with_balance \<and> path = ''/v1/balance'' then Some Ep_balance
      else None)"

datatype page = Page_ok | Page_status status | Page_error int string

definition health_page :: "bool \<Rightarrow> page" where
  "health_page ping = (if ping then Page_ok else Page_error 503 ''database unavailable'')"

definition status_page :: "env \<Rightarrow> db \<Rightarrow> page \<times> db" where
  "status_page E d =
     (case ReadStatus E d of
        (Inl e, d') \<Rightarrow> (Page_error 503 ''status unavailable'', d')
      | (Inr st, d') \<Rightarrow> (Page_status st, d'))"

section \<open>What a reply says\<close>

text \<open>The request is well formed and asks for the balance of \<open>a\<close> on \<open>c\<close>.\<close>

definition requested ::
  "(string \<Rightarrow> string) \<Rightarrow> balance_service \<Rightarrow> http_request \<Rightarrow> string \<Rightarrow> string \<Rightarrow> string \<Rightarrow> bool" where
  "requested ul sv r t c a \<longleftrightarrow>
     hr_method r = ''POST'' \<and> (sv_key sv = [] \<or> hr_key r = sv_key sv) \<and> \<not> hr_extra r \<and>
     (\<exists>b. hr_body r = Some b \<and> t = to_lower ul (trim_space (br_type b)) \<and>
        c = to_lower ul (trim_space (br_chain b)) \<and>
        NormalizeAndValidate ul t (trim_space (br_address b)) = Inr a) \<and>
     c \<in> set (chainsFor t) \<and> c \<in> set (sv_providers sv) \<and> sv_limited sv"

text \<open>A refusal of the request itself, and a refusal to answer it now.\<close>

definition rejection :: "http_reply \<Rightarrow> bool" where
  "rejection reply \<longleftrightarrow>
     rp_status reply \<in> {400, 401, 405} \<and>
     (\<exists>e. rp_body reply = Failed e \<and> es_state e = ''rejected'')"

definition postponement :: "http_reply \<Rightarrow> bool" where
  "postponement reply \<longleftrightarrow>
     rp_status reply \<in> {429, 502, 503} \<and>
     (\<exists>e. rp_body reply = Failed e \<and> es_state e = ''retry'')"

lemmas reply_simps = rejection_def postponement_def writeError_def writeRetry_def refused_def
  try_later_def

lemma authorized_iff: "authorized sv r \<longleftrightarrow> sv_key sv = [] \<or> hr_key r = sv_key sv"
  by (auto simp: authorized_def)

lemma chainAllowed_iff: "chainAllowed t c \<longleftrightarrow> c \<in> set (chainsFor t)"
  by (simp add: chainAllowed_def chainsFor_def)

lemma accept_request_Inr:
  "accept_request ul quote sv r = Inr (t, c, a) \<longleftrightarrow> requested ul sv r t c a"
  by (auto simp: accept_request_def requested_def Let_def chainAllowed_iff authorized_iff
      split: option.splits sum.splits)

lemma accept_request_Inl:
  "accept_request ul quote sv r = Inl reply \<Longrightarrow> rejection reply \<or> postponement reply"
  by (auto simp: accept_request_def Let_def reply_simps split: option.splits sum.splits if_splits)

text \<open>What a successful answer says, read back from its text.\<close>

definition tells_balance ::
  "http_reply \<Rightarrow> string \<Rightarrow> string \<Rightarrow> string \<Rightarrow> string \<Rightarrow> int \<Rightarrow> string \<Rightarrow> bool" where
  "tells_balance reply t c a symbol n clock \<longleftrightarrow>
     rp_status reply = 200 \<and>
     (\<exists>b. rp_body reply = Checked b \<and> bs_state b = ''checked'' \<and> bs_type b = t \<and> bs_chain b = c \<and>
        bs_address b = a \<and> big_set_string 10 (bs_balance b) = Some n \<and> bs_symbol b = symbol \<and>
        (bs_has_balance b \<longleftrightarrow> 0 < n) \<and> bs_checked_at b = clock)"

lemma answer_reply_ok:
  "case res of
     Inr b \<Rightarrow> (case bal_atomic b of
        Some n \<Rightarrow> tells_balance (answer_reply clock t c a res) t c a (bal_symbol b) n clock
      | None \<Rightarrow> postponement (answer_reply clock t c a res))
   | Inl e \<Rightarrow> postponement (answer_reply clock t c a res)"
  by (auto simp: answer_reply_def reply_simps tells_balance_def big_set_string_show_int Let_def
      split: sum.split option.split)

text \<open>What the handler owes the client for a request, given the calls it made.\<close>

definition reply_ok ::
  "call_env \<Rightarrow> string \<Rightarrow> string \<Rightarrow> string \<Rightarrow> string \<Rightarrow> http_reply \<Rightarrow> api_call list \<Rightarrow> bool" where
  "reply_ok env clock t c a reply tr \<longleftrightarrow>
     slot_trace c a tr \<and>
     (if Api_query c a \<in> set tr
      then (case ce_query env c a of
              Inr b \<Rightarrow> (case bal_atomic b of
                 Some n \<Rightarrow> tells_balance reply t c a (bal_symbol b) n clock
               | None \<Rightarrow> postponement reply)
            | Inl e \<Rightarrow> postponement reply)
      else postponement reply)"

lemma HandleBalance_asked:
  assumes "requested ul sv r t c a" and "HandleBalance ul quote sv env clock r l = Some (reply, tr, l')"
  shows "reply_ok env clock t c a reply tr"
proof -
  have acc: "accept_request ul quote sv r = Inr (t, c, a)" using assms(1) accept_request_Inr by blast
  show ?thesis
  proof (cases "Acquire (ce_fuel env) (ce_acquire env) c l")
    case None
    with assms(2) acc show ?thesis by (simp add: HandleBalance_def)
  next
    case (Some p)
    then obtain res l1 where p: "Acquire (ce_fuel env) (ce_acquire env) c l = Some (res, l1)"
      by (cases p) simp
    show ?thesis
    proof (cases res)
      case (Denied d)
      with assms(2) acc p show ?thesis
        by (auto simp: HandleBalance_def reply_ok_def reply_simps)
    next
      case Granted
      with assms(2) acc p have tr: "tr = Api_try c True # fst (query_slot env c a l1)"
        and reply: "reply = answer_reply clock t c a (ce_query env c a)"
        by (simp_all add: HandleBalance_def split: prod.splits)
      have q: "Api_query c a \<in> set tr" by (simp add: tr query_slot_def)
      have "slot_trace c a tr" by (simp add: tr)
      with q reply show ?thesis
        using answer_reply_ok [where res = "ce_query env c a" and clock = clock and t = t and c = c and a = a]
        by (simp add: reply_ok_def)
    qed
  qed
qed

lemma HandleBalance_refused:
  assumes "\<nexists>t c a. requested ul sv r t c a"
    and "HandleBalance ul quote sv env clock r l = Some (reply, tr, l')"
  shows "(rejection reply \<or> postponement reply) \<and> tr = [] \<and> l' = l"
proof (cases "accept_request ul quote sv r")
  case (Inl x)
  with assms(2) accept_request_Inl [OF Inl] show ?thesis by (simp add: HandleBalance_def)
next
  case (Inr x)
  obtain t c a where "x = (t, c, a)" by (cases x) auto
  with Inr assms(1) accept_request_Inr show ?thesis by blast
qed

lemma HandleBalance_slots:
  assumes "fair_others env" and "lim_inv l h"
    and "HandleBalance ul quote sv env clock r l = Some (reply, tr, l')"
  shows "lim_inv l' h"
proof (cases "accept_request ul quote sv r")
  case (Inl x)
  with assms(2,3) show ?thesis by (simp add: HandleBalance_def)
next
  case (Inr x)
  obtain t c a where acc: "accept_request ul quote sv r = Inr (t, c, a)"
    using Inr by (cases x) auto
  show ?thesis
  proof (cases "Acquire (ce_fuel env) (ce_acquire env) c l")
    case None
    with assms(3) acc show ?thesis by (simp add: HandleBalance_def)
  next
    case (Some p)
    then obtain res l1 where p: "Acquire (ce_fuel env) (ce_acquire env) c l = Some (res, l1)"
      by (cases p) simp
    note inv = Acquire_inv [OF assms(1,2) p]
    show ?thesis
    proof (cases res)
      case (Denied d)
      with assms(3) acc p inv show ?thesis by (auto simp: HandleBalance_def)
    next
      case Granted
      obtain tr2 l2 where q: "query_slot env c a l1 = (tr2, l2)" by fastforce
      from Granted inv have "lim_inv l1 (add_mset c h)" by simp
      from query_slot_inv [OF assms(1) this q] Granted assms(3) acc p q show ?thesis
        by (simp add: HandleBalance_def)
    qed
  qed
qed

section \<open>Properties\<close>

text \<open>
  C12: the balance endpoint answers a well-formed and authorized request with what the
  provider said, or asks the client to come back. A state \<^verbatim>\<open>checked\<close> with status 200 is
  returned only when the provider of the very chain and normalized address was queried and
  gave a number, which the decimal text of the reply denotes; every other outcome is a
  \<^verbatim>\<open>retry\<close>, never a zero balance.
\<close>

theorem balance_reply_exact:
  assumes "requested ul sv r t c a" and "HandleBalance ul quote sv env clock r l = Some (reply, tr, l')"
  shows "reply_ok env clock t c a reply tr"
  by (rule HandleBalance_asked [OF assms])

text \<open>
  A request that is not a \<^verbatim>\<open>POST\<close> of one JSON object with the right key, a valid address
  and a chain the scanner queries for its type is refused before any slot is taken or any
  provider called.
\<close>

theorem balance_refusals:
  assumes "\<nexists>t c a. requested ul sv r t c a"
    and "HandleBalance ul quote sv env clock r l = Some (reply, tr, l')"
  shows "(rejection reply \<or> postponement reply) \<and> tr = [] \<and> l' = l"
  by (rule HandleBalance_refused [OF assms])

text \<open>
  C25: the balance endpoint never leaks a slot: whatever the outcome, the limiter accounts
  afterwards for exactly the slots held before.
\<close>

theorem balance_keeps_slots:
  assumes "fair_others env" and "lim_inv l h"
    and "HandleBalance ul quote sv env clock r l = Some (reply, tr, l')"
  shows "lim_inv l' h"
  by (rule HandleBalance_slots [OF assms])

text \<open>
  The \<^verbatim>\<open>Retry-After\<close> header is the delay in whole seconds rounded up, and at least 1.
\<close>

theorem retry_header_bound:
  assumes "0 < d" and "d \<le> max_int64 - second"
  shows "\<exists>k. rp_retry_after (writeRetry code e d) = Some (show_int k) \<and>
             1 \<le> k \<and> d \<le> k * second \<and> k * second < d + second"
proof -
  let ?k = "(d + second - 1) div second"
  have s: "0 < second" by (simp add: second_def)
  have "wrap64 (wrap64 (d + second) - 1) = d + second - 1"
    using assms s by (simp add: wrap64_small max_int64_def)
  then have k: "retry_seconds d = ?k"
    using assms s by (simp add: retry_seconds_def sdiv_nonneg)
  have "?k * second + (d + second - 1) mod second = d + second - 1"
    by (rule div_mult_mod_eq)
  moreover have "0 \<le> (d + second - 1) mod second" "(d + second - 1) mod second < second"
    using s by simp_all
  ultimately have b: "d \<le> ?k * second" "?k * second < d + second" by linarith+
  have "0 < ?k * second" using b(1) assms(1) by linarith
  then have "1 \<le> ?k" using s by (simp add: zero_less_mult_iff)
  with b k assms(1) show ?thesis by (auto simp: writeRetry_def)
qed

section \<open>Witnesses\<close>

definition sample_service :: balance_service where
  "sample_service = \<lparr>sv_providers = [''solana''], sv_limited = True, sv_key = ''k''\<rparr>"

definition sample_request :: http_request where
  "sample_request =
     \<lparr>hr_method = ''POST'', hr_key = ''k'',
      hr_body = Some \<lparr>br_type = ''sol'', br_chain = ''solana'', br_address = sample_sol\<rparr>,
      hr_extra = False\<rparr>"

definition sample_call :: call_env where
  "sample_call =
     \<lparr>ce_fuel = 1, ce_acquire = quiet_env,
      ce_query = (\<lambda>c a. Inr \<lparr>bal_atomic = Some 7, bal_symbol = ''SOL'', bal_chain = c,
                            bal_provider = c\<rparr>),
      ce_others = (\<lambda>l. l), ce_latency = 5, ce_clock = (\<lambda>_. 9)\<rparr>"

lemma sample_fair: "fair_others sample_call"
  by (simp add: fair_others_def sample_call_def quiet_env_def)

lemma sample_asked: "requested id sample_service sample_request ''sol'' ''solana'' sample_sol"
proof -
  have "trim_space ''sol'' = ''sol''" "trim_space ''solana'' = ''solana''"
    "trim_space sample_sol = sample_sol" "to_lower id ''sol'' = ''sol''"
    "to_lower id ''solana'' = ''solana''"
    by (simp_all add: trim_space_id sample_sol_def to_lower_def is_ascii_def ascii_lower_def)
  then show ?thesis
    by (simp add: requested_def sample_service_def sample_request_def sample_sol_ok chainsFor_def)
qed

lemmas sample_accept = sample_asked [folded accept_request_Inr [where quote = id]]

lemma sample_handled:
  obtains reply tr l' where
    "HandleBalance id id sample_service sample_call ''now'' sample_request (new_limiter sample_cfg 0) =
       Some (reply, tr, l')"
    and "Api_query ''solana'' sample_sol \<in> set tr"
proof -
  have "case HandleBalance id id sample_service sample_call ''now'' sample_request
             (new_limiter sample_cfg 0) of
          Some (reply, tr, l') \<Rightarrow> Api_query ''solana'' sample_sol \<in> set tr | None \<Rightarrow> False"
    by (simp add: HandleBalance_def sample_accept sample_call_def Acquire_def quiet_env_def
        run_simps query_slot_def)
  then show ?thesis using that by (auto split: option.splits)
qed

theorem balance_reply_exact_witness:
  "\<exists>reply tr l'.
     HandleBalance id id sample_service sample_call ''now'' sample_request (new_limiter sample_cfg 0) =
       Some (reply, tr, l') \<and>
     tells_balance reply ''sol'' ''solana'' sample_sol ''SOL'' 7 ''now''"
proof -
  obtain reply tr l' where run: "HandleBalance id id sample_service sample_call ''now''
      sample_request (new_limiter sample_cfg 0) = Some (reply, tr, l')"
    and q: "Api_query ''solana'' sample_sol \<in> set tr" by (rule sample_handled)
  from balance_reply_exact [OF sample_asked run] q
  have "tells_balance reply ''sol'' ''solana'' sample_sol ''SOL'' 7 ''now''"
    by (simp add: reply_ok_def sample_call_def)
  with run show ?thesis by blast
qed

theorem balance_refusals_witness:
  "\<exists>reply l'. HandleBalance id id sample_service sample_call ''now'' (sample_request\<lparr>hr_key := []\<rparr>)
     (new_limiter sample_cfg 0) = Some (reply, [], l') \<and> (rejection reply \<or> postponement reply)"
proof -
  let ?r = "sample_request\<lparr>hr_key := []\<rparr>"
  have no: "\<nexists>t c a. requested id sample_service ?r t c a"
    by (simp add: requested_def sample_service_def sample_request_def)
  have run: "HandleBalance id id sample_service sample_call ''now'' ?r (new_limiter sample_cfg 0) =
      Some (writeError 401 (refused ''unauthorized'' ''invalid API key''), [], new_limiter sample_cfg 0)"
    by (simp add: HandleBalance_def accept_request_def authorized_iff sample_request_def
        sample_service_def)
  from balance_refusals [OF no run] run show ?thesis by blast
qed

theorem balance_keeps_slots_witness:
  "\<exists>reply tr l'.
     HandleBalance id id sample_service sample_call ''now'' sample_request (new_limiter sample_cfg 0) =
       Some (reply, tr, l') \<and> lim_inv l' {#}"
proof -
  obtain reply tr l' where run: "HandleBalance id id sample_service sample_call ''now''
      sample_request (new_limiter sample_cfg 0) = Some (reply, tr, l')"
    by (rule sample_handled)
  have "lim_inv (new_limiter sample_cfg 0) {#}"
    by (rule new_limiter_inv) (simp add: sample_cfg_def)
  from balance_keeps_slots [OF sample_fair this run] run show ?thesis by blast
qed

theorem retry_header_bound_witness:
  "\<exists>k. rp_retry_after (writeRetry 429 (refused [] []) 1) = Some (show_int k) \<and> 1 \<le> k"
  using retry_header_bound [of 1 429 "refused [] []"] by (auto simp: max_int64_def second_def)

end
