(* ===== verification/BalanceClient.thy ===== *)
theory BalanceClient
  imports HttpServer
begin

text \<open>
  \<^verbatim>\<open>internal/balanceclient\<close>: the client of the balance API. \<^verbatim>\<open>net/url\<close> and the transport
  are parameters; what \<^verbatim>\<open>encoding/json\<close> makes of a reply of the server is written out.
\<close>

section \<open>The client\<close>

record query =
  qy_type :: string
  qy_chain :: string
  qy_address :: string

record api_result =
  ap_state :: string
  ap_type :: string
  ap_address :: string
  ap_chain :: string
  ap_balance :: string
  ap_symbol :: string
  ap_has_balance :: bool
  ap_checked_at :: string
  ap_code :: string
  ap_message :: string
  ap_provider :: string
  ap_retry_ms :: int

record url =
  url_scheme :: string
  url_host :: string
  url_path :: string
  url_raw_path :: string
  url_query :: string
  url_fragment :: string

record client =
  cl_base :: string
  cl_key :: string

definition new_client ::
  "(string \<Rightarrow> url option) \<Rightarrow> (url \<Rightarrow> string) \<Rightarrow> string \<Rightarrow> string \<Rightarrow> string + client" where
  "new_client parse show_url base key =
     (case parse (trim_space base) of
        None \<Rightarrow> Inl ''api-url must be an http or https URL''
      | Some u \<Rightarrow>
          if url_host u = [] \<or> url_scheme u \<noteq> ''http'' \<and> url_scheme u \<noteq> ''https''
          then Inl ''api-url must be an http or https URL''
          else
            let u = u\<lparr>url_query := [], url_fragment := [], url_path := trim_slashes (url_path u),
                      url_raw_path := []\<rparr>
            in Inr \<lparr>cl_base = trim_slashes (show_url u), cl_key = key\<rparr>)"

text \<open>
  One exchange: encoding the query, building the request for a URL, sending it with the key of
  the header, if any, and decoding the body into a result that is partly filled already.
\<close>

record exchange =
  xc_marshal :: "query \<Rightarrow> string option"
  xc_request :: "string \<Rightarrow> string option"
  xc_do :: "string \<Rightarrow> string option \<Rightarrow> query \<Rightarrow> string + int"
  xc_decode :: "api_result \<Rightarrow> string option \<times> api_result"

definition clientError :: "api_result \<Rightarrow> string \<Rightarrow> string \<Rightarrow> api_result" where
  "clientError r code err = r\<lparr>ap_state := ''client_error'', ap_code := code, ap_message := err\<rparr>"

definition fresh_result :: "query \<Rightarrow> api_result" where
  "fresh_result q =
     \<lparr>ap_state = [], ap_type = qy_type q, ap_address = qy_address q, ap_chain = qy_chain q,
      ap_balance = [], ap_symbol = [], ap_has_balance = False, ap_checked_at = [], ap_code = [],
      ap_message = [], ap_provider = [], ap_retry_ms = 0\<rparr>"

definition or_default :: "string \<Rightarrow> string \<Rightarrow> string" where
  "or_default s dflt = (if s = [] then dflt else s)"

definition finish_result :: "query \<Rightarrow> int \<Rightarrow> api_result \<Rightarrow> api_result" where
  "finish_result q status r =
     (let r = r\<lparr>ap_type := or_default (ap_type r) (qy_type q),
                ap_address := or_default (ap_address r) (qy_address q),
                ap_chain := or_default (ap_chain r) (qy_chain q)\<rparr>
      in if status < 200 \<or> status \<ge> 300 then
           r\<lparr>ap_state := or_default (ap_state r) ''client_error'',
             ap_code := or_default (ap_code r) (''http_'' @ show_int status),
             ap_message := or_default (ap_message r) ''balance API request failed''\<rparr>
         else r)"

definition client_Check :: "exchange \<Rightarrow> client \<Rightarrow> query \<Rightarrow> api_result \<times> string option" where
  "client_Check x c q =
     (let r = fresh_result q; target_url = cl_base c @ ''/v1/balance'' in
      case xc_marshal x q of
        Some err \<Rightarrow> (clientError r ''request_encode_error'' err, Some err)
      | None \<Rightarrow>
          (case xc_request x target_url of
             Some err \<Rightarrow> (clientError r ''request_error'' err, Some err)
           | None \<Rightarrow>
               (case xc_do x target_url (if cl_key c \<noteq> [] then Some (cl_key c) else None) q of
                  Inl err \<Rightarrow> (clientError r ''connection_error'' err, Some err)
                | Inr status \<Rightarrow>
                    (case xc_decode x r of
                       (Some err, r1) \<Rightarrow>
                         let wrapped = ''decode balance API response: '' @ err
                         in (clientError r1 ''response_decode_error'' wrapped, Some wrapped)
                     | (None, r1) \<Rightarrow> (finish_result q status r1, None)))))"

section \<open>Errors are told\<close>

text \<open>
  A failed exchange is told in the result: \<^verbatim>\<open>client_error\<close> with a code that says where it
  failed and the message of the error; a status outside 2xx always has a state, a code and a
  message. The routing fields are never lost.
\<close>

definition told_failure :: "api_result \<Rightarrow> bool" where
  "told_failure r \<longleftrightarrow> ap_state r \<noteq> [] \<and> ap_code r \<noteq> [] \<and> ap_message r \<noteq> []"

lemma finish_result_failure:
  "status < 200 \<or> status \<ge> 300 \<Longrightarrow> told_failure (finish_result q status r)"
  by (auto simp: finish_result_def told_failure_def or_default_def Let_def)

lemma finish_result_routing:
  "qy_type q \<noteq> [] \<and> qy_chain q \<noteq> [] \<and> qy_address q \<noteq> [] \<Longrightarrow>
     ap_type (finish_result q status r) \<noteq> [] \<and> ap_chain (finish_result q status r) \<noteq> [] \<and>
     ap_address (finish_result q status r) \<noteq> []"
  by (auto simp: finish_result_def or_default_def Let_def)

lemma client_Check_error:
  assumes "client_Check x c q = (r, Some err)"
  shows "ap_state r = ''client_error'' \<and> ap_message r = err \<and>
    ap_code r \<in> {''request_encode_error'', ''request_error'', ''connection_error'', ''response_decode_error''}"
  using assms
  by (auto simp: client_Check_def clientError_def Let_def split: option.splits sum.splits prod.splits)

lemma client_Check_ok:
  assumes "client_Check x c q = (r, None)"
  obtains status r1 where
    "xc_do x (cl_base c @ ''/v1/balance'') (if cl_key c \<noteq> [] then Some (cl_key c) else None) q = Inr status"
    and "xc_decode x (fresh_result q) = (None, r1)" and "r = finish_result q status r1"
  using assms
  by (auto simp: client_Check_def Let_def split: option.splits sum.splits prod.splits)

lemma trim_slashes_end: "trim_slashes s = [] \<or> last (trim_slashes s) \<noteq> CHR ''/''"
proof (cases "dropWhile (\<lambda>c. c = CHR ''/'') (rev s)")
  case (Cons c cs)
  then have "c \<noteq> CHR ''/''" using hd_dropWhile [of "\<lambda>c. c = CHR ''/''" "rev s"] by auto
  with Cons show ?thesis by (simp add: trim_slashes_def)
qed (simp add: trim_slashes_def)

lemma new_client_base:
  assumes "new_client parse show_url base key = Inr c"
  shows "cl_base c = [] \<or> last (cl_base c) \<noteq> CHR ''/''"
proof -
  obtain s where "cl_base c = trim_slashes s"
    using assms by (auto simp: new_client_def Let_def split: option.splits if_splits)
  with trim_slashes_end show ?thesis by metis
qed

section \<open>The client and the server\<close>

text \<open>
  What \<^verbatim>\<open>json\<close> makes of a reply of the server: the fields the object has are set, the others
  are kept; \<^verbatim>\<open>provider\<close> and \<^verbatim>\<open>retry_after_ms\<close> are left out when empty.
\<close>

definition json_overlay :: "reply_body \<Rightarrow> api_result \<Rightarrow> api_result" where
  "json_overlay body r =
     (case body of
        Checked b \<Rightarrow>
          \<lparr>ap_state = bs_state b, ap_type = bs_type b, ap_address = bs_address b,
           ap_chain = bs_chain b, ap_balance = bs_balance b, ap_symbol = bs_symbol b,
           ap_has_balance = bs_has_balance b, ap_checked_at = bs_checked_at b, ap_code = ap_code r,
           ap_message = ap_message r, ap_provider = ap_provider r, ap_retry_ms = ap_retry_ms r\<rparr>
      | Failed e \<Rightarrow>
          r\<lparr>ap_state := es_state e, ap_code := es_code e, ap_message := es_message e,
            ap_provider := or_default (es_provider e) (ap_provider r),
            ap_retry_ms := (if es_retry_ms e = 0 then ap_retry_ms r else es_retry_ms e)\<rparr>
      | Capacity s \<Rightarrow> r)"

text \<open>The request of a query, and the exchange in which the server's reply arrives.\<close>

definition request_of :: "client \<Rightarrow> query \<Rightarrow> http_request" where
  "request_of c q =
     \<lparr>hr_method = ''POST'', hr_key = cl_key c,
      hr_body = Some \<lparr>br_type = qy_type q, br_chain = qy_chain q, br_address = qy_address q\<rparr>,
      hr_extra = False\<rparr>"

definition served :: "http_reply \<Rightarrow> exchange" where
  "served reply =
     \<lparr>xc_marshal = (\<lambda>_. None), xc_request = (\<lambda>_. None), xc_do = (\<lambda>_ _ _. Inr (rp_status reply)),
      xc_decode = (\<lambda>r. (None, json_overlay (rp_body reply) r))\<rparr>"

lemma client_Check_served:
  "client_Check (served reply) c q =
     (finish_result q (rp_status reply) (json_overlay (rp_body reply) (fresh_result q)), None)"
  by (simp add: client_Check_def served_def Let_def)

lemma served_failure:
  assumes "rejection reply \<or> postponement reply"
    and "client_Check (served reply) c q = (r, err)"
  shows "err = None \<and> ap_state r \<in> {''rejected'', ''retry''} \<and> told_failure r"
proof -
  have st: "rp_status reply < 200 \<or> rp_status reply \<ge> 300"
    using assms(1) by (auto simp: rejection_def postponement_def)
  from assms(1) obtain e where e: "rp_body reply = Failed e" "es_state e \<in> {''rejected'', ''retry''}"
    by (auto simp: rejection_def postponement_def)
  have r: "r = finish_result q (rp_status reply) (json_overlay (Failed e) (fresh_result q))" "err = None"
    using assms(2) e by (simp_all add: client_Check_served)
  have "ap_state r = es_state e"
    using e(2) by (auto simp: r(1) finish_result_def json_overlay_def or_default_def Let_def)
  with e r finish_result_failure [OF st] show ?thesis by simp
qed

lemma served_balance:
  assumes "tells_balance reply t ch a symbol n clock"
    and "client_Check (served reply) c q = (r, err)"
  shows "err = None \<and> ap_state r = ''checked'' \<and> big_set_string 10 (ap_balance r) = Some n \<and>
    (ap_has_balance r \<longleftrightarrow> 0 < n) \<and> ap_symbol r = symbol"
  using assms
  by (auto simp: tells_balance_def client_Check_served finish_result_def json_overlay_def Let_def)

text \<open>The number the provider gave, when the query reached it.\<close>

definition provider_number ::
  "(string \<Rightarrow> string) \<Rightarrow> balance_service \<Rightarrow> call_env \<Rightarrow> http_request \<Rightarrow> api_call list \<Rightarrow> int \<Rightarrow> bool" where
  "provider_number ul sv env req tr n \<longleftrightarrow>
     (\<exists>t ch a b. requested ul sv req t ch a \<and> Api_query ch a \<in> set tr \<and>
        ce_query env ch a = Inr b \<and> bal_atomic b = Some n)"

lemma asked_unique:
  "requested ul sv req t ch a \<Longrightarrow> requested ul sv req t' ch' a' \<Longrightarrow> t' = t \<and> ch' = ch \<and> a' = a"
  by (auto simp: requested_def)

lemma end_to_end:
  assumes "HandleBalance ul quote sv env clock (request_of c q) l = Some (reply, tr, l')"
    and "client_Check (served reply) c q = (r, err)"
  shows "err = None \<and>
    (if \<exists>n. provider_number ul sv env (request_of c q) tr n
     then \<exists>n. provider_number ul sv env (request_of c q) tr n \<and> ap_state r = ''checked'' \<and>
            big_set_string 10 (ap_balance r) = Some n \<and> (ap_has_balance r \<longleftrightarrow> 0 < n)
     else ap_state r \<in> {''rejected'', ''retry''} \<and> told_failure r)"
proof (cases "\<exists>t ch a. requested ul sv (request_of c q) t ch a")
  case False
  with HandleBalance_refused [OF False assms(1)] served_failure [OF _ assms(2)] show ?thesis
    by (auto simp: provider_number_def)
next
  case True
  then obtain t ch a where a: "requested ul sv (request_of c q) t ch a" by blast
  note ok = HandleBalance_asked [OF a assms(1)]
  show ?thesis
  proof (cases "\<exists>n. provider_number ul sv env (request_of c q) tr n")
    case num: True
    then obtain n b where n: "Api_query ch a \<in> set tr" "ce_query env ch a = Inr b" "bal_atomic b = Some n"
      using asked_unique [OF a] unfolding provider_number_def by blast
    with ok have "tells_balance reply t ch a (bal_symbol b) n clock" by (simp add: reply_ok_def)
    moreover have "provider_number ul sv env (request_of c q) tr n"
      using a n unfolding provider_number_def by blast
    ultimately show ?thesis using served_balance [OF _ assms(2)] by auto
  next
    case False
    then have "\<not> (Api_query ch a \<in> set tr \<and> (\<exists>b n. ce_query env ch a = Inr b \<and> bal_atomic b = Some n))"
      using a unfolding provider_number_def by blast
    then have "postponement reply"
      using ok by (auto simp: reply_ok_def split: sum.splits option.splits if_splits)
    with served_failure [OF _ assms(2)] False show ?thesis by simp
  qed
qed

section \<open>Properties\<close>

text \<open>
  A failed request is never silent: when \<^verbatim>\<open>Check\<close> returns an error the result says
  \<^verbatim>\<open>client_error\<close> with a code and the same message, and when the server answers outside 2xx
  the result has a state, a code and a message whatever the body was.
\<close>

theorem client_tells_failures:
  assumes "client_Check x c q = (r, err)"
    and "err = None \<longrightarrow> (\<exists>status. xc_do x (cl_base c @ ''/v1/balance'')
           (if cl_key c \<noteq> [] then Some (cl_key c) else None) q = Inr status \<and>
           (status < 200 \<or> status \<ge> 300))"
  shows "(case err of Some e \<Rightarrow> ap_state r = ''client_error'' \<and> ap_message r = e \<and> ap_code r \<noteq> []
          | None \<Rightarrow> told_failure r)"
proof (cases err)
  case None
  with assms(1) obtain status r1 where "xc_do x (cl_base c @ ''/v1/balance'')
      (if cl_key c \<noteq> [] then Some (cl_key c) else None) q = Inr status"
    and "r = finish_result q status r1" by (auto elim: client_Check_ok)
  with assms(2) None finish_result_failure [of status q r1] show ?thesis by auto
next
  case (Some e)
  with client_Check_error [of x c q r e] assms(1) show ?thesis by auto
qed

text \<open>
  The client and the balance endpoint together: the client reports \<^verbatim>\<open>checked\<close> exactly
  when the provider was queried for the request and gave a number, with that number and its
  sign; otherwise it reports \<^verbatim>\<open>rejected\<close> or \<^verbatim>\<open>retry\<close> with a code and a message.
\<close>

theorem balance_end_to_end:
  assumes "HandleBalance ul quote sv env clock (request_of c q) l = Some (reply, tr, l')"
    and "client_Check (served reply) c q = (r, err)"
  shows "err = None \<and>
    (if \<exists>n. provider_number ul sv env (request_of c q) tr n
     then \<exists>n. provider_number ul sv env (request_of c q) tr n \<and> ap_state r = ''checked'' \<and>
            big_set_string 10 (ap_balance r) = Some n \<and> (ap_has_balance r \<longleftrightarrow> 0 < n)
     else ap_state r \<in> {''rejected'', ''retry''} \<and> told_failure r)"
  by (rule end_to_end [OF assms])

section \<open>Witnesses\<close>

definition sample_query :: query where
  "sample_query = \<lparr>qy_type = ''sol'', qy_chain = ''solana'', qy_address = sample_sol\<rparr>"

definition sample_client :: client where
  "sample_client = \<lparr>cl_base = ''http://h'', cl_key = ''k''\<rparr>"

lemma sample_request_of: "request_of sample_client sample_query = sample_request"
  by (simp add: request_of_def sample_client_def sample_query_def sample_request_def)

theorem client_tells_failures_witness:
  "ap_state (fst (client_Check (served (writeError 500 (refused [] []))) sample_client sample_query)) \<noteq> []"
proof -
  obtain r where r: "client_Check (served (writeError 500 (refused [] []))) sample_client sample_query = (r, None)"
    by (simp add: client_Check_served)
  from client_tells_failures [OF this] r show ?thesis
    by (auto simp: served_def writeError_def told_failure_def)
qed

theorem balance_end_to_end_witness:
  "\<exists>reply tr l' r. HandleBalance id id sample_service sample_call ''now''
       (request_of sample_client sample_query) (new_limiter sample_cfg 0) = Some (reply, tr, l') \<and>
     client_Check (served reply) sample_client sample_query = (r, None) \<and> ap_state r = ''checked''"
proof -
  obtain reply tr l' where run: "HandleBalance id id sample_service sample_call ''now''
      (request_of sample_client sample_query) (new_limiter sample_cfg 0) = Some (reply, tr, l')"
    and q: "Api_query ''solana'' sample_sol \<in> set tr"
    using sample_handled by (metis sample_request_of)
  obtain r where r: "client_Check (served reply) sample_client sample_query = (r, None)"
    by (simp add: client_Check_served)
  have "provider_number id sample_service sample_call (request_of sample_client sample_query) tr 7"
    using sample_asked q
    by (auto simp: provider_number_def sample_request_of sample_call_def)
  then have "\<exists>n. provider_number id sample_service sample_call (request_of sample_client sample_query) tr n"
    by blast
  with balance_end_to_end [OF run r] have "ap_state r = ''checked''" by auto
  with run r show ?thesis by blast
qed

end
