(* ===== verification/Generate_Cmd.thy ===== *)
theory Generate_Cmd
  imports BalanceClient Wallet
begin

text \<open>
  The command \<^verbatim>\<open>generate\<close> of \<^verbatim>\<open>cmd/wallet-scan/main.go\<close>: it prints a new wallet and, with
  \<^verbatim>\<open>--scan\<close>, what the balance API says of its six addresses. The flag package, the URL
  parser and the encoder of the JSON output are parameters.
\<close>

section \<open>Querying the API\<close>

definition wallet_queries :: "wallet_addresses \<Rightarrow> query list" where
  "wallet_queries as =
     [\<lparr>qy_type = ''btc'', qy_chain = ''btc'', qy_address = wd_address (ws_btc as)\<rparr>,
      \<lparr>qy_type = ''evm'', qy_chain = ''ethereum'', qy_address = wd_address (ws_eth as)\<rparr>,
      \<lparr>qy_type = ''evm'', qy_chain = ''arbitrum'', qy_address = wd_address (ws_eth as)\<rparr>,
      \<lparr>qy_type = ''evm'', qy_chain = ''bsc'', qy_address = wd_address (ws_eth as)\<rparr>,
      \<lparr>qy_type = ''sol'', qy_chain = ''solana'', qy_address = wd_address (ws_sol as)\<rparr>,
      \<lparr>qy_type = ''trx'', qy_chain = ''tron'', qy_address = wd_address (ws_trx as)\<rparr>]"

fun join :: "string \<Rightarrow> string list \<Rightarrow> string" where
  "join sep [] = []"
| "join sep [s] = s"
| "join sep (s # t # ss) = s @ sep @ join sep (t # ss)"

definition scan_failed :: "api_result \<times> string option \<Rightarrow> bool" where
  "scan_failed p \<longleftrightarrow> snd p \<noteq> None \<or> ap_state (fst p) \<noteq> ''checked''"

definition failure_text :: "api_result \<times> string option \<Rightarrow> string" where
  "failure_text p = ap_chain (fst p) @ '':'' @ or_default (ap_state (fst p)) ''client_error''"

text \<open>
  The six requests run as goroutines and share nothing but the client: \<open>xs i\<close> is the exchange
  of the \<open>i\<close>-th one.
\<close>

definition scanGeneratedWallet ::
  "(nat \<Rightarrow> exchange) \<Rightarrow> client \<Rightarrow> wallet \<Rightarrow> api_result list \<times> string option" where
  "scanGeneratedWallet xs c w =
     (let qs = wallet_queries (wl_addresses w);
          ps = map (\<lambda>i. client_Check (xs i) c (qs ! i)) [0..<length qs];
          failed = map failure_text (filter scan_failed ps)
      in (map fst ps,
          if failed = [] then None
          else Some (''balance scan failed for '' @ show_int (int (length failed)) @ ''/'' @
                 show_int (int (length ps)) @ '' queries: '' @ join '', '' failed)))"

section \<open>Texts\<close>

definition atomicUnit :: "string \<Rightarrow> string" where
  "atomicUnit chain =
     (if chain = ''btc'' then ''satoshi''
      else if chain = ''ethereum'' \<or> chain = ''arbitrum'' \<or> chain = ''bsc'' then ''wei''
      else if chain = ''solana'' then ''lamport''
      else if chain = ''tron'' then ''sun''
      else ''atomic units'')"

text \<open>\<^verbatim>\<open>%-8s\<close> pads to a width in code points, the bytes that do not continue one.\<close>

definition rune_count :: "string \<Rightarrow> nat" where
  "rune_count s = length (filter (\<lambda>c. of_char c < (128 :: nat) \<or> of_char c \<ge> (192 :: nat)) s)"

definition pad_right :: "nat \<Rightarrow> string \<Rightarrow> string" where
  "pad_right n s = s @ replicate (n - rune_count s) (CHR '' '')"

definition newline :: string where
  "newline = [CHR 0x0A]"

definition result_line :: "api_result \<Rightarrow> string" where
  "result_line r =
     (if ap_state r \<noteq> ''checked'' then
        pad_right 8 (ap_type r) @ '' '' @ pad_right 9 (ap_chain r) @ '' '' @ ap_state r @ '': '' @
        ap_code r @ newline
      else
        pad_right 8 (ap_type r) @ '' '' @ pad_right 9 (ap_chain r) @ '' '' @ ap_balance r @ '' '' @
        atomicUnit (ap_chain r) @ '' ('' @ ap_symbol r @ '', '' @
        (if ap_has_balance r then ''positive'' else ''zero'') @ '')'' @ newline)"

definition scan_text :: "api_result list \<Rightarrow> string list" where
  "scan_text rs = (newline @ ''Balance checks:'' @ newline) # map result_line rs"

definition address_line :: "string \<Rightarrow> wallet_address \<Rightarrow> string" where
  "address_line name a = pad_right 3 name @ '' '' @ pad_right 19 (wd_path a) @ '' '' @ wd_address a @ newline"

definition human_text :: "wallet \<Rightarrow> string list" where
  "human_text w =
     [''Mnemonic: '' @ wl_mnemonic w @ newline @ newline,
      address_line ''BTC'' (ws_btc (wl_addresses w)), address_line ''ETH'' (ws_eth (wl_addresses w)),
      address_line ''SOL'' (ws_sol (wl_addresses w)), address_line ''TRX'' (ws_trx (wl_addresses w))]"

section \<open>Writing\<close>

text \<open>
  What is written to \<^verbatim>\<open>stdout\<close>, one item per call of the writer; \<open>wr k\<close> is the error of its
  \<open>k\<close>-th call. Output is the list of the calls that succeeded.
\<close>

datatype printed = Out_text string | Out_wallet wallet | Out_scan wallet "api_result list"

fun write_all :: "(nat \<Rightarrow> string option) \<Rightarrow> printed list \<Rightarrow> printed list \<Rightarrow> string option \<times> printed list" where
  "write_all wr done_so_far [] = (None, done_so_far)"
| "write_all wr done_so_far (o1 # os) =
     (case wr (length done_so_far) of
        Some e \<Rightarrow> (Some e, done_so_far)
      | None \<Rightarrow> write_all wr (done_so_far @ [o1]) os)"

definition writeScanText ::
  "(nat \<Rightarrow> string option) \<Rightarrow> printed list \<Rightarrow> api_result list \<Rightarrow> string option \<times> printed list" where
  "writeScanText wr out rs = write_all wr out (map Out_text (scan_text rs))"

definition writeHumanResult ::
  "(nat \<Rightarrow> string option) \<Rightarrow> printed list \<Rightarrow> wallet \<Rightarrow> string option \<times> printed list" where
  "writeHumanResult wr out w = write_all wr out (map Out_text (human_text w))"

section \<open>The command\<close>

record generate_flags =
  gf_words :: int
  gf_json :: bool
  gf_scan :: bool
  gf_url :: string
  gf_key :: string
  gf_args :: nat

record generate_env =
  ge_parse_url :: "string \<Rightarrow> url option"
  ge_show_url :: "url \<Rightarrow> string"
  ge_exchange :: "nat \<Rightarrow> exchange"
  ge_writer :: "nat \<Rightarrow> string option"

text \<open>\<open>flags\<close> is what the flag package reads from the arguments, or its error.\<close>

definition generateCommand ::
  "generate_env \<Rightarrow> ('k, 'p) crypto \<Rightarrow> string + generate_flags \<Rightarrow> string option \<times> printed list" where
  "generateCommand V cr flags =
     (case flags of
        Inl e \<Rightarrow> (Some e, [])
      | Inr f \<Rightarrow>
          if gf_args f \<noteq> 0 then (Some ''generate does not accept positional arguments'', [])
          else
            (case (if gf_scan f
                   then map_sum id Some (new_client (ge_parse_url V) (ge_show_url V) (gf_url f) (gf_key f))
                   else Inr None) of
               Inl e \<Rightarrow> (Some e, [])
             | Inr cl \<Rightarrow>
                 (case Generate cr (gf_words f) of
                    Inl e \<Rightarrow> (Some e, [])
                  | Inr w \<Rightarrow>
                      (case cl of
                         None \<Rightarrow>
                           if gf_json f then write_all (ge_writer V) [] [Out_wallet w]
                           else writeHumanResult (ge_writer V) [] w
                       | Some c \<Rightarrow>
                           (case scanGeneratedWallet (ge_exchange V) c w of
                              (rs, scanErr) \<Rightarrow>
                                (case (if gf_json f then write_all (ge_writer V) [] [Out_scan w rs]
                                       else
                                         (case writeHumanResult (ge_writer V) [] w of
                                            (Some e, out) \<Rightarrow> (Some e, out)
                                          | (None, out) \<Rightarrow> writeScanText (ge_writer V) out rs)) of
                                   (Some e, out) \<Rightarrow> (Some e, out)
                                 | (None, out) \<Rightarrow> (scanErr, out)))))))"

section \<open>What it reports\<close>

lemma write_all_ok: "write_all wr out os = (None, out') \<Longrightarrow> out' = out @ os"
proof (induction os arbitrary: out)
  case (Cons o1 os)
  then have "write_all wr (out @ [o1]) os = (None, out')" by (auto split: option.splits)
  from Cons.IH [OF this] show ?case by simp
qed simp

lemma write_all_prefix: "write_all wr out os = (e, out') \<Longrightarrow> \<exists>k. out' = out @ take k os"
proof (induction os arbitrary: out)
  case (Cons o1 os)
  show ?case
  proof (cases "wr (length out)")
    case None
    with Cons.prems Cons.IH [of "out @ [o1]"] obtain k where "out' = (out @ [o1]) @ take k os" by auto
    then show ?thesis by (intro exI [of _ "Suc k"]) simp
  next
    case (Some m)
    with Cons.prems show ?thesis by (intro exI [of _ 0]) simp
  qed
qed simp

lemma queries_length [simp]: "length (wallet_queries as) = 6"
  by (simp add: wallet_queries_def)

lemma scan_length: "length (fst (scanGeneratedWallet xs c w)) = 6"
  by (simp add: scanGeneratedWallet_def Let_def)

lemma scan_nth:
  "i < 6 \<Longrightarrow> fst (scanGeneratedWallet xs c w) ! i =
     fst (client_Check (xs i) c (wallet_queries (wl_addresses w) ! i))"
  by (simp add: scanGeneratedWallet_def Let_def)

lemma scan_error:
  "snd (scanGeneratedWallet xs c w) = None \<longleftrightarrow>
     (\<forall>i < 6. \<not> scan_failed (client_Check (xs i) c (wallet_queries (wl_addresses w) ! i)))"
  by (auto simp: scanGeneratedWallet_def Let_def filter_empty_conv)

text \<open>The two outputs of a complete run.\<close>

definition full_output :: "generate_flags \<Rightarrow> wallet \<Rightarrow> api_result list option \<Rightarrow> printed list" where
  "full_output f w scan =
     (case scan of
        None \<Rightarrow> if gf_json f then [Out_wallet w] else map Out_text (human_text w)
      | Some rs \<Rightarrow>
          if gf_json f then [Out_scan w rs] else map Out_text (human_text w @ scan_text rs))"

text \<open>
  \<^verbatim>\<open>generate\<close> succeeds only when it printed everything: the wallet, which is the one
  generated, and with \<^verbatim>\<open>--scan\<close> the six results, each of which was obtained without an error
  and has the state \<^verbatim>\<open>checked\<close>.
\<close>

theorem generate_success:
  assumes "generateCommand V cr (Inr f) = (None, out)"
  shows "\<exists>w. Generate cr (gf_words f) = Inr w \<and>
    (if gf_scan f
     then \<exists>c rs. new_client (ge_parse_url V) (ge_show_url V) (gf_url f) (gf_key f) = Inr c \<and>
            scanGeneratedWallet (ge_exchange V) c w = (rs, None) \<and> length rs = 6 \<and>
            (\<forall>i < 6. client_Check (ge_exchange V i) c (wallet_queries (wl_addresses w) ! i) = (rs ! i, None) \<and>
               ap_state (rs ! i) = ''checked'') \<and>
            out = full_output f w (Some rs)
     else out = full_output f w None)"
proof (cases "gf_scan f")
  case False
  with assms show ?thesis
    by (auto simp: generateCommand_def writeHumanResult_def full_output_def
        simp del: write_all.simps dest!: write_all_ok split: if_splits sum.splits)
next
  case True
  with assms obtain c where c: "new_client (ge_parse_url V) (ge_show_url V) (gf_url f) (gf_key f) = Inr c"
    by (cases "new_client (ge_parse_url V) (ge_show_url V) (gf_url f) (gf_key f)")
      (auto simp: generateCommand_def split: if_splits)
  with True assms obtain w rs where w: "Generate cr (gf_words f) = Inr w"
    and rs: "scanGeneratedWallet (ge_exchange V) c w = (rs, None)"
    and out: "out = full_output f w (Some rs)"
    by (auto simp: generateCommand_def writeHumanResult_def writeScanText_def full_output_def map_append
        simp del: write_all.simps dest!: write_all_ok
        split: if_splits sum.splits prod.splits option.splits)
  have "\<forall>i < 6. client_Check (ge_exchange V i) c (wallet_queries (wl_addresses w) ! i) = (rs ! i, None) \<and>
      ap_state (rs ! i) = ''checked''"
  proof (intro allI impI)
    fix i :: nat
    assume i: "i < 6"
    let ?p = "client_Check (ge_exchange V i) c (wallet_queries (wl_addresses w) ! i)"
    have "\<not> scan_failed ?p" using scan_error [of "ge_exchange V" c w] rs i by simp
    moreover have "rs ! i = fst ?p" using scan_nth [OF i, of "ge_exchange V" c w] rs by simp
    ultimately show "?p = (rs ! i, None) \<and> ap_state (rs ! i) = ''checked''"
      by (cases ?p) (simp add: scan_failed_def)
  qed
  moreover have "length rs = 6" using scan_length [of "ge_exchange V" c w] rs by simp
  ultimately show ?thesis using True c w rs out by auto
qed

section \<open>Witness\<close>

definition sample_generate :: generate_env where
  "sample_generate =
     \<lparr>ge_parse_url = (\<lambda>s. Some \<lparr>url_scheme = ''http'', url_host = ''h'', url_path = [], url_raw_path = [],
                               url_query = [], url_fragment = []\<rparr>),
      ge_show_url = (\<lambda>u. ''http://h''),
      ge_exchange = (\<lambda>i. served \<lparr>rp_status = 200, rp_retry_after = None,
        rp_body = Checked \<lparr>bs_state = ''checked'', bs_type = [], bs_address = [], bs_chain = [],
          bs_balance = ''0'', bs_symbol = ''X'', bs_has_balance = False, bs_checked_at = []\<rparr>\<rparr>),
      ge_writer = (\<lambda>_. None)\<rparr>"

theorem generate_success_witness:
  "\<exists>out w. generateCommand sample_generate toy_crypto (Inr \<lparr>gf_words = 12, gf_json = True, gf_scan = True,
       gf_url = [], gf_key = [], gf_args = 0\<rparr>) = (None, out) \<and> Generate toy_crypto 12 = Inr w"
proof -
  let ?f = "\<lparr>gf_words = 12, gf_json = True, gf_scan = True, gf_url = [], gf_key = [], gf_args = 0\<rparr>"
  obtain w where w: "Generate toy_crypto 12 = Inr w"
    by (simp add: Generate_def entropyBits_def and_then_def wrap_err_def toy_crypto_def Derive_def
        deriveBTC_def deriveETH_def deriveTRX_def deriveSOL_slip10 deriveSecpPrivate_def
        btcDerivation_def ethDerivation_def trxDerivation_def Let_def)
  have ok: "\<not> scan_failed (client_Check (ge_exchange sample_generate i) c q)" for i c q
    by (simp add: scan_failed_def sample_generate_def client_Check_served finish_result_def
        json_overlay_def Let_def)
  obtain c where c: "new_client (ge_parse_url sample_generate) (ge_show_url sample_generate) [] [] = Inr c"
    by (simp add: new_client_def sample_generate_def)
  have "snd (scanGeneratedWallet (ge_exchange sample_generate) c w) = None"
    using scan_error ok by blast
  then obtain rs where "scanGeneratedWallet (ge_exchange sample_generate) c w = (rs, None)"
    by (metis prod.collapse)
  then obtain out where out: "generateCommand sample_generate toy_crypto (Inr ?f) = (None, out)"
    using c w by (simp add: generateCommand_def) (simp add: sample_generate_def)
  from generate_success [OF out] out w show ?thesis by auto
qed

end
