(* ===== verification/Cleanup.thy ===== *)
theory Cleanup
  imports Outbox
begin

text \<open>
  \<^verbatim>\<open>internal/maintenance/cleanup.go\<close> and the loop of \<^verbatim>\<open>runCleanupWith\<close> in
  \<^verbatim>\<open>cmd/wallet-scan/main.go\<close>: addresses of old completed runs that hold nothing are removed
  in bounded batches.
\<close>

section \<open>One batch\<close>

definition eligible :: "int \<Rightarrow> db \<Rightarrow> wallet_row \<Rightarrow> bool" where
  "eligible cutoff d a \<longleftrightarrow>
     list_ex (\<lambda>r. run_status (rr_run r) = ''completed'' \<and>
        (case rr_completed r of None \<Rightarrow> False | Some t \<Rightarrow> t < cutoff) \<and>
        run_start (rr_run r) \<le> wa_id a \<and> wa_id a \<le> run_end (rr_run r)) (runs d) \<and>
     \<not> list_ex (\<lambda>f. pf_address_id f = wa_id a) (findings d) \<and>
     \<not> list_ex (\<lambda>q. rq_address_id q = wa_id a) (retries d)"

text \<open>The statement deletes the candidates; the startup checks go with their address.\<close>

definition sql_cleanup :: "int \<Rightarrow> nat \<Rightarrow> nat sql" where
  "sql_cleanup cutoff n now d =
     (let ids = map wa_id (select_sorted wa_id (eligible cutoff d) n (addresses d))
      in (Inr (length (filter (\<lambda>a. wa_id a \<in> set ids) (addresses d))),
          d\<lparr>addresses := filter (\<lambda>a. wa_id a \<notin> set ids) (addresses d),
            checks := filter (\<lambda>c. bc_address_id c \<notin> set ids) (checks d)\<rparr>))"

definition Cleaner_Run :: "env \<Rightarrow> int \<Rightarrow> int \<Rightarrow> nat dbp" where
  "Cleaner_Run E cutoff batchSize =
     (if batchSize < 1 then raise (Pg ''cleanup batch size must be positive'')
      else fetch E id id (sql_cleanup cutoff (nat batchSize)))"

section \<open>The command\<close>

fun cleanup_loop :: "nat \<Rightarrow> env \<Rightarrow> int \<Rightarrow> int \<Rightarrow> db \<Rightarrow> ((db_error + unit) \<times> db) option" where
  "cleanup_loop 0 E cutoff batchSize d = None"
| "cleanup_loop (Suc fuel) E cutoff batchSize d =
     (case Cleaner_Run E cutoff batchSize d of
        (Inl e, d') \<Rightarrow> Some (Inl e, d')
      | (Inr deleted, d') \<Rightarrow>
          if deleted = 0 then Some (Inr (), d') else cleanup_loop fuel E cutoff batchSize d')"

definition runCleanupWith ::
  "nat \<Rightarrow> env \<Rightarrow> int \<Rightarrow> int \<Rightarrow> int \<Rightarrow> db \<Rightarrow> ((db_error + unit) \<times> db) option" where
  "runCleanupWith fuel E clock retentionDays batchSize d =
     cleanup_loop fuel E (clock + wrap64 (wrap64 (- retentionDays * 24) * (3600 * second))) batchSize d"

section \<open>The invariant\<close>

lemma filter_props:
  "sorted_wrt (<) (map (k :: 'r \<Rightarrow> int) rs) \<Longrightarrow> sorted_wrt (<) (map k (filter P rs))"
  "distinct (map f rs) \<Longrightarrow> distinct (map f (filter P rs))"
  by (induction rs) auto

lemma candidate_ids:
  assumes "i \<in> set (map wa_id (select_sorted wa_id (eligible cutoff d) n (addresses d)))"
  shows "\<exists>a \<in> set (addresses d). wa_id a = i \<and> eligible cutoff d a"
  using assms by (auto simp: select_sorted_def dest!: in_set_takeD)

lemma good_cleanup [good_rules]: "good (sql_cleanup cutoff n now)"
proof (rule goodI)
  fix d
  assume d: "db_ok d"
  define ids where "ids = set (map wa_id (select_sorted wa_id (eligible cutoff d) n (addresses d)))"
  let ?d' = "d\<lparr>addresses := filter (\<lambda>a. wa_id a \<notin> ids) (addresses d),
     checks := filter (\<lambda>c. bc_address_id c \<notin> ids) (checks d)\<rparr>"
  have eq: "snd (sql_cleanup cutoff n now d) = ?d'" by (simp add: sql_cleanup_def ids_def Let_def)
  have free: "pf_address_id f \<notin> ids" if "f \<in> set (findings d)" for f
    using that candidate_ids unfolding ids_def by (fastforce simp: eligible_def list_ex_iff)
  have free': "rq_address_id q \<notin> ids" if "q \<in> set (retries d)" for q
    using that candidate_ids unfolding ids_def by (fastforce simp: eligible_def list_ex_iff)
  have aids: "address_ids ?d' = address_ids d - ids" by (auto simp: address_ids_def)
  have "addresses_ok ?d'"
    using d by (simp add: db_ok_def addresses_ok_def filter_props)
  moreover have "checks_ok ?d'"
    using d aids by (auto simp: db_ok_def checks_ok_def filter_props)
  moreover have "findings_ok ?d'"
    using d aids free by (simp add: db_ok_def findings_ok_def)
  moreover have "retries_ok ?d'"
    using d aids free' by (simp add: db_ok_def retries_ok_def)
  moreover have "runs_ok ?d'" "incidents_ok ?d'" "events_ok ?d'"
    using d by (simp_all add: db_ok_def runs_ok_def incidents_ok_def events_ok_def)
  ultimately show "db_ok (snd (sql_cleanup cutoff n now d)) \<and> seq_le d (snd (sql_cleanup cutoff n now d))"
    unfolding eq by (simp add: db_ok_def seq_le_def)
qed

lemma good_Cleaner_Run [good_rules]: "good (Cleaner_Run E cutoff n)"
  unfolding Cleaner_Run_def by (intro good_rules)

section \<open>What the clean-up removes\<close>

text \<open>
  \<open>cleaned d d'\<close>: from \<open>d\<close> to \<open>d'\<close> only eligible addresses went, with their startup
  checks, and nothing else changed.
\<close>

definition cleaned :: "int \<Rightarrow> db \<Rightarrow> db \<Rightarrow> bool" where
  "cleaned cutoff d d' \<longleftrightarrow>
     runs d' = runs d \<and> findings d' = findings d \<and> retries d' = retries d \<and>
     incidents d' = incidents d \<and> events d' = events d \<and>
     (\<exists>P. addresses d' = filter P (addresses d) \<and>
        (\<forall>a \<in> set (addresses d). \<not> P a \<longrightarrow> eligible cutoff d a)) \<and>
     (\<exists>Q. checks d' = filter Q (checks d) \<and>
        (\<forall>c \<in> set (checks d). \<not> Q c \<longrightarrow> bc_address_id c \<notin> address_ids d'))"

lemma cleaned_refl: "runs d' = runs d \<Longrightarrow> tables d' = tables d \<Longrightarrow> cleaned cutoff d d'"
  unfolding cleaned_def tables_eq_iff
  by (intro conjI exI [of _ "\<lambda>_. True"]) auto

lemma eligible_cong: "runs d' = runs d \<Longrightarrow> findings d' = findings d \<Longrightarrow> retries d' = retries d \<Longrightarrow>
    eligible cutoff d' = eligible cutoff d"
  by (simp add: eligible_def [abs_def])

lemma cleaned_trans:
  assumes "cleaned cutoff a b" and "cleaned cutoff b c"
  shows "cleaned cutoff a c"
proof -
  have el: "eligible cutoff b = eligible cutoff a"
    using assms(1) by (intro eligible_cong) (simp_all add: cleaned_def)
  from assms(1) obtain P Q where 1: "addresses b = filter P (addresses a)"
      "\<forall>x \<in> set (addresses a). \<not> P x \<longrightarrow> eligible cutoff a x" "checks b = filter Q (checks a)"
      "\<forall>x \<in> set (checks a). \<not> Q x \<longrightarrow> bc_address_id x \<notin> address_ids b"
    by (auto simp: cleaned_def)
  from assms(2) obtain R S where 2: "addresses c = filter R (addresses b)"
      "\<forall>x \<in> set (addresses b). \<not> R x \<longrightarrow> eligible cutoff b x" "checks c = filter S (checks b)"
      "\<forall>x \<in> set (checks b). \<not> S x \<longrightarrow> bc_address_id x \<notin> address_ids c"
    by (auto simp: cleaned_def)
  have "addresses c = filter (\<lambda>x. P x \<and> R x) (addresses a)" using 1(1) 2(1) by simp
  moreover have "\<forall>x \<in> set (addresses a). \<not> (P x \<and> R x) \<longrightarrow> eligible cutoff a x"
    using 1(1,2) 2(2) el by auto
  moreover have "checks c = filter (\<lambda>x. Q x \<and> S x) (checks a)" using 1(3) 2(3) by simp
  moreover have "address_ids c \<subseteq> address_ids b" using 2(1) by (auto simp: address_ids_def)
  then have "\<forall>x \<in> set (checks a). \<not> (Q x \<and> S x) \<longrightarrow> bc_address_id x \<notin> address_ids c"
    using 1(3,4) 2(4) by auto
  ultimately show ?thesis
    using assms unfolding cleaned_def by (intro conjI exI) auto
qed

lemma sql_cleanup_cleaned: "cleaned cutoff d (snd (sql_cleanup cutoff n now d))"
proof -
  define ids where "ids = set (map wa_id (select_sorted wa_id (eligible cutoff d) n (addresses d)))"
  let ?d' = "d\<lparr>addresses := filter (\<lambda>a. wa_id a \<notin> ids) (addresses d),
     checks := filter (\<lambda>c. bc_address_id c \<notin> ids) (checks d)\<rparr>"
  have el: "eligible cutoff d a" if "wa_id a \<in> ids" for a
  proof -
    from that obtain b where "wa_id b = wa_id a" "eligible cutoff d b"
      using candidate_ids unfolding ids_def by blast
    then show ?thesis by (simp add: eligible_def)
  qed
  have "cleaned cutoff d ?d'"
    unfolding cleaned_def
    by (intro conjI exI [of _ "\<lambda>a. wa_id a \<notin> ids"] exI [of _ "\<lambda>c. bc_address_id c \<notin> ids"])
      (auto simp: el address_ids_def)
  then show ?thesis by (simp add: sql_cleanup_def ids_def Let_def)
qed

lemma cleaned_tick [simp]:
  "cleaned cutoff (d\<lparr>tick := n\<rparr>) d' = cleaned cutoff d d'"
  "cleaned cutoff d (d'\<lparr>tick := n\<rparr>) = cleaned cutoff d d'"
  by (simp_all add: cleaned_def eligible_def address_ids_def)

lemma keeps_cleaned: "keeps (cleaned cutoff d0) (Cleaner_Run E cutoff n)"
proof -
  have "keeps (cleaned cutoff d0) (sql_cleanup cutoff k now)" for k now
    by (rule keepsI) (rule cleaned_trans [OF _ sql_cleanup_cleaned])
  then show ?thesis
    unfolding Cleaner_Run_def by (intro keeps) simp_all
qed

lemma cleaned_self: "cleaned cutoff d d"
  by (rule cleaned_refl) simp_all

lemma loop_cleaned:
  "cleanup_loop fuel E cutoff n d = Some (r, d') \<Longrightarrow> cleaned cutoff d d' \<and> (db_ok d \<longrightarrow> db_ok d')"
proof (induction fuel arbitrary: d)
  case (Suc fuel)
  obtain r1 d1 where 1: "Cleaner_Run E cutoff n d = (r1, d1)" by fastforce
  have c: "cleaned cutoff d d1" by (rule keepsD_eq [OF keeps_cleaned cleaned_self 1])
  have ok: "db_ok d \<longrightarrow> db_ok d1" using goodD [OF good_Cleaner_Run, of d E cutoff n] 1 by simp
  show ?case
  proof (cases r1)
    case (Inl e)
    with Suc.prems 1 c ok show ?thesis by auto
  next
    case (Inr k)
    with Suc.prems 1 c ok Suc.IH [of d1] show ?thesis
      by (auto split: if_splits intro: cleaned_trans)
  qed
qed simp

section \<open>The loop ends\<close>

lemma Cleaner_Run_shrinks:
  assumes "Cleaner_Run E cutoff n d = (Inr k, d')" and "k \<noteq> 0"
  shows "length (addresses d') < length (addresses d)"
proof -
  from assms(1) obtain now d1 where "sql_cleanup cutoff (nat n) now (d\<lparr>tick := Suc (tick d)\<rparr>) = (Inr k, d1)"
      and "addresses d' = addresses d1"
    by (auto simp: Cleaner_Run_def fetch_Inr exec_Inr split: if_splits)
  then obtain ids where "k = length (filter (\<lambda>a. wa_id a \<in> ids) (addresses d))"
      and "addresses d' = filter (\<lambda>a. wa_id a \<notin> ids) (addresses d)"
    by (auto simp: sql_cleanup_def Let_def)
  then show ?thesis
    using assms(2) sum_length_filter_compl [of "\<lambda>a. wa_id a \<in> ids" "addresses d"]
    by (simp only:)
qed

lemma cleanup_loop_returns:
  "length (addresses d) < fuel \<Longrightarrow> \<exists>r d'. cleanup_loop fuel E cutoff n d = Some (r, d')"
proof (induction fuel arbitrary: d)
  case (Suc fuel)
  obtain r1 d1 where 1: "Cleaner_Run E cutoff n d = (r1, d1)" by fastforce
  show ?case
  proof (cases r1)
    case (Inr k)
    with 1 Suc.IH [of d1] Suc.prems Cleaner_Run_shrinks [of E cutoff n d k d1] show ?thesis
      by (cases "k = 0") auto
  qed (simp add: 1)
qed simp

text \<open>When a batch removes nothing there is nothing left to remove.\<close>

lemma Cleaner_Run_zero:
  assumes "Cleaner_Run E cutoff n d = (Inr 0, d')"
  shows "\<forall>a \<in> set (addresses d'). \<not> eligible cutoff d' a"
proof -
  from assms have n: "1 \<le> n" by (auto simp: Cleaner_Run_def split: if_splits)
  define d0 where "d0 = d\<lparr>tick := Suc (tick d)\<rparr>"
  define rs where "rs = filter (eligible cutoff d0) (addresses d0)"
  from assms obtain now d1 where 1: "sql_cleanup cutoff (nat n) now d0 = (Inr 0, d1)"
      and d': "d' = d1\<lparr>tick := Suc (tick d1)\<rparr>"
    by (auto simp: Cleaner_Run_def fetch_Inr exec_Inr d0_def split: if_splits)
  let ?sel = "select_sorted wa_id (eligible cutoff d0) (nat n) (addresses d0)"
  from 1 have "length (filter (\<lambda>a. wa_id a \<in> set (map wa_id ?sel)) (addresses d0)) = 0"
      and d1: "d1 = d0\<lparr>addresses := filter (\<lambda>a. wa_id a \<notin> set (map wa_id ?sel)) (addresses d0),
        checks := filter (\<lambda>c. bc_address_id c \<notin> set (map wa_id ?sel)) (checks d0)\<rparr>"
    by (auto simp: sql_cleanup_def Let_def)
  then have none: "\<forall>a \<in> set (addresses d0). wa_id a \<notin> set (map wa_id ?sel)"
    by (simp add: filter_empty_conv)
  have "?sel = []"
  proof (rule ccontr)
    assume "?sel \<noteq> []"
    then obtain a where a: "a \<in> set ?sel" by (meson last_in_set)
    then have "a \<in> set (addresses d0)" by (auto simp: select_sorted_def dest: in_set_takeD)
    with none a show False by auto
  qed
  then have "length (sort_key wa_id rs) = 0" using n by (auto simp: select_sorted_def rs_def)
  then have "rs = []" by simp
  moreover have "eligible cutoff d' = eligible cutoff d0"
    by (intro eligible_cong) (simp_all add: d' d1)
  moreover have "set (addresses d') \<subseteq> set (addresses d0)" by (auto simp: d' d1)
  ultimately show ?thesis by (auto simp: rs_def filter_empty_conv)
qed

lemma loop_complete:
  "cleanup_loop fuel E cutoff n d = Some (Inr (), d') \<Longrightarrow> \<forall>a \<in> set (addresses d'). \<not> eligible cutoff d' a"
proof (induction fuel arbitrary: d)
  case (Suc fuel)
  obtain r1 d1 where 1: "Cleaner_Run E cutoff n d = (r1, d1)" by fastforce
  with Suc.prems obtain k where k: "r1 = Inr k" by (cases r1) auto
  show ?case
  proof (cases "k = 0")
    case True
    with 1 k Suc.prems Cleaner_Run_zero [of E cutoff n d d1] show ?thesis by simp
  next
    case False
    with 1 k Suc show ?thesis by simp
  qed
qed simp

section \<open>Theorems\<close>


text \<open>An old completed run over one address without findings.\<close>

definition old_run :: run_row where
  "old_run = \<lparr>rr_run = \<lparr>run_id = 1, run_start = 1, run_end = 1, run_cursor = 1,
     run_status = ''completed'', run_processed = 1, run_empty = 1, run_positive = 0, run_errors = 0\<rparr>,
     rr_started = 0, rr_completed = Some 5\<rparr>"

definition old_db :: db where
  "old_db = wallet_db\<lparr>runs := [old_run]\<rparr>"

lemma old_db_ok: "db_ok old_db"
  by (simp add: db_ok_def table_ok_defs empty_db_def wallet_db_def sample_wallet_def old_db_def
      old_run_def run_ok_def address_types_def)


end
