(* ===== verification/Commands.thy ===== *)
theory Commands
  imports Scan_Retry Config Startup Generate_Cmd Cleanup
begin

text \<open>
  \<^verbatim>\<open>cmd/wallet-scan/main.go\<close>: how the commands put the components together. Opening the
  database, the migrations, files and the listener are parameters; the loop of
  \<^verbatim>\<open>retry-failed\<close> has fuel.
\<close>

section \<open>Building\<close>

datatype provider_desc = Btc_at string | Evm_at evm_provider | Sol_at string | Tron_at string

definition buildProviders :: "config \<Rightarrow> (string \<times> provider_desc) list" where
  "buildProviders c =
     (let p = cf_provider c in
      [(''btc'', Btc_at (pc_btc_url p)),
       (''ethereum'', Evm_at \<lparr>evm_url = pc_eth_url p, evm_chain = ''ethereum'', evm_symbol = ''ETH''\<rparr>),
       (''arbitrum'', Evm_at \<lparr>evm_url = pc_arb_url p, evm_chain = ''arbitrum'', evm_symbol = ''ETH''\<rparr>),
       (''bsc'', Evm_at \<lparr>evm_url = pc_bsc_url p, evm_chain = ''bsc'', evm_symbol = ''BNB''\<rparr>),
       (''solana'', Sol_at (pc_sol_url p)), (''tron'', Tron_at (pc_tron_url p))])"

text \<open>
  The scanner with its health tracker, and the outbox: the webhook client of the environment
  with the configured URL. \<open>ctx\<close> is the text of \<^verbatim>\<open>ctx.Err()\<close>.
\<close>

definition buildScanner :: "config \<Rightarrow> string \<Rightarrow> wecom \<Rightarrow> (scanner \<times> health) \<times> wecom" where
  "buildScanner c ctx w =
     (let p = cf_provider c;
          limits = [''btc'' \<mapsto> pc_btc p, ''ethereum'' \<mapsto> pc_eth p, ''arbitrum'' \<mapsto> pc_arb p,
                    ''bsc'' \<mapsto> pc_bsc p, ''solana'' \<mapsto> pc_sol p, ''tron'' \<mapsto> pc_tron p]
      in (new_scanner
            \<lparr>sc_batch = nat (cf_batch c), sc_workers = cf_workers c, sc_max_retries = cf_retries c,
             sc_base_delay = cf_base_delay c, sc_threshold = cf_threshold c\<rparr>
            (map fst (buildProviders c)) limits ctx,
          w\<lparr>wx_url := cf_webhook c\<rparr>))"

section \<open>Commands on the database\<close>

datatype command_error =
    Ce_text string
  | Ce_db db_error
  | Ce_import import_error
  | Ce_scan scan_error

text \<open>
  \<^verbatim>\<open>import\<close>: \<open>path\<close> is the value of \<^verbatim>\<open>--file\<close>, and \<open>opened\<close> the error of opening it or
  the records the CSV reader gives.
\<close>

definition importCSV ::
  "env \<Rightarrow> (string \<Rightarrow> string) \<Rightarrow> string \<Rightarrow> string + csv_read list \<Rightarrow> uuid \<Rightarrow> db \<Rightarrow>
   (command_error + nat) \<times> db" where
  "importCSV E ul path opened batch d =
     (if path = [] then (Inl (Ce_text ''import requires --file''), d)
      else
        (case opened of
           Inl e \<Rightarrow> (Inl (Ce_text (''open import file: '' @ e)), d)
         | Inr reads \<Rightarrow>
             (case ParseCSV ul reads of
                Inl e \<Rightarrow> (Inl (Ce_import e), d)
              | Inr as \<Rightarrow>
                  (case InsertAddresses E batch as d of
                     (Inl e, d') \<Rightarrow> (Inl (Ce_db e), d')
                   | (Inr n, d') \<Rightarrow> (Inr n, d')))))"

definition printStatus :: "env \<Rightarrow> status dbp" where
  "printStatus E = ReadStatus E"

text \<open>A scan starts from the database with a new tracker.\<close>

definition scan_from :: "health \<Rightarrow> db \<Rightarrow> scan_state" where
  "scan_from h d = \<lparr>ss_db = d, ss_health = h, ss_round = 0, ss_done = [], ss_retried = []\<rparr>"

definition runScan ::
  "nat \<Rightarrow> scan_env \<Rightarrow> string \<Rightarrow> wecom \<Rightarrow> config \<Rightarrow> db \<Rightarrow> ((command_error + unit) \<times> scan_state) option" where
  "runScan n V ctx w c d =
     (case buildScanner c ctx w of
        ((s, h), outbox) \<Rightarrow>
          if cf_webhook c = [] then Some (Inl (Ce_text ''WECOM_WEBHOOK_URL is required for scan''), scan_from h d)
          else
            (case RunOnce n (V\<lparr>se_notifier := Some outbox\<rparr>) s (scan_from h d) of
               None \<Rightarrow> None
             | Some (Inl e, st) \<Rightarrow> Some (Inl (Ce_scan e), st)
             | Some (Inr u, st) \<Rightarrow> Some (Inr (), st)))"

text \<open>
  One round of \<^verbatim>\<open>retry-failed\<close>: \<open>Inr True\<close> to go on, \<open>Inr False\<close> when it is done. An
  error of \<^verbatim>\<open>Drain\<close> is logged only.
\<close>

definition retry_round ::
  "scan_env \<Rightarrow> scanner \<Rightarrow> wecom \<Rightarrow> nat \<Rightarrow> (scan_state, command_error, bool) prog" where
  "retry_round V s outbox batch =
      bindE (handleE (liftS (ReadStatus (se_db V))) (\<lambda>e. raise (Ce_scan e))) (\<lambda>before.
        if st_retries before = 0 then ret False
        else
          bindE (handleE (RetryFailed V s batch) (\<lambda>e. raise (Ce_scan e))) (\<lambda>_.
          bindE (modifyE (\<lambda>st. st\<lparr>ss_db := snd (Drain (se_db V) outbox batch (ss_db st))\<rparr>)) (\<lambda>_.
          bindE (handleE (liftS (ReadStatus (se_db V))) (\<lambda>e. raise (Ce_scan e))) (\<lambda>after.
            if st_retries after \<ge> st_retries before then
              bindE (handleE (liftS (NextRetries (se_db V) 1)) (\<lambda>e. raise (Ce_scan e))) (\<lambda>ready.
                if ready = [] then ret False else raise (Ce_text ''retry queue made no progress''))
            else ret True))))"

fun retry_rounds ::
  "nat \<Rightarrow> scan_env \<Rightarrow> scanner \<Rightarrow> wecom \<Rightarrow> nat \<Rightarrow> scan_state \<Rightarrow>
   ((command_error + unit) \<times> scan_state) option" where
  "retry_rounds 0 V s outbox batch st = None"
| "retry_rounds (Suc n) V s outbox batch st =
     (case retry_round V s outbox batch st of
        (Inl e, st') \<Rightarrow> Some (Inl e, st')
      | (Inr False, st') \<Rightarrow> Some (Inr (), st')
      | (Inr True, st') \<Rightarrow> retry_rounds n V s outbox batch st')"

definition retryFailed ::
  "nat \<Rightarrow> scan_env \<Rightarrow> string \<Rightarrow> wecom \<Rightarrow> config \<Rightarrow> db \<Rightarrow> ((command_error + unit) \<times> scan_state) option" where
  "retryFailed n V ctx w c d =
     (case buildScanner c ctx w of
        ((s, h), outbox) \<Rightarrow>
          if cf_webhook c = []
          then Some (Inl (Ce_text ''WECOM_WEBHOOK_URL is required for retry-failed''), scan_from h d)
          else retry_rounds n (V\<lparr>se_notifier := Some outbox\<rparr>) s outbox (nat (cf_batch c)) (scan_from h d))"

section \<open>The service\<close>

definition service_limiter :: "config \<Rightarrow> (nat \<Rightarrow> int) \<Rightarrow> limiter" where
  "service_limiter c clock =
     fold (\<lambda>p l. Register (snd p) (clock (Suc (fst p))) l)
       (enumerate 0 (map fst (buildProviders c)))
       (new_limiter
          \<lparr>cfg_initial = cf_initial c, cfg_max = cf_max_in_flight c, cfg_queue_wait = cf_queue_wait c,
           cfg_adjust_interval = cf_adjust_interval c, cfg_target_latency = cf_target_latency c\<rparr>
          (clock 0))"

definition balance_service_of :: "config \<Rightarrow> balance_service" where
  "balance_service_of c =
     \<lparr>sv_providers = map fst (buildProviders c), sv_limited = True, sv_key = cf_api_key c\<rparr>"

text \<open>
  \<^verbatim>\<open>run\<close>: the startup check, whose error is logged only, then the server. \<open>serve\<close> is what
  comes first: the error of the listener, or the end of the context.
\<close>

definition runService ::
  "env \<Rightarrow> int \<Rightarrow> startup_env \<Rightarrow> ('k, 'p) crypto \<Rightarrow> uuid \<Rightarrow> config \<Rightarrow>
   (balance_service \<Rightarrow> string option) \<Rightarrow> db \<Rightarrow> (string option \<times> db) option" where
  "runService E clock env cr batch c serve d =
     (let ps = map fst (buildProviders c);
          started = (if cf_startup_wallet c
                     then map_option snd (startup_RunOnce (startup_service_of E clock ps True) env cr batch d)
                     else Some d)
      in case started of None \<Rightarrow> None | Some d' \<Rightarrow> Some (serve (balance_service_of c), d'))"

section \<open>The command line\<close>

datatype command = Import | Scan | Status | Retry_failed | Export_hits | Cleanup | Run

definition command_of :: "string \<Rightarrow> command option" where
  "command_of s =
     (if s = ''import'' then Some Import else if s = ''scan'' then Some Scan
      else if s = ''status'' then Some Status else if s = ''retry-failed'' then Some Retry_failed
      else if s = ''export-hits'' then Some Export_hits else if s = ''cleanup'' then Some Cleanup
      else if s = ''run'' then Some Run else None)"

definition unknown_text :: "(string \<Rightarrow> string) \<Rightarrow> string \<Rightarrow> string" where
  "unknown_text quote s =
     ''unknown command '' @ quote s @
     ''; use generate, run, import, scan, status, retry-failed, export-hits, or cleanup''"

section \<open>What the configuration guarantees\<close>

lemma built_chains: "map fst (buildProviders c) = [''btc'', ''ethereum'', ''arbitrum'', ''bsc'', ''solana'', ''tron'']"
  by (simp add: buildProviders_def Let_def)

lemma built_scanner:
  assumes "buildScanner c ctx w = ((s, h), outbox)"
  shows "sc_workers (sn_config s) = cf_workers c" "sc_batch (sn_config s) = nat (cf_batch c)"
    "sn_providers s = map fst (buildProviders c)"
    "sn_limits s = (\<lambda>chain. map_option (\<lambda>size. if size < 1 then 1 else nat size)
       ([''btc'' \<mapsto> pc_btc (cf_provider c), ''ethereum'' \<mapsto> pc_eth (cf_provider c),
         ''arbitrum'' \<mapsto> pc_arb (cf_provider c), ''bsc'' \<mapsto> pc_bsc (cf_provider c),
         ''solana'' \<mapsto> pc_sol (cf_provider c), ''tron'' \<mapsto> pc_tron (cf_provider c)] chain))"
  using assms [symmetric] unfolding buildScanner_def new_scanner_def Let_def prod.inject
  by (elim conjE; simp only: scanner.simps scan_config.simps)+

lemma clamped_slots:
  "x \<noteq> None \<Longrightarrow> \<exists>k. map_option (\<lambda>size :: int. if size < 1 then 1 else nat size) x = Some k \<and> 1 \<le> k"
  by (cases x) auto

lemma upd_covers:
  "y \<in> set [a, b, c, d, e, f] \<Longrightarrow> [a \<mapsto> a1, b \<mapsto> a2, c \<mapsto> a3, d \<mapsto> a4, e \<mapsto> a5, f \<mapsto> a6] y \<noteq> None"
  by auto

lemma limits_cover:
  assumes "chain \<in> set (map fst (buildProviders c))"
  shows "[''btc'' \<mapsto> a1, ''ethereum'' \<mapsto> a2, ''arbitrum'' \<mapsto> a3, ''bsc'' \<mapsto> a4,
    ''solana'' \<mapsto> a5, ''tron'' \<mapsto> (a6 :: int)] chain \<noteq> None"
  using assms unfolding built_chains by (rule upd_covers)

lemma Register_keeps_limits:
  "lm_max (Register n t l) = lm_max l \<and> lm_global_limit (Register n t l) = lm_global_limit l \<and>
   lm_queue_wait (Register n t l) = lm_queue_wait l"
  using chain_of_props [of l n t] by (cases "chain_of l n t") (simp add: Register_def)

lemma fold_Register:
  "lim_inv l h \<Longrightarrow>
     (let l' = fold (\<lambda>p l. Register (snd p) (clock (Suc (fst p))) l) ps l
      in lim_inv l' h \<and> lm_max l' = lm_max l \<and> lm_global_limit l' = lm_global_limit l \<and>
         lm_queue_wait l' = lm_queue_wait l)"
  by (induction ps arbitrary: l) (simp_all add: Let_def Register_inv Register_keeps_limits)

text \<open>
  What an accepted configuration guarantees to the components built from it: between 1
  and 256 workers and batches of 1 to 10000 addresses, a semaphore of at least one slot for
  every chain that has a provider, and these are the chains of the domain; a limiter of the
  API with the configured limits, none of them replaced by a default, that accounts for no
  slot.
\<close>

theorem config_guarantees:
  assumes "Load quote getenv = Inr c" and "buildScanner c ctx w = ((s, h), outbox)"
  shows "1 \<le> sc_workers (sn_config s) \<and> sc_workers (sn_config s) \<le> 256 \<and>
    1 \<le> sc_batch (sn_config s) \<and> sc_batch (sn_config s) \<le> 10000 \<and>
    set (sn_providers s) = set all_chains \<and>
    (\<forall>chain \<in> set (sn_providers s). \<exists>k. sn_limits s chain = Some k \<and> 1 \<le> k) \<and>
    lim_inv (service_limiter c clock) {#} \<and>
    lm_max (service_limiter c clock) = cf_max_in_flight c \<and>
    lm_global_limit (service_limiter c clock) = cf_initial c \<and>
    lm_queue_wait (service_limiter c clock) = cf_queue_wait c"
proof -
  note ok = Load_ok [OF assms(1), unfolded config_ok_def]
  let ?cfg = "\<lparr>cfg_initial = cf_initial c, cfg_max = cf_max_in_flight c, cfg_queue_wait = cf_queue_wait c,
           cfg_adjust_interval = cf_adjust_interval c, cfg_target_latency = cf_target_latency c\<rparr>"
  have "lim_inv (new_limiter ?cfg (clock 0)) {#}" using ok by (intro new_limiter_inv) simp
  note inv = fold_Register [OF this, of clock "enumerate 0 (map fst (buildProviders c))", unfolded Let_def]
  have "lm_max (new_limiter ?cfg (clock 0)) = cf_max_in_flight c"
    "lm_global_limit (new_limiter ?cfg (clock 0)) = cf_initial c"
    "lm_queue_wait (new_limiter ?cfg (clock 0)) = cf_queue_wait c"
    using ok by (simp_all add: new_limiter_def Let_def)
  with inv have lim: "lim_inv (service_limiter c clock) {#}"
    "lm_max (service_limiter c clock) = cf_max_in_flight c"
    "lm_global_limit (service_limiter c clock) = cf_initial c"
    "lm_queue_wait (service_limiter c clock) = cf_queue_wait c"
    by (simp_all add: service_limiter_def)
  note s = built_scanner [OF assms(2)]
  have "\<exists>k. sn_limits s chain = Some k \<and> 1 \<le> k" if "chain \<in> set (sn_providers s)" for chain
    unfolding s(4) by (rule clamped_slots, rule limits_cover) (use that in \<open>simp only: s(3)\<close>)
  moreover have "set (sn_providers s) = set all_chains"
    unfolding s(3) built_chains all_chains_def chain_defs by (simp only: list.set)
  moreover have "1 \<le> sc_workers (sn_config s)" "sc_workers (sn_config s) \<le> 256"
    "1 \<le> sc_batch (sn_config s)" "sc_batch (sn_config s) \<le> 10000"
    unfolding s using ok by (simp_all add: Suc_le_eq nat_le_iff)
  ultimately show ?thesis using lim by blast
qed

lemma old_run_overflow:
  "case runCleanupWith 2 sample_env 5 106752 100 old_db of
     Some (r, d') \<Rightarrow> isl r = False \<and> addresses d' = [] | None \<Rightarrow> False"
  by code_simp

text \<open>
  C37: \<^verbatim>\<open>EMPTY_RETENTION_DAYS\<close> has no upper bound, and the retention is computed in
  nanoseconds. Up to 106751 days the cleanup uses the intended cutoff; with 106752 days the
  product wraps around, the cutoff lies in the future, and an address whose run was completed
  this very moment is deleted.
\<close>

theorem retention_overflow:
  "(\<forall>fuel E clock days n d. 1 \<le> days \<and> days \<le> 106751 \<longrightarrow>
      runCleanupWith fuel E clock days n d = cleanup_loop fuel E (clock - days * 24 * 3600 * second) n d) \<and>
   (\<exists>d'. runCleanupWith 2 sample_env 5 106752 100 old_db = Some (Inr (), d') \<and>
      rr_completed old_run = Some 5 \<and> addresses old_db = [sample_wallet] \<and> addresses d' = [])"
proof (intro conjI allI impI)
  fix fuel E clock days n d
  assume days: "1 \<le> days \<and> (days :: int) \<le> 106751"
  then have "wrap64 (- days * 24) = - days * 24"
    by (intro wrap64_id) (simp_all add: min_int64_def max_int64_def)
  moreover have "wrap64 (- days * 24 * (3600 * second)) = - days * 24 * (3600 * second)"
    using days by (intro wrap64_id) (simp_all add: min_int64_def max_int64_def second_def)
  ultimately show "runCleanupWith fuel E clock days n d = cleanup_loop fuel E (clock - days * 24 * 3600 * second) n d"
    by (simp add: runCleanupWith_def algebra_simps)
next
  obtain r d' where r: "runCleanupWith 2 sample_env 5 106752 100 old_db = Some (r, d')"
    and d': "addresses d' = []" and "isl r = False"
    using old_run_overflow by (cases "runCleanupWith 2 sample_env 5 106752 100 old_db") auto
  then have "r = Inr ()" by (cases r) auto
  with r d' show "\<exists>d'. runCleanupWith 2 sample_env 5 106752 100 old_db = Some (Inr (), d') \<and>
      rr_completed old_run = Some 5 \<and> addresses old_db = [sample_wallet] \<and> addresses d' = []"
    by (simp add: old_run_def old_db_def wallet_db_def)
qed

section \<open>The import command\<close>

lemma dedup_input_keys:
  assumes "parse_all ul line rs = Inr ins"
  shows "input_key ` set (dedup_by seen_key ins) = input_key ` set ins"
proof (intro equalityI image_subsetI)
  fix a
  assume "a \<in> set (dedup_by seen_key ins)"
  then show "input_key a \<in> input_key ` set ins" using dedup_by_subset [of seen_key ins] by blast
next
  fix a
  assume a: "a \<in> set ins"
  then have "seen_key a \<in> seen_key ` set (dedup_by seen_key ins)" by (simp add: dedup_by_keys)
  then obtain b where b: "b \<in> set (dedup_by seen_key ins)" "seen_key a = seen_key b" by blast
  then have "b \<in> set ins" using dedup_by_subset [of seen_key ins] by blast
  with a have "ai_type a \<in> set address_types" "ai_type b \<in> set address_types"
    using parse_all_valid [OF assms] normalize_type by blast+
  with b(2) have "input_key a = input_key b" by (simp add: seen_key_inj input_key_def)
  with b(1) show "input_key a \<in> input_key ` set (dedup_by seen_key ins)" by simp
qed

lemma good_importCSV: "good (importCSV E ul path opened batch)"
proof (rule goodI)
  fix d
  assume d: "db_ok d"
  have "snd (importCSV E ul path opened batch d) = d \<or>
      (\<exists>as. snd (importCSV E ul path opened batch d) = snd (InsertAddresses E batch as d))"
    by (auto simp: importCSV_def split: sum.split prod.split) (metis snd_conv)+
  then show "db_ok (snd (importCSV E ul path opened batch d)) \<and> seq_le d (snd (importCSV E ul path opened batch d))"
    using d good_address_ops(1) [of E batch] by (auto simp: good_def)
qed

text \<open>
  An import that reports success has read a file with an accepted header and only valid
  rows, and afterwards the table has exactly the old identities and those of the file's rows;
  the number reported is that of the identities that are new, and no other table changed.
\<close>

theorem import_command:
  assumes "db_ok d" and "importCSV E ul path opened batch d = (Inr n, d')"
  shows "\<exists>header rs ins. opened = Inr (Inr header # rs) \<and> header_ok header \<and> parse_all ul 1 rs = Inr ins \<and>
    db_ok d' \<and> same_rest d d' \<and> keys_of d' = keys_of d \<union> input_key ` set ins \<and>
    n = card (input_key ` set ins - keys_of d)"
proof -
  from assms(2) obtain reads as where reads: "opened = Inr reads" "ParseCSV ul reads = Inr as"
    and ins: "InsertAddresses E batch as d = (Inr n, d')"
    by (auto simp: importCSV_def split: if_splits sum.splits prod.splits)
  from reads(2) obtain header rs where h: "reads = Inr header # rs" "header_ok header"
    and rows: "parse_rows ul 1 {} [] rs = Inr as"
    by (auto simp: ParseCSV_def split: list.splits sum.splits if_splits)
  from rows obtain xs where xs: "parse_all ul 1 rs = Inr xs" "as = dedup_by seen_key xs"
    by (cases "parse_all ul 1 rs") (simp_all add: parse_rows_reference)
  from ins obtain ids where "insertAddressesWithIDs E batch as d = (Inr (ids, n), d')"
    by (auto simp: InsertAddresses_def bindE_eq_Inr)
  note imp = insert_imported [OF this]
  have ok: "db_ok d'" using goodD [OF good_importCSV assms(1)] assms(2) by (metis snd_conv)
  from imported_keys [OF imp ok] dedup_input_keys [OF xs(1)] xs(2) reads h xs(1) ok imp
  show ?thesis by (auto simp: imported_def)
qed

section \<open>The loop of retry-failed\<close>

definition open_count :: "db \<Rightarrow> nat" where
  "open_count d = length (filter (\<lambda>r. rq_resolved r = None) (retries d))"

lemma at_tick_ReadStatus: "keeps (at_tick d0) (ReadStatus E)"
  unfolding ReadStatus_def
  by (intro keeps at_tick_ActiveScan keeps_read at_tick_step)
    (simp_all add: sql_count_addresses_def sql_count_findings_def sql_count_retries_def)

lemma ReadStatus_counts:
  assumes "ReadStatus E d = (Inr x, d')"
  shows "st_retries x = open_count d" and "retries d' = retries d"
proof -
  have "d = d\<lparr>tick := tick d\<rparr>" by simp
  then have "at_tick d d" unfolding at_tick_def by blast
  from keepsD_eq [OF at_tick_ReadStatus this assms] show "retries d' = retries d"
    by (auto simp: at_tick_def)
  show "st_retries x = open_count d"
    using assms
    by (auto simp: ReadStatus_def bindE_eq_Inr exec_Inr sql_count_addresses_def sql_count_findings_def
        sql_count_retries_def open_count_def)
qed

lemma retry_round_counts:
  assumes "retry_round V s w b st = (Inr True, st')"
  shows "open_count (ss_db st') < open_count (ss_db st)"
proof -
  from assms obtain x d1 d2 y where 1: "ReadStatus (se_db V) (ss_db st) = (Inr x, d1)"
    and 2: "ReadStatus (se_db V) d2 = (Inr y, ss_db st')" and lt: "st_retries y < st_retries x"
    by (fastforce simp: retry_round_def bindE_eq_Inr handleE_raise_Inr liftS_Inr split: if_splits)
  from ReadStatus_counts [OF 1] ReadStatus_counts [OF 2] lt show ?thesis
    by (simp add: open_count_def)
qed

lemma retry_rounds_returns:
  "open_count (ss_db st) < n \<Longrightarrow> retry_rounds n V s w b st \<noteq> None"
proof (induction n arbitrary: st)
  case (Suc n)
  obtain r st' where r: "retry_round V s w b st = (r, st')" by fastforce
  show ?case
  proof (cases "r = Inr True")
    case True
    from retry_round_counts [OF r [unfolded True]] Suc.prems have "open_count (ss_db st') < n" by simp
    with Suc.IH r True show ?thesis by simp
  next
    case False
    with r show ?thesis by (auto split: sum.split bool.split)
  qed
qed simp

text \<open>The programs keep the constraints of the schema.\<close>

lemma sane_retry_one [keeps]: "keeps sane (retry_one V s i)"
proof -
  have "keeps sane (solo_check V s i)"
    by (simp add: keeps_def sane_def solo_check_def Let_def split: option.split)
  then show ?thesis unfolding retry_one_def Let_def by (intro keeps good_rules)
qed

lemma sane_RetryFailed [keeps]: "keeps sane (RetryFailed V s n)"
  unfolding RetryFailed_def by (intro keeps good_rules)

lemma sane_drain: "keeps sane (modifyE (\<lambda>st. st\<lparr>ss_db := snd (Drain E w n (ss_db st))\<rparr>))"
  by (rule keeps_modifyE) (simp add: sane_def goodD [OF good_Drain])

lemma sane_retry_round: "keeps sane (retry_round V s w b)"
  unfolding retry_round_def by (intro keeps sane_drain good_rules)

lemma retry_rounds_sane:
  "sane st \<Longrightarrow> retry_rounds n V s w b st = Some (r, st') \<Longrightarrow> sane st'"
proof (induction n arbitrary: st)
  case (Suc n)
  obtain r1 st1 where r1: "retry_round V s w b st = (r1, st1)" by fastforce
  from keepsD_eq [OF sane_retry_round Suc.prems(1) r1] have "sane st1" .
  with Suc r1 show ?case by (auto split: sum.splits bool.splits)
qed simp

text \<open>When the loop is done, nothing is due.\<close>

definition none_due :: "int \<Rightarrow> db \<Rightarrow> bool" where
  "none_due now d \<longleftrightarrow> (\<forall>r \<in> set (retries d). \<not> retry_due now r)"

lemma retry_round_done:
  assumes "sane st" and "retry_round V s w b st = (Inr False, st')"
  shows "\<exists>k. none_due (ev_now (se_db V) k) (ss_db st')"
proof -
  from assms(2) consider (zero) x d1 where "ReadStatus (se_db V) (ss_db st) = (Inr x, d1)"
      "st_retries x = 0" "st' = st\<lparr>ss_db := d1\<rparr>"
    | (stuck) st4 where "liftS (NextRetries (se_db V) 1) st4 = (Inr [], st')" "sane st4"
  proof -
    assume z: "\<And>x d1. ReadStatus (se_db V) (ss_db st) = (Inr x, d1) \<Longrightarrow> st_retries x = 0 \<Longrightarrow>
        st' = st\<lparr>ss_db := d1\<rparr> \<Longrightarrow> thesis"
      and n: "\<And>st4. liftS (NextRetries (se_db V) 1) st4 = (Inr [], st') \<Longrightarrow> sane st4 \<Longrightarrow> thesis"
    from assms(2) obtain x st1 where x: "liftS (ReadStatus (se_db V)) st = (Inr x, st1)"
      by (auto simp: retry_round_def bindE_eq_Inr handleE_raise_Inr)
    show thesis
    proof (cases "st_retries x = 0")
      case True
      with assms(2) x z show thesis
        by (auto simp: retry_round_def bindE_def handleE_def liftS_Inr)
    next
      case False
      with assms(2) x obtain u st2 v st3 y st4 where
        a: "RetryFailed V s b st1 = (Inr u, st2)"
        "modifyE (\<lambda>st. st\<lparr>ss_db := snd (Drain (se_db V) w b (ss_db st))\<rparr>) st2 = (Inr v :: command_error + unit, st3)"
        "liftS (ReadStatus (se_db V)) st3 = (Inr y, st4)"
        and nx: "liftS (NextRetries (se_db V) 1) st4 = (Inr [], st')"
        by (auto simp: retry_round_def bindE_eq_Inr handleE_raise_Inr split: if_splits)
      have rs: "keeps sane (liftS (ReadStatus (se_db V)))" by (intro keeps good_rules)
      from keepsD_eq [OF rs assms(1) x] have "sane st1" .
      from keepsD_eq [OF sane_RetryFailed this a(1)] have "sane st2" .
      from keepsD_eq [OF sane_drain this a(2)] have "sane st3" .
      from keepsD_eq [OF rs this a(3)] have "sane st4" .
      with nx n show thesis by blast
    qed
  qed
  then show ?thesis
  proof cases
    case zero
    then have "\<forall>r \<in> set (retries (ss_db st')). rq_resolved r \<noteq> None"
      using ReadStatus_counts [OF zero(1)] by (simp add: open_count_def filter_empty_conv)
    then show ?thesis by (auto simp: none_due_def retry_due_def)
  next
    case stuck
    from stuck(1) obtain d5 where d5: "NextRetries (se_db V) 1 (ss_db st4) = (Inr [], d5)" "ss_db st' = d5"
      by (auto simp: liftS_Inr)
    note items = NextRetries_items [OF stuck(2) [unfolded sane_def] d5(1)]
    from items(2) have "filter (retry_due (ev_now (se_db V) (tick (ss_db st4)))) (retries (ss_db st4)) = []"
      by (simp add: take_Cons' split: if_splits)
    moreover have "retries d5 = retries (ss_db st4)" using items(1) by (simp add: tables_eq_iff)
    ultimately show ?thesis using d5(2) by (auto simp: none_due_def filter_empty_conv)
  qed
qed

lemma retry_rounds_done:
  "sane st \<Longrightarrow> retry_rounds n V s w b st = Some (Inr (), st') \<Longrightarrow>
     \<exists>k. none_due (ev_now (se_db V) k) (ss_db st')"
proof (induction n arbitrary: st)
  case (Suc n)
  obtain r1 st1 where r1: "retry_round V s w b st = (r1, st1)" by fastforce
  show ?case
  proof (cases r1)
    case (Inl e)
    with Suc.prems r1 show ?thesis by simp
  next
    case (Inr go)
    from keepsD_eq [OF sane_retry_round Suc.prems(1) r1] have "sane st1" .
    with Inr Suc r1 retry_round_done [OF Suc.prems(1)] show ?thesis by (cases go) auto
  qed
qed simp

text \<open>
  \<^verbatim>\<open>retry-failed\<close> returns: every round that goes on has closed a record of the queue, so
  more rounds than open records are never needed, whatever the providers and the database do.
\<close>

theorem retry_failed_terminates:
  assumes "open_count d < n"
  shows "retryFailed n V ctx w c d \<noteq> None"
  using retry_rounds_returns [of "scan_from h d" n for h] assms
  by (auto simp: retryFailed_def scan_from_def split: prod.split)


section \<open>Commands keep the schema\<close>

lemma runScan_ok:
  assumes "db_ok d" and "runScan n V ctx w c d = Some (r, st)"
  shows "db_ok (ss_db st)"
proof -
  have start: "ss_db (scan_from h d) = d" for h by (simp add: scan_from_def)
  have "db_ok (ss_db st')" if "RunOnce n W s (scan_from h d) = Some (x, st')" for W s h x st'
    using scan_keeps_db_ok [OF _ that] assms(1) start by simp
  with assms start show ?thesis
    by (auto simp: runScan_def split: prod.splits if_splits option.splits sum.splits)
qed

lemma retryFailed_ok:
  assumes "db_ok d" and "retryFailed n V ctx w c d = Some (r, st)"
  shows "db_ok (ss_db st)"
proof -
  have "sane (scan_from h d)" for h using assms(1) by (simp add: sane_def scan_from_def)
  then have "sane st"
    using assms(2) by (auto simp: retryFailed_def split: prod.splits if_splits intro: retry_rounds_sane)
  then show ?thesis by (simp add: sane_def)
qed

lemma cleanup_loop_ok: "db_ok d \<Longrightarrow> cleanup_loop fuel E cutoff n d = Some (r, d') \<Longrightarrow> db_ok d'"
proof (induction fuel arbitrary: d)
  case (Suc fuel)
  obtain r1 d1 where 1: "Cleaner_Run E cutoff n d = (r1, d1)" by fastforce
  with goodD [OF good_Cleaner_Run Suc.prems(1)] have "db_ok d1" by (metis snd_conv)
  with Suc 1 show ?case by (auto split: sum.splits if_splits)
qed simp

lemma save_checks_ok:
  "db_ok d \<Longrightarrow> db_ok (snd (save_checks (SaveWalletBalanceCheck E clock) cs err d))"
proof (induction cs arbitrary: err d)
  case (Cons c cs)
  obtain r d1 where 1: "SaveWalletBalanceCheck E clock c d = (r, d1)" by fastforce
  have "good (SaveWalletBalanceCheck E clock c)" by (intro good_rules)
  from goodD [OF this Cons.prems] 1 have "db_ok d1" by (metis snd_conv)
  with Cons.IH 1 show ?case by (auto split: sum.split)
qed simp

lemma startup_ok:
  assumes "db_ok d" and "startup_RunOnce (startup_service_of E clock ps limited) env cr batch d = Some (r, d')"
  shows "db_ok d'"
proof (cases "Generate cr defaultWordCount")
  case (Inl e)
  with assms show ?thesis by (simp add: startup_RunOnce_def)
next
  case (Inr w)
  let ?ins = "startup_inputs (wl_addresses w)"
  obtain y d1 where i: "InsertAddressesWithIDs E batch ?ins d = (y, d1)" by fastforce
  have "db_ok d1" using goodD [OF good_address_ops(2) assms(1)] i by (metis snd_conv)
  with assms(2) Inr i show ?thesis
    using save_checks_ok [of d1 E clock _ None]
    by (auto simp: startup_RunOnce_def startup_service_of_def db_store_def Let_def
        split: sum.splits prod.splits option.splits if_splits) (metis snd_conv)+
qed

lemma runService_ok:
  "db_ok d \<Longrightarrow> runService E clock env cr batch c serve d = Some (r, d') \<Longrightarrow> db_ok d'"
  using startup_ok by (fastforce simp: runService_def Let_def split: option.splits if_splits)

section \<open>Witnesses\<close>

definition sample_getenv :: "string \<Rightarrow> string" where
  "sample_getenv name =
     (if name = ''DATABASE_URL'' then ''postgres'' else if name = ''WECOM_WEBHOOK_URL'' then ''http://h'' else [])"

definition sample_config :: config where
  "sample_config = read_config sample_getenv True"

lemma sample_config_ok: "config_ok sample_config"
  by code_simp

lemma sample_loads: "Load quote sample_getenv = Inr sample_config"
  unfolding sample_config_def
  by (rule Load_accepts) (simp add: envBool_def sample_getenv_def, rule sample_config_ok [unfolded sample_config_def])

definition sample_wecom :: wecom where
  "sample_wecom = \<lparr>wx_url = [], wx_hook = (\<lambda>k m. \<lparr>hk_marshal = None, hk_build = None,
     hk_do = Hook_responded 200 (Inr (0, []))\<rparr>), wx_clock = (\<lambda>k. [])\<rparr>"

definition sample_scanner :: scanner where
  "sample_scanner =
     fst (new_scanner \<lparr>sc_batch = 100, sc_workers = 8, sc_max_retries = 3, sc_base_delay = 2 * second, sc_threshold = 5\<rparr>
       [''btc'', ''ethereum'', ''arbitrum'', ''bsc'', ''solana'', ''tron'']
       [''btc'' \<mapsto> 2, ''ethereum'' \<mapsto> 4, ''arbitrum'' \<mapsto> 4, ''bsc'' \<mapsto> 4, ''solana'' \<mapsto> 2, ''tron'' \<mapsto> 2] [])"

lemma sample_ints: "name \<notin> {''DATABASE_URL'', ''WECOM_WEBHOOK_URL''} \<Longrightarrow> envInt sample_getenv name k = k"
  by (simp add: envInt_def sample_getenv_def)

lemma sample_built: "buildScanner sample_config [] sample_wecom =
  ((sample_scanner, NewHealthTracker 5), sample_wecom\<lparr>wx_url := ''http://h''\<rparr>)"
proof -
  have c: "cf_provider sample_config = read_provider_config sample_getenv" "cf_webhook sample_config = ''http://h''"
    "cf_batch sample_config = 100" "cf_workers sample_config = 8" "cf_retries sample_config = 3"
    "cf_base_delay sample_config = 2 * second" "cf_threshold sample_config = 5"
    unfolding sample_config_def read_config_def config.simps by (simp_all add: sample_ints) (code_simp)+
  have p: "pc_btc (read_provider_config sample_getenv) = 2" "pc_eth (read_provider_config sample_getenv) = 4"
     "pc_arb (read_provider_config sample_getenv) = 4" "pc_bsc (read_provider_config sample_getenv) = 4"
     "pc_sol (read_provider_config sample_getenv) = 2" "pc_tron (read_provider_config sample_getenv) = 2"
    unfolding read_provider_config_def provider_config.simps by (simp_all add: sample_ints)
  show ?thesis
    unfolding buildScanner_def Let_def built_chains sample_scanner_def new_scanner_def c p by simp
qed

theorem config_guarantees_witness:
  "\<exists>s h outbox. buildScanner sample_config [] sample_wecom = ((s, h), outbox) \<and>
     1 \<le> sc_workers (sn_config s) \<and> lim_inv (service_limiter sample_config int) {#}"
proof -
  obtain s h outbox where b: "buildScanner sample_config [] sample_wecom = ((s, h), outbox)"
    by (metis prod.collapse)
  from config_guarantees [OF sample_loads [of id] b, of int] b show ?thesis by blast
qed

theorem retention_overflow_witness:
  "runCleanupWith 2 sample_env 5 7 100 old_db =
     cleanup_loop 2 sample_env (5 - 7 * 24 * 3600 * second) 100 old_db"
  using retention_overflow by auto

theorem import_command_witness:
  "\<exists>n d'. importCSV sample_env id ''f'' (Inr [Inr [''address_type'', ''address''], Inr [''sol'', sample_sol],
       Inr [''sol'', sample_sol, ''again'']]) 7 empty_db = (Inr n, d') \<and>
     keys_of d' \<noteq> {}"
proof -
  let ?f = "Inr [Inr [''address_type'', ''address''], Inr [''sol'', sample_sol], Inr [''sol'', sample_sol, ''again'']]
     :: string + csv_read list"
  let ?a = "\<lparr>ai_type = ''sol'', ai_address = sample_sol, ai_normalized = sample_sol, ai_label = []\<rparr>"
  have "\<forall>a \<in> set [?a]. ai_type a \<in> set address_types" by (simp add: address_types_def)
  then obtain ids n d' where "insertAddressesWithIDs sample_env 7 [?a] empty_db = (Inr (ids, n), d')"
    using insert_quiet [OF quiet_sample] by blast
  then have run: "importCSV sample_env id ''f'' ?f 7 empty_db = (Inr n, d')"
    by (simp add: importCSV_def sample_csv InsertAddresses_def bindE_def)
  from import_command [OF db_ok_empty run] obtain header rs ins where
    f: "?f = Inr (Inr header # rs)" "parse_all id 1 rs = Inr ins" "keys_of d' = keys_of empty_db \<union> input_key ` set ins"
    by blast
  then have "ins \<noteq> []" by (cases "parse_all id 1 rs") (auto simp: map_sum_def split: sum.splits)
  with f(3) run show ?thesis by auto
qed

definition due_db :: db where
  "due_db = snd (RecordRetry sample_env (sample_retry\<lparr>ri_next := 0\<rparr>) wallet_db)"

lemma due_db_ok: "db_ok due_db"
  unfolding due_db_def by (rule goodD [OF _ wallet_db_ok]) (rule good_retry_ops)

text \<open>The fields \<^verbatim>\<open>retry-failed\<close> reads, written out.\<close>

definition retry_config :: config where
  "retry_config =
     \<lparr>cf_database_url = ''d'', cf_bind = '':1'', cf_api_key = [], cf_startup_wallet = False,
      cf_max_in_flight = 1, cf_initial = 1, cf_queue_wait = 1, cf_adjust_interval = 1,
      cf_target_latency = 1, cf_webhook = ''h'', cf_mode = ''once'', cf_batch = 10, cf_retries = 2,
      cf_retention_days = 7, cf_timeout = 1, cf_workers = 1, cf_threshold = 3, cf_base_delay = 1,
      cf_provider = \<lparr>pc_btc_url = [], pc_eth_url = [], pc_arb_url = [], pc_bsc_url = [],
        pc_sol_url = [], pc_tron_url = [], pc_btc = 1, pc_eth = 1, pc_arb = 1, pc_bsc = 1,
        pc_sol = 1, pc_tron = 1\<rparr>\<rparr>"

text \<open>The provider of the due record answers 0.\<close>

definition calm_scan :: scan_env where
  "calm_scan = good_scan\<lparr>se_answers := (\<lambda>k. [A_flag True, A_reply (Inr (pool_balance 0)), A_go, A_go])\<rparr>"

lemma sample_retry_run:
  "case retryFailed 2 calm_scan [] sample_wecom retry_config due_db of
     Some (Inr u, st') \<Rightarrow> ss_retried st' \<noteq> [] | _ \<Rightarrow> False"
  by code_simp

theorem retry_failed_terminates_witness:
  "retryFailed 2 calm_scan [] sample_wecom retry_config due_db \<noteq> None"
proof -
  have "open_count due_db = 1" by code_simp
  then show ?thesis by (intro retry_failed_terminates) simp
qed


end
