(* ===== verification/Lifetime.thy ===== *)
theory Lifetime
  imports Commands
begin

text \<open>
  What the database keeps through all commands: the keys of the findings and of the retry queue
  never disappear, a new address gets an identifier that was never used, and the ranges of the
  runs stay below the sequence. On this rests that no address is ever skipped.
\<close>

section \<open>What never goes back\<close>

definition remembers :: "db \<Rightarrow> db \<Rightarrow> bool" where
  "remembers d0 d \<longleftrightarrow>
     finding_key ` set (findings d0) \<subseteq> finding_key ` set (findings d) \<and>
     retry_key ` set (retries d0) \<subseteq> retry_key ` set (retries d) \<and>
     (\<forall>a \<in> set (addresses d). a \<in> set (addresses d0) \<or> next_address d0 \<le> wa_id a) \<and>
     next_address d0 \<le> next_address d"

definition grows :: "db \<Rightarrow> db \<Rightarrow> bool" where
  "grows d0 d \<longleftrightarrow> remembers d0 d \<and>
     (\<forall>q \<in> set (runs d). \<exists>q0 \<in> set (runs d0). run_end (rr_run q) = run_end (rr_run q0))"

text \<open>A step that also leaves the runs alone.\<close>

definition still :: "db \<Rightarrow> db \<Rightarrow> bool" where
  "still d0 d \<longleftrightarrow> grows d0 d \<and> runs d = runs d0"

lemma grows_refl [simp]: "grows d d"
  unfolding grows_def remembers_def by blast

lemma grows_trans: "grows a b \<Longrightarrow> grows b c \<Longrightarrow> grows a c"
  unfolding grows_def remembers_def by (elim conjE, intro conjI) (blast, blast, fastforce, linarith, metis)

lemma still_refl [simp]: "still d d"
  by (simp add: still_def)

lemma still_trans: "still a b \<Longrightarrow> still b c \<Longrightarrow> still a c"
  by (auto simp: still_def intro: grows_trans)

lemma grows_tick: "grows d0 d \<Longrightarrow> grows d0 (d\<lparr>tick := n\<rparr>)" "still d0 d \<Longrightarrow> still d0 (d\<lparr>tick := n\<rparr>)"
  by (simp_all add: grows_def remembers_def still_def)

lemma grows_rollback: "grows d0 d \<Longrightarrow> grows d0 d1 \<Longrightarrow> grows d0 (rollback d d1)"
  by (simp add: grows_def remembers_def rollback_def)

lemma still_rollback: "still d0 d \<Longrightarrow> still d0 d1 \<Longrightarrow> still d0 (rollback d d1)"
  by (simp add: still_def grows_rollback) (simp add: rollback_def)

lemma keeps_still: "(\<And>d. still d (snd (p d))) \<Longrightarrow> keeps (still d0) p"
  by (auto intro!: keepsI intro: still_trans)

lemma keeps_grows: "(\<And>d. grows d (snd (p d))) \<Longrightarrow> keeps (grows d0) p"
  by (auto intro!: keepsI intro: grows_trans)

text \<open>A transaction keeps what its body keeps and what a rollback to a state before keeps.\<close>

lemma keeps_transact_rollback:
  assumes tick: "\<And>d n. I d \<Longrightarrow> I (d\<lparr>tick := n\<rparr>)" and undo: "\<And>d d1. I d \<Longrightarrow> I d1 \<Longrightarrow> I (rollback d d1)"
    and body: "\<And>now. keeps I (body now)"
  shows "keeps I (transact E mb mc body)"
proof (rule keepsI)
  fix d
  assume I: "I d"
  obtain r d1 where b: "body (ev_now E (tick d)) (d\<lparr>tick := Suc (tick d)\<rparr>) = (r, d1)" by fastforce
  from keepsD_eq [OF body tick [OF I] this] have "I d1" .
  with I b tick undo show "I (snd (transact E mb mc body d))"
    by (auto simp: transact_def Let_def split: fault.split sum.split)
qed

section \<open>Every statement\<close>

lemma still_reads [keeps]:
  "keeps (still d0) (sql_address_id a now)" "keeps (still d0) (sql_address_range now)"
  "keeps (still d0) (sql_last_end now)" "keeps (still d0) (sql_range_after k now)"
  "keeps (still d0) (sql_next_addresses run n now)" "keeps (still d0) (sql_active_scan now)"
  "keeps (still d0) (sql_event_type i now)" "keeps (still d0) (sql_node_event i now)"
  "keeps (still d0) (sql_positive_event i now)" "keeps (still d0) (sql_positives_of k now)"
  "keeps (still d0) (sql_pending n now)" "keeps (still d0) (sql_select_finding f now)"
  "keeps (still d0) (sql_export now)" "keeps (still d0) (sql_next_retries n now)"
  "keeps (still d0) (sql_count_addresses now)" "keeps (still d0) (sql_count_findings now)"
  "keeps (still d0) (sql_count_retries now)" "keeps (still d0) (skip_sql now)"
  by (rule keeps_still, simp add: sql_address_id_def sql_address_range_def sql_last_end_def
      sql_range_after_def sql_next_addresses_def sql_active_scan_def sql_event_type_def
      sql_node_event_def sql_positive_event_def sql_positives_of_def sql_pending_def
      sql_select_finding_def sql_export_def sql_next_retries_def sql_count_addresses_def
      sql_count_findings_def sql_count_retries_def skip_sql_def Let_def
      split: option.split list.split)+

lemma key_upsert:
  "key ` set rs \<subseteq> key ` set (upsert key f new rs)" if "\<And>r. key r = key new \<Longrightarrow> key (f r) = key r"
  using update_where_image [of "\<lambda>r. key r = key new" key f rs] that by (auto simp: upsert_def)

lemma still_insert_address [keeps]: "keeps (still d0) (sql_insert_address batch a now)"
  by (rule keeps_still) (auto simp: still_def grows_def remembers_def sql_insert_address_def Let_def)

lemma still_insert_event [keeps]: "keeps (still d0) (sql_insert_event f i ty now)"
  by (rule keeps_still) (auto simp: still_def grows_def remembers_def sql_insert_event_def Let_def)

lemma still_insert_incident [keeps]: "keeps (still d0) (sql_insert_incident c p e n now)"
  by (rule keeps_still) (auto simp: still_def grows_def remembers_def sql_insert_incident_def Let_def)

lemma still_mark [keeps]: "keeps (still d0) (sql_mark i st m now)"
  by (rule keeps_still) (auto simp: still_def grows_def remembers_def sql_mark_def)

lemma still_insert_finding [keeps]: "keeps (still d0) (sql_insert_finding E f now)"
  by (rule keeps_still) (auto simp: still_def grows_def remembers_def sql_insert_finding_def Let_def split: option.split)

lemma still_update_finding [keeps]: "keeps (still d0) (sql_update_finding E f now)"
proof (rule keeps_still)
  fix d :: db
  have "finding_key ` set (update_where (\<lambda>r. finding_key r = k) (\<lambda>r. r\<lparr>pf_balance := b, pf_symbol := y, pf_last_seen := now\<rparr>)
      (findings d)) = finding_key ` set (findings d)" for k b y
    by (rule update_where_image) (simp add: finding_key_def)
  then show "still d (snd (sql_update_finding E f now d))"
    by (auto simp: still_def grows_def remembers_def sql_update_finding_def split: option.split)
qed

lemma still_save_check [keeps]: "keeps (still d0) (sql_save_check E c now)"
  by (rule keeps_still) (auto simp: still_def grows_def remembers_def sql_save_check_def Let_def split: option.split)

lemma still_record_retry [keeps]: "keeps (still d0) (sql_record_retry x now)"
proof (rule keeps_still)
  fix d :: db
  have "retry_key ` set (retries d) \<subseteq>
      retry_key ` set (upsert retry_key (again_retry x) (new_retry x (next_retry d)) (retries d))"
    by (rule key_upsert) simp
  then show "still d (snd (sql_record_retry x now d))"
    by (simp add: still_def grows_def remembers_def sql_record_retry_def Let_def) blast
qed

lemma still_close_retry [keeps]: "keeps (still d0) (sql_close_retry a c now)"
proof (rule keeps_still)
  fix d :: db
  have "retry_key ` set (update_where (\<lambda>r. retry_key r = (a, c)) (\<lambda>r. r\<lparr>rq_resolved := Some now\<rparr>) (retries d)) =
      retry_key ` set (retries d)"
    by (rule update_where_image) (simp add: retry_key_def)
  then show "still d (snd (sql_close_retry a c now d))"
    by (simp add: still_def grows_def remembers_def sql_close_retry_def) blast
qed

lemma still_cleanup [keeps]: "keeps (still d0) (sql_cleanup cutoff n now)"
  by (rule keeps_still) (auto simp: still_def grows_def remembers_def sql_cleanup_def Let_def)

lemma grows_update_run:
  assumes "\<And>now r. run_end (rr_run (f now r)) = run_end (rr_run r)"
  shows "keeps (grows d0) (sql_update_run u st f now)"
proof (rule keeps_grows)
  fix d :: db
  have "\<exists>q0 \<in> set (runs d). run_end (rr_run q) = run_end (rr_run q0)"
    if "q \<in> set (update_where P (f now) (runs d))" for q P
    using that assms by (auto simp: set_update_where)
  then show "grows d (snd (sql_update_run u st f now d))"
    by (simp add: grows_def remembers_def sql_update_run_def Let_def) blast
qed


lemma keeps_grows_still: "(\<And>d0. keeps (still d0) p) \<Longrightarrow> keeps (grows d0) p"
proof (rule keeps_grows)
  fix d
  assume "\<And>d0. keeps (still d0) p"
  from keepsD [OF this still_refl] show "grows d (snd (p d))" by (simp add: still_def)
qed

section \<open>Every operation\<close>

lemmas still_rules = keeps_transact_rollback grows_tick still_rollback

lemma still_fetch [keeps]: "(\<And>now. keeps (still d0) (q now)) \<Longrightarrow> keeps (still d0) (fetch E w1 w2 q)"
  unfolding fetch_def by (intro keeps still_rules)

lemma still_address_ops [keeps]:
  "keeps (still d0) (insertAddressesWithIDs E batch as)" "keeps (still d0) (InsertAddresses E batch as)"
  "keeps (still d0) (InsertAddressesWithIDs E batch as)" "keeps (still d0) (UnscannedRange E)"
  "keeps (still d0) (NextAddresses E run n)" "keeps (still d0) (ActiveScan E)"
  unfolding insertAddressesWithIDs_def InsertAddresses_def InsertAddressesWithIDs_def UnscannedRange_def
    NextAddresses_def ActiveScan_def insert_one_def
  by (intro keeps still_rules; assumption)+

lemma still_event_ops [keeps]:
  "keeps (still d0) (CreateNodeIncident E c p e k)" "keeps (still d0) (CreateNodeNotificationEvent E i)"
  "keeps (still d0) (NotificationType E i)" "keeps (still d0) (LoadNodeNotification E i)"
  "keeps (still d0) (LoadNotification E i)" "keeps (still d0) (MarkNotification E i st m)"
  "keeps (still d0) (PendingNotificationIDs E n)"
  unfolding CreateNodeIncident_def CreateNodeNotificationEvent_def NotificationType_def
    LoadNodeNotification_def LoadNotification_def MarkNotification_def PendingNotificationIDs_def
  by (intro keeps still_rules; assumption)+

lemma still_finding_ops [keeps]:
  "keeps (still d0) (SavePositiveFindings E fs)" "keeps (still d0) (SaveWalletBalanceCheck E clock c)"
  "keeps (still d0) (ExportFindings E fmt)"
  unfolding SavePositiveFindings_def SaveWalletBalanceCheck_def ExportFindings_def save_one_def Let_def
  by (intro keeps still_rules; assumption)+

lemma still_retry_ops [keeps]:
  "keeps (still d0) (RecordRetry E x)" "keeps (still d0) (CloseRetry E a c)"
  "keeps (still d0) (NextRetries E n)" "keeps (still d0) (ReadStatus E)"
  unfolding RecordRetry_def CloseRetry_def NextRetries_def ReadStatus_def by (intro keeps still_rules; assumption)+

lemma still_Deliver [keeps]: "keeps (still d0) (Deliver E w i)"
  unfolding Deliver_def load_failed_def settle_def liftD_def by (intro keeps still_rules)

lemma still_drain_loop [keeps]: "keeps (still d0) (drain_loop E w ids e)"
  by (induction ids arbitrary: e) (auto intro!: keeps still_rules split: option.split simp: liftD_def)

lemma still_Drain [keeps]: "keeps (still d0) (Drain E w n)"
  unfolding Drain_def liftD_def by (intro keeps still_rules)

lemma still_Cleaner_Run [keeps]: "keeps (still d0) (Cleaner_Run E cutoff n)"
  unfolding Cleaner_Run_def by (intro keeps still_rules)

lemma still_save_checks: "still d0 d \<Longrightarrow> still d0 (snd (save_checks (SaveWalletBalanceCheck E clock) cs err d))"
proof (induction cs arbitrary: err d)
  case (Cons c cs)
  obtain r d1 where 1: "SaveWalletBalanceCheck E clock c d = (r, d1)" by fastforce
  have "still d0 d1" by (rule keepsD_eq [OF still_finding_ops(2) Cons.prems 1])
  with Cons.IH 1 show ?case by (auto split: sum.split)
qed simp

section \<open>The commands that do not scan\<close>

lemma still_startup:
  assumes "startup_RunOnce (startup_service_of E clock ps limited) env cr batch d = Some (r, d')"
  shows "still d d'"
proof (cases "Generate cr defaultWordCount")
  case (Inl e)
  with assms show ?thesis by (simp add: startup_RunOnce_def)
next
  case (Inr w)
  obtain y d1 where i: "InsertAddressesWithIDs E batch (startup_inputs (wl_addresses w)) d = (y, d1)" by fastforce
  have "still d d1" by (rule keepsD_eq [OF still_address_ops(3) still_refl i])
  with assms Inr i show ?thesis
    using still_save_checks [of d d1 E clock _ None]
    by (auto simp: startup_RunOnce_def startup_service_of_def db_store_def Let_def
        split: sum.splits prod.splits option.splits if_splits) (metis snd_conv)+
qed

lemma still_importCSV: "importCSV E ul path opened batch d = (r, d') \<Longrightarrow> still d d'"
  using keepsD_eq [OF still_address_ops(2) still_refl]
  by (auto simp: importCSV_def split: if_splits sum.splits prod.splits)

lemma still_runService: "runService E clock env cr batch c serve d = Some (r, d') \<Longrightarrow> still d d'"
  by (auto simp: runService_def Let_def split: option.splits if_splits dest!: still_startup)

lemma still_cleanup_loop: "cleanup_loop n E cutoff k d = Some (r, d') \<Longrightarrow> still d d'"
proof (induction n arbitrary: d)
  case (Suc n)
  obtain x d1 where 1: "Cleaner_Run E cutoff k d = (x, d1)" by fastforce
  have "still d d1" by (rule keepsD_eq [OF still_Cleaner_Run still_refl 1])
  with Suc 1 still_trans show ?case by (auto split: sum.splits if_splits)
qed simp

section \<open>The scanner\<close>

definition seen :: "(db \<Rightarrow> bool) \<Rightarrow> scan_state \<Rightarrow> bool" where
  "seen P st \<longleftrightarrow> P (ss_db st)"

lemma seen_liftS [keeps]: "keeps P p \<Longrightarrow> keeps (seen P) (liftS p)"
  by (simp add: keeps_def seen_def)

lemma seen_unread [keeps]: "keeps (seen P) (pool_batch V s as)" "keeps (seen P) (solo_check V s i)"
  by (simp_all add: keeps_def seen_def pool_batch_def solo_check_def Let_def split: option.split)

lemma still_notify [keeps]: "keeps (seen (still d0)) (notify V i)"
  unfolding notify_def by (intro keeps)

lemma still_store_results [keeps]: "keeps (seen (still d0)) (store_results V s rs t)"
  by (induction rs arbitrary: t)
    (auto simp: store_result_def store_failure_def store_alert_def record_retry_def save_findings_def intro!: keeps)

lemma still_retry_one [keeps]: "keeps (seen (still d0)) (retry_one V s i)"
  unfolding retry_one_def record_retry_def save_findings_def Let_def by (intro keeps)

lemma still_retry_round [keeps]: "keeps (seen (still d0)) (retry_round V s w b)"
proof -
  have "keeps (seen (still d0)) (modifyE (\<lambda>st. st\<lparr>ss_db := snd (Drain (se_db V) w b (ss_db st))\<rparr>))"
    by (rule keeps_modifyE) (simp add: seen_def keepsD [OF still_Drain])
  then show ?thesis unfolding retry_round_def RetryFailed_def by (intro keeps)
qed

lemma still_retry_rounds: "seen (still d0) st \<Longrightarrow> retry_rounds n V s w b st = Some (r, st') \<Longrightarrow> seen (still d0) st'"
proof (induction n arbitrary: st)
  case (Suc n)
  obtain x st1 where 1: "retry_round V s w b st = (x, st1)" by fastforce
  have "seen (still d0) st1" by (rule keepsD_eq [OF still_retry_round Suc.prems(1) 1])
  with Suc 1 show ?case by (auto split: sum.splits bool.splits)
qed simp

lemma still_retryFailed: "retryFailed n V ctx w c d = Some (r, st) \<Longrightarrow> still d (ss_db st)"
  using still_retry_rounds [of d "scan_from _ d"]
  by (auto simp: retryFailed_def seen_def scan_from_def split: prod.splits if_splits)

text \<open>A scan moves runs, and it creates one whose range ends at an address.\<close>

lemma grows_seen: "(\<And>d0. keeps (seen (still d0)) p) \<Longrightarrow> keeps (seen (grows d0)) p"
proof (rule keepsI)
  fix st
  assume p: "\<And>d0. keeps (seen (still d0)) p" and st: "seen (grows d0) st"
  have "seen (still (ss_db st)) (snd (p st))" by (rule keepsD [OF p]) (simp add: seen_def)
  with st show "seen (grows d0) (snd (p st))" by (auto simp: seen_def still_def intro: grows_trans)
qed

lemma grows_run_ops [keeps]:
  "keeps (grows d0) (AdvanceScan E u c p e s f)" "keeps (grows d0) (CompleteScan E u)"
  "keeps (grows d0) (PauseScan E u)" "keeps (grows d0) (ResumeScan E u)"
  unfolding AdvanceScan_def CompleteScan_def PauseScan_def ResumeScan_def
  by (intro keeps grows_update_run grows_tick; simp)+

lemma grows_run_round [keeps]: "keeps (seen (grows d0)) (run_round V s run)"
proof -
  have "keeps (grows d0) (NextAddresses (se_db V) run n)" for n
    by (rule keeps_grows_still) (rule keeps)
  moreover have "keeps (seen (grows d0)) (store_results V s rs t)" for rs t
    by (rule grows_seen) (rule keeps)
  ultimately show ?thesis unfolding run_round_def Let_def by (intro keeps)
qed

lemma grows_scan_loop: "seen (grows d0) st \<Longrightarrow> scan_loop n V s run st = Some (r, st') \<Longrightarrow> seen (grows d0) st'"
proof (induction n arbitrary: run st)
  case (Suc n)
  obtain x st1 where 1: "run_round V s run st = (x, st1)" by fastforce
  have "seen (grows d0) st1" by (rule keepsD_eq [OF grows_run_round Suc.prems(1) 1])
  with Suc 1 show ?case by (auto split: sum.splits option.splits)
qed simp

section \<open>Where runs end\<close>

definition ends_ok :: "db \<Rightarrow> bool" where
  "ends_ok d \<longleftrightarrow> (\<forall>q \<in> set (runs d). run_end (rr_run q) < next_address d)"

lemma grows_ends: "grows d0 d \<Longrightarrow> ends_ok d0 \<Longrightarrow> ends_ok d"
  by (fastforce simp: grows_def remembers_def ends_ok_def)

lemma grows_same_runs:
  assumes "addresses d' = addresses d" "findings d' = findings d" "retries d' = retries d"
    "next_address d' = next_address d"
  shows "remembers d d'"
  using assms by (simp add: remembers_def)

lemma range_below:
  assumes "UnscannedRange E d = (Inr (Some (lo, hi)), d')" and "db_ok d"
  shows "hi < next_address d"
proof -
  obtain ids where r: "to_range (sql_min ids, sql_max ids) = Some (lo, hi)"
    and ids: "ids = filter (\<lambda>i. i > last_end d) (map wa_id (addresses d))"
    using assms(1)
    by (auto simp: UnscannedRange_def bindE_eq_Inr exec_Inr sql_last_end_def sql_range_after_def Let_def
        last_end_def)
  then have "ids \<noteq> []" "hi = Max (set ids)"
    by (auto simp: to_range_def sql_max_Max sql_min_Min split: if_splits option.splits)
  then have "hi \<in> set ids" by simp
  with ids assms(2) show ?thesis by (auto simp: db_ok_def addresses_ok_def)
qed

lemma CreateScan_remembers:
  assumes "CreateScan E u lo hi d = (r, d')"
  shows "remembers d d'" and "ends_ok d \<Longrightarrow> hi < next_address d \<Longrightarrow> ends_ok d'"
proof -
  let ?run = "\<lparr>run_id = u, run_start = lo, run_end = hi, run_cursor = lo - 1, run_status = ''running'',
      run_processed = 0, run_empty = 0, run_positive = 0, run_errors = 0\<rparr>"
  have "d' = snd (exec E (sql_insert_run ?run) d)"
    using assms by (auto simp: CreateScan_def Let_def bindE_def wrapD_def handleE_def split: sum.splits prod.splits)
  with snd_exec [of E "sql_insert_run ?run" d]
  have d': "d' = snd (sql_insert_run ?run (ev_now E (tick d)) (d\<lparr>tick := Suc (tick d)\<rparr>)) \<or> d' = d\<lparr>tick := Suc (tick d)\<rparr>"
    by simp
  then show "remembers d d'" by (auto simp: remembers_def sql_insert_run_def split: if_splits)
  from d' show "ends_ok d \<Longrightarrow> hi < next_address d \<Longrightarrow> ends_ok d'"
    by (auto simp: ends_ok_def sql_insert_run_def split: if_splits)
qed

lemma choose_run_remembers:
  assumes db: "db_ok (ss_db st)" and ends: "ends_ok (ss_db st)" and run: "choose_run V st = (res, st1)"
  shows "remembers (ss_db st) (ss_db st1) \<and> ends_ok (ss_db st1)"
  using run
proof (cases rule: choose_run_cases)
  case (create lo hi n m r d1)
  have "hi < next_address (ss_db st)"
    using range_below [OF create(1)] db by simp
  then show ?thesis
    using CreateScan_remembers [OF create(2)] ends create(4) by (simp add: ends_ok_def remembers_def)
next
  case (resume run n r d1)
  have "grows (ss_db st) d1"
    by (rule keepsD_eq [OF grows_run_ops(4) _ resume(3)]) (simp add: grows_tick)
  with grows_ends ends resume(5) show ?thesis by (auto simp: grows_def)
qed (use ends in \<open>simp_all add: ends_ok_def remembers_def\<close>)

lemma remembers_trans: "remembers a b \<Longrightarrow> remembers b c \<Longrightarrow> remembers a c"
  unfolding remembers_def by (elim conjE, intro conjI) (blast, blast, fastforce, linarith)

lemma RunOnce_remembers:
  assumes db: "db_ok (ss_db st)" and ends: "ends_ok (ss_db st)" and run: "RunOnce n V s st = Some (res, st')"
  shows "remembers (ss_db st) (ss_db st') \<and> ends_ok (ss_db st')"
  using run
proof (cases rule: RunOnce_cases)
  case (no_run r)
  then show ?thesis using choose_run_remembers [OF db ends] by metis
next
  case (loop run st1)
  note 1 = choose_run_remembers [OF db ends loop(1)]
  have "grows (ss_db st1) (ss_db st')"
    using grows_scan_loop [OF _ loop(2), of "ss_db st1"] by (simp add: seen_def)
  with 1 grows_ends remembers_trans show ?thesis by (metis grows_def)
qed

section \<open>Every address on the way is accounted for\<close>

text \<open>How far a run has got; with batches of at least one address this is its reach.\<close>

definition progress :: "scan_run \<Rightarrow> int" where
  "progress r = (if run_status r = ''completed'' then run_end r else run_cursor r)"

lemma reach_progress: "1 \<le> sc_batch (sn_config s) \<Longrightarrow> reach s r = progress r"
  by (simp add: reach_def progress_def)

text \<open>
  An address is accounted for: a scan of the history has checked it, and the result, which the
  answers of the providers explain, is in the database: a finding for every positive balance and
  an entry of the retry queue for every chain without an answer.
\<close>

definition accounted :: "(scanner \<times> address_result) list \<Rightarrow> db \<Rightarrow> wallet_row \<Rightarrow> bool" where
  "accounted H d a \<longleftrightarrow>
     (\<exists>(s, r) \<in> set H. ar_address r = to_address a \<and> explained s r \<and>
        (\<forall>f \<in> set (ar_findings r). finding_at d (fi_key f) \<noteq> None) \<and>
        (\<forall>e \<in> set (ar_errors r). queued (wa_id a, sf_chain e) d))"

definition none_skipped :: "(scanner \<times> address_result) list \<Rightarrow> db \<Rightarrow> bool" where
  "none_skipped H d \<longleftrightarrow>
     (\<forall>q \<in> set (runs d). \<forall>a \<in> set (addresses d). wa_id a \<le> progress (rr_run q) \<longrightarrow> accounted H d a)"

lemma at_keys:
  "finding_at d k \<noteq> None \<longleftrightarrow> k \<in> finding_key ` set (findings d)"
  "queued k d \<longleftrightarrow> k \<in> retry_key ` set (retries d)"
  by (auto simp: finding_at_def queued_def retry_at_def row_of_None has_key_def list_ex_iff)

lemma accounted_mono: "accounted H d0 a \<Longrightarrow> remembers d0 d \<Longrightarrow> accounted (H @ H') d a"
proof -
  assume "accounted H d0 a" and r: "remembers d0 d"
  then obtain s r where "(s, r) \<in> set H" "ar_address r = to_address a" "explained s r"
    and "\<forall>f \<in> set (ar_findings r). fi_key f \<in> finding_key ` set (findings d0)"
    and "\<forall>e \<in> set (ar_errors r). (wa_id a, sf_chain e) \<in> retry_key ` set (retries d0)"
    unfolding accounted_def at_keys by blast
  moreover from r have "finding_key ` set (findings d0) \<subseteq> finding_key ` set (findings d)"
    and "retry_key ` set (retries d0) \<subseteq> retry_key ` set (retries d)"
    by (simp_all add: remembers_def)
  ultimately show ?thesis unfolding accounted_def at_keys by (intro bexI [of _ "(s, r)"]) auto
qed

lemma progress_below: "db_ok d \<Longrightarrow> ends_ok d \<Longrightarrow> q \<in> set (runs d) \<Longrightarrow> progress (rr_run q) < next_address d"
  by (fastforce simp: progress_def db_ok_def runs_ok_def run_ok_def ends_ok_def)

lemma still_none_skipped:
  assumes "db_ok d0" "ends_ok d0" "none_skipped H d0" "still d0 d"
  shows "ends_ok d \<and> none_skipped H d"
proof -
  have g: "grows d0 d" "remembers d0 d" and r: "runs d = runs d0"
    using assms(4) by (auto simp: still_def grows_def)
  have "accounted H d a" if "q \<in> set (runs d)" "a \<in> set (addresses d)" "wa_id a \<le> progress (rr_run q)" for q a
  proof -
    have "progress (rr_run q) < next_address d0" using progress_below assms(1,2) r that(1) by metis
    with that g(2) have "a \<in> set (addresses d0)" by (fastforce simp: remembers_def)
    with assms(3) that r have "accounted H d0 a" by (auto simp: none_skipped_def)
    from accounted_mono [OF this g(2), of "[]"] show ?thesis by simp
  qed
  with grows_ends [OF g(1) assms(2)] show ?thesis by (simp add: none_skipped_def)
qed

lemma recorded_accounted:
  assumes "r \<in> set rs" "ar_address r = to_address a" "explained s r" "recorded E rs d r"
  shows "accounted (H @ map (Pair s) rs) d a"
proof -
  have "ad_id (ar_address r) = wa_id a" using assms(2) by (simp add: to_address_def)
  with assms show ?thesis
    unfolding accounted_def by (intro bexI [of _ "(s, r)"]) (auto simp: recorded_def told_def)
qed

text \<open>What a scan finds done before: by the run itself, or by the completed ones.\<close>

lemma before_accounted:
  assumes "db_ok d" "none_skipped H d" "1 \<le> sc_batch (sn_config s)"
    and "a \<in> set (addresses d)" "wa_id a \<le> cursor_before s d u"
  shows "accounted H d a"
proof (cases "run_at d u")
  case (Some p)
  then have "p \<in> set (runs d)" by (auto simp: run_at_def dest: row_of_key)
  with assms Some show ?thesis by (auto simp: none_skipped_def cursor_before_def reach_progress)
next
  case None
  let ?ends = "map (run_end \<circ> rr_run) (filter (\<lambda>r. run_status (rr_run r) = ''completed'') (runs d))"
  have le: "wa_id a \<le> last_end d" using assms(5) None by (simp add: cursor_before_def)
  have "1 \<le> wa_id a" using assms(1,4) by (auto simp: db_ok_def addresses_ok_def)
  with le have "?ends \<noteq> []" by (auto simp: last_end_def sql_max_Max split: if_splits)
  then have "Max (set ?ends) \<in> set ?ends" "last_end d = Max (set ?ends)"
    by (auto simp: last_end_def sql_max_Max intro!: Max_in simp del: set_map)
  then obtain q where "q \<in> set (runs d)" "run_status (rr_run q) = ''completed''" "last_end d = run_end (rr_run q)"
    by auto
  with le assms(2,4) show ?thesis by (auto simp: none_skipped_def progress_def)
qed

lemma scan_none_skipped:
  assumes db: "db_ok (ss_db st)" and ends: "ends_ok (ss_db st)" and none: "none_skipped H (ss_db st)"
    and hist: "ss_done st = []" and v: "valid_schedules V" and batch: "1 \<le> sc_batch (sn_config s)"
    and run: "RunOnce n V s st = Some (res, st')"
  shows "none_skipped (H @ map (Pair s) (ss_done st')) (ss_db st')"
  unfolding none_skipped_def
proof (intro ballI impI)
  fix q a
  assume q: "q \<in> set (runs (ss_db st'))" and a: "a \<in> set (addresses (ss_db st'))"
    and le: "wa_id a \<le> progress (rr_run q)"
  let ?u = "run_id (rr_run q)"
  have "db_ok (ss_db st')" by (rule scan_keeps_db_ok [OF db run])
  then have q': "run_at (ss_db st') ?u = Some q"
    using q row_of_Some [of "run_id \<circ> rr_run" "runs (ss_db st')" ?u q]
    by (simp add: run_at_def db_ok_def runs_ok_def)
  have rem: "remembers (ss_db st) (ss_db st')" using RunOnce_remembers [OF db ends run] by simp
  show "accounted (H @ map (Pair s) (ss_done st')) (ss_db st') a"
  proof (cases "cursor_before s (ss_db st) ?u < wa_id a")
    case True
    from scan_covers [OF db hist v run q' a True] le batch
    show ?thesis using recorded_accounted by (auto simp: reach_progress)
  next
    case False
    moreover have "a \<in> set (addresses (ss_db st))" using scan_addresses [OF db hist v run] a by simp
    ultimately have "accounted H (ss_db st) a" using before_accounted [OF db none batch, of a "?u"] by simp
    from accounted_mono [OF this rem] show ?thesis .
  qed
qed

text \<open>The command \<^verbatim>\<open>scan\<close> of an accepted configuration, and the commands that do not scan.\<close>

lemma runScan_none_skipped:
  assumes "db_ok d" "ends_ok d" "none_skipped H d" and "Load quote getenv = Inr c"
    and "valid_schedules V" and b: "buildScanner c ctx w = ((s, h), outbox)"
    and run: "runScan n V ctx w c d = Some (r, st)"
  shows "ends_ok (ss_db st) \<and> none_skipped (H @ map (Pair s) (ss_done st)) (ss_db st)"
proof (cases "cf_webhook c = []")
  case True
  with run b assms(2,3) show ?thesis by (auto simp: runScan_def scan_from_def)
next
  case False
  let ?V = "V\<lparr>se_notifier := Some outbox\<rparr>"
  from run b False obtain x where "RunOnce n ?V s (scan_from h d) = Some (x, st)"
    by (auto simp: runScan_def split: option.splits sum.splits)
  moreover have "valid_schedules ?V" using assms(5) by (simp add: valid_schedules_def)
  moreover have "1 \<le> cf_batch c" using Load_ok [OF assms(4)] by (simp add: config_ok_def)
  then have "1 \<le> sc_batch (sn_config s)" unfolding built_scanner(2) [OF b] by linarith
  moreover have "ss_db (scan_from h d) = d" "ss_done (scan_from h d) = []" by (simp_all add: scan_from_def)
  ultimately show ?thesis
    using RunOnce_remembers scan_none_skipped assms(1-3) by metis
qed

lemma still_runCleanup: "runCleanupWith n E clock days limit d = Some (r, d') \<Longrightarrow> still d d'"
  by (auto simp: runCleanupWith_def intro: still_cleanup_loop)

lemma still_printStatus: "printStatus E d = (r, d') \<Longrightarrow> still d d'"
  unfolding printStatus_def by (rule keepsD_eq [OF still_retry_ops(4) still_refl])

lemma still_export: "ExportFindings E fmt d = (r, d') \<Longrightarrow> still d d'"
  by (rule keepsD_eq [OF still_finding_ops(3) still_refl])

lemmas still_commands = still_importCSV still_retryFailed still_runCleanup still_runService
  still_printStatus still_export

section \<open>A scan that moves a run\<close>

definition sol_db :: db where
  "sol_db = snd (InsertAddresses sample_env 7
     [\<lparr>ai_type = ''sol'', ai_address = sample_sol, ai_normalized = sample_sol, ai_label = []\<rparr>] empty_db)"

lemma sol_import:
  "importCSV sample_env id ''f'' (Inr [Inr [''address_type'', ''address''], Inr [''sol'', sample_sol],
     Inr [''sol'', sample_sol, ''again'']]) 7 empty_db = (Inr 1, sol_db)"
proof -
  let ?as = "[\<lparr>ai_type = ''sol'', ai_address = sample_sol, ai_normalized = sample_sol, ai_label = []\<rparr>]"
  have "fst (InsertAddresses sample_env 7 ?as empty_db) = Inr 1" by code_simp
  then have "InsertAddresses sample_env 7 ?as empty_db = (Inr 1, sol_db)"
    unfolding sol_db_def by (intro prod_eqI) simp_all
  then show ?thesis by (simp add: importCSV_def sample_csv)
qed

lemma sol_scan:
  "\<exists>st. runScan 2 good_scan [] sample_wecom sample_config sol_db = Some (Inr (), st) \<and>
     map (run_cursor \<circ> rr_run) (runs (ss_db st)) = [1] \<and> map wa_id (addresses (ss_db st)) = [1]"
proof -
  let ?hook = "sample_wecom\<lparr>wx_url := ''http://h''\<rparr>"
  have "case RunOnce 2 (good_scan\<lparr>se_notifier := Some ?hook\<rparr>) sample_scanner (scan_from (NewHealthTracker 5) sol_db) of
      None \<Rightarrow> False
    | Some (r, st) \<Rightarrow> r = Inr () \<and> map (run_cursor \<circ> rr_run) (runs (ss_db st)) = [1] \<and>
        map wa_id (addresses (ss_db st)) = [1]"
    by code_simp
  moreover have "cf_webhook sample_config \<noteq> []"
    by (simp add: sample_config_def read_config_def sample_getenv_def)
  ultimately show ?thesis
    by (auto simp: runScan_def sample_built split: option.splits sum.splits)
qed

end
