(* ===== verification/Schema.thy ===== *)
theory Schema
  imports Tables "HOL-Library.AList" "HOL-Library.Sublist"
begin

text \<open>
  \<^verbatim>\<open>migrations/001_initial.sql\<close> as data, what PostgreSQL does with its statements, and
  \<^verbatim>\<open>Migrate\<close>, which applies them in one transaction. A catalogue holds the tables with their
  columns, rules and rows; the rows of the model are read back as rows of the catalogue, so
  that the invariant \<open>db_ok\<close> can be compared with the constraints of the file.
\<close>

section \<open>Columns, rules and statements\<close>

datatype sql_value = Null | Num int | Txt string

type_synonym row = "(string \<times> sql_value) list"

datatype sql_type = Bigint | Integer | Textual | Uuid | Timestamptz | Numeric_78_0

datatype default_value = Serial | Now | Value sql_value

record column =
  co_name :: string
  co_type :: sql_type
  co_null :: bool
  co_default :: "default_value option"

text \<open>
  The rules of a table: keys, the values of a \<^verbatim>\<open>CHECK (c IN ...)\<close>, a reference with its
  \<^verbatim>\<open>ON DELETE\<close> (\<open>True\<close> for \<^verbatim>\<open>CASCADE\<close>), the comparisons of the \<^verbatim>\<open>CHECK\<close> clauses, and
  the clause on the state of a balance check.
\<close>

datatype rule =
    Key "string list"
  | One_of string "string list"
  | References string string bool
  | At_least string int
  | More_than string int
  | Not_above string string
  | Checked_or_retry

datatype statement =
    Create_table string "column list" "rule list"
  | Add_column string column
  | Create_index string string "string list"

definition required :: "string \<Rightarrow> sql_type \<Rightarrow> column" where
  "required name ty = \<lparr>co_name = name, co_type = ty, co_null = False, co_default = None\<rparr>"

definition optional :: "string \<Rightarrow> sql_type \<Rightarrow> column" where
  "optional name ty = \<lparr>co_name = name, co_type = ty, co_null = True, co_default = None\<rparr>"

definition defaulted :: "string \<Rightarrow> sql_type \<Rightarrow> default_value \<Rightarrow> column" where
  "defaulted name ty v = \<lparr>co_name = name, co_type = ty, co_null = False, co_default = Some v\<rparr>"

section \<open>The file\<close>

definition create_addresses :: statement where
  "create_addresses =
     Create_table ''wallet_addresses''
       [defaulted ''id'' Bigint Serial, required ''address_type'' Textual, required ''address'' Textual,
        required ''normalized_address'' Textual, defaulted ''label'' Textual (Value (Txt [])),
        required ''import_batch_id'' Uuid, defaulted ''created_at'' Timestamptz Now]
       [Key [''id''], One_of ''address_type'' [''evm'', ''btc'', ''sol'', ''trx''],
        Key [''address_type'', ''normalized_address'']]"

definition create_runs :: statement where
  "create_runs =
     Create_table ''scan_runs''
       [required ''id'' Uuid, required ''start_id'' Bigint, required ''end_id'' Bigint,
        required ''cursor_id'' Bigint, required ''status'' Textual,
        defaulted ''processed_count'' Bigint (Value (Num 0)), defaulted ''empty_count'' Bigint (Value (Num 0)),
        defaulted ''positive_count'' Bigint (Value (Num 0)), defaulted ''error_count'' Bigint (Value (Num 0)),
        defaulted ''started_at'' Timestamptz Now, optional ''completed_at'' Timestamptz]
       [Key [''id''], One_of ''status'' [''running'', ''paused'', ''completed'', ''failed''],
        At_least ''start_id'' 1, Not_above ''start_id'' ''end_id'', Not_above ''cursor_id'' ''end_id'']"

definition chain_names :: "string list" where
  "chain_names = [''btc'', ''ethereum'', ''arbitrum'', ''bsc'', ''solana'', ''tron'']"

definition create_findings :: statement where
  "create_findings =
     Create_table ''positive_findings''
       [defaulted ''id'' Bigint Serial, required ''address_id'' Bigint, required ''chain'' Textual,
        required ''balance_atomic'' Numeric_78_0, required ''asset_symbol'' Textual,
        defaulted ''first_seen_at'' Timestamptz Now, defaulted ''last_seen_at'' Timestamptz Now,
        optional ''notified_at'' Timestamptz]
       [Key [''id''], References ''address_id'' ''wallet_addresses'' False, One_of ''chain'' chain_names,
        More_than ''balance_atomic'' 0, Key [''address_id'', ''chain'']]"

definition create_checks :: statement where
  "create_checks =
     Create_table ''wallet_balance_checks''
       [defaulted ''id'' Bigint Serial, required ''address_id'' Bigint, required ''chain'' Textual,
        required ''state'' Textual, optional ''balance_atomic'' Numeric_78_0, optional ''asset_symbol'' Textual,
        optional ''error_code'' Textual, optional ''error_message'' Textual, optional ''provider'' Textual,
        optional ''retry_after_ms'' Bigint, defaulted ''checked_at'' Timestamptz Now]
       [Key [''id''], References ''address_id'' ''wallet_addresses'' True, One_of ''chain'' chain_names,
        One_of ''state'' [''checked'', ''retry''], At_least ''balance_atomic'' 0, Checked_or_retry,
        Key [''address_id'', ''chain'']]"

definition create_retries :: statement where
  "create_retries =
     Create_table ''retry_queue''
       [defaulted ''id'' Bigint Serial, required ''address_id'' Bigint, required ''chain'' Textual,
        required ''error_code'' Textual, required ''provider'' Textual,
        defaulted ''attempts'' Integer (Value (Num 0)), defaulted ''next_retry_at'' Timestamptz Now,
        required ''last_error'' Textual, optional ''resolved_at'' Timestamptz]
       [Key [''id''], References ''address_id'' ''wallet_addresses'' True, Key [''address_id'', ''chain'']]"

definition create_incidents :: statement where
  "create_incidents =
     Create_table ''node_incidents''
       [defaulted ''id'' Bigint Serial, required ''chain'' Textual, required ''provider'' Textual,
        required ''error_code'' Textual, defaulted ''consecutive_failures'' Integer (Value (Num 0)),
        required ''status'' Textual, defaulted ''first_seen_at'' Timestamptz Now,
        defaulted ''last_seen_at'' Timestamptz Now, optional ''recovered_at'' Timestamptz]
       [Key [''id''], One_of ''status'' [''active'', ''recovered'']]"

definition create_events :: statement where
  "create_events =
     Create_table ''notification_events''
       [defaulted ''id'' Bigint Serial, optional ''finding_id'' Bigint, optional ''node_incident_id'' Bigint,
        required ''event_type'' Textual, required ''status'' Textual,
        defaulted ''attempts'' Integer (Value (Num 0)), optional ''last_error'' Textual,
        optional ''sent_at'' Timestamptz, defaulted ''next_attempt_at'' Timestamptz Now,
        defaulted ''created_at'' Timestamptz Now]
       [Key [''id''], References ''finding_id'' ''positive_findings'' True,
        References ''node_incident_id'' ''node_incidents'' True,
        One_of ''event_type'' [''first_positive'', ''balance_changed'', ''node_error''],
        One_of ''status'' [''pending'', ''sent'', ''failed'']]"

text \<open>The column that a database of the first version does not have.\<close>

definition add_next_attempt :: statement where
  "add_next_attempt = Add_column ''notification_events'' (defaulted ''next_attempt_at'' Timestamptz Now)"

definition create_indexes :: "statement list" where
  "create_indexes =
     [Create_index ''idx_wallet_addresses_id'' ''wallet_addresses'' [''id''],
      Create_index ''idx_scan_runs_status'' ''scan_runs'' [''status''],
      Create_index ''idx_positive_findings_address'' ''positive_findings'' [''address_id''],
      Create_index ''idx_wallet_balance_checks_address'' ''wallet_balance_checks'' [''address_id''],
      Create_index ''idx_retry_queue_next_retry'' ''retry_queue'' [''next_retry_at''],
      Create_index ''idx_retry_queue_address'' ''retry_queue'' [''address_id''],
      Create_index ''idx_notification_events_pending'' ''notification_events'' [''status'', ''created_at''],
      Create_index ''idx_node_incidents_active'' ''node_incidents'' [''status'', ''chain'']]"

definition create_tables :: "statement list" where
  "create_tables =
     [create_addresses, create_runs, create_findings, create_checks, create_retries, create_incidents,
      create_events]"

definition initial_schema :: "statement list" where
  "initial_schema = create_tables @ [add_next_attempt] @ create_indexes"

section \<open>Applying statements\<close>

record sql_table =
  tb_columns :: "column list"
  tb_rules :: "rule list"
  tb_rows :: "row list"

text \<open>
  Tables and indexes by name; they share one name space. An index is its table and its columns.
\<close>

record catalogue =
  ct_tables :: "(string \<times> sql_table) list"
  ct_indexes :: "(string \<times> string \<times> string list) list"

definition empty_catalogue :: catalogue where
  "empty_catalogue = \<lparr>ct_tables = [], ct_indexes = []\<rparr>"

definition table_at :: "catalogue \<Rightarrow> string \<Rightarrow> sql_table option" where
  "table_at c name = map_of (ct_tables c) name"

definition has_relation :: "catalogue \<Rightarrow> string \<Rightarrow> bool" where
  "has_relation c name \<longleftrightarrow> table_at c name \<noteq> None \<or> map_of (ct_indexes c) name \<noteq> None"

definition column_names :: "sql_table \<Rightarrow> string list" where
  "column_names t = map co_name (tb_columns t)"

fun reference_ok :: "catalogue \<Rightarrow> rule \<Rightarrow> bool" where
  "reference_ok c (References _ name _) \<longleftrightarrow> table_at c name \<noteq> None"
| "reference_ok c _ \<longleftrightarrow> True"

text \<open>
  The value of a new column in the rows that are there: \<^verbatim>\<open>now()\<close> is the time of the
  transaction; a sequence numbers the rows.
\<close>

definition filled :: "int \<Rightarrow> column \<Rightarrow> nat \<Rightarrow> sql_value" where
  "filled now co k =
     (case co_default co of
        None \<Rightarrow> Null | Some Serial \<Rightarrow> Num (int k + 1) | Some Now \<Rightarrow> Num now | Some (Value v) \<Rightarrow> v)"

definition add_column :: "int \<Rightarrow> column \<Rightarrow> sql_table \<Rightarrow> sql_table" where
  "add_column now co t =
     t\<lparr>tb_columns := tb_columns t @ [co],
       tb_rows := map (\<lambda>(k, r). r @ [(co_name co, filled now co k)]) (enumerate 0 (tb_rows t))\<rparr>"

definition no_relation :: "string \<Rightarrow> string" where
  "no_relation name = ''relation '' @ name @ '' does not exist''"

text \<open>
  One statement: each is conditional, a relation or a column that exists is skipped. A table
  that another one references has to exist, and so has the table and every column of an index.
\<close>

fun run_statement :: "int \<Rightarrow> statement \<Rightarrow> catalogue \<Rightarrow> string + catalogue" where
  "run_statement now (Create_table name cs rs) c =
     (if has_relation c name then Inr c
      else if \<not> list_all (reference_ok c) rs then Inl (no_relation name)
      else Inr (c\<lparr>ct_tables := ct_tables c @ [(name, \<lparr>tb_columns = cs, tb_rules = rs, tb_rows = []\<rparr>)]\<rparr>))"
| "run_statement now (Add_column name co) c =
     (case table_at c name of
        None \<Rightarrow> Inl (no_relation name)
      | Some t \<Rightarrow>
          if co_name co \<in> set (column_names t) then Inr c
          else if \<not> co_null co \<and> co_default co = None \<and> tb_rows t \<noteq> []
          then Inl (''column '' @ co_name co @ '' contains null values'')
          else Inr (c\<lparr>ct_tables := AList.update name (add_column now co t) (ct_tables c)\<rparr>))"
| "run_statement now (Create_index index name cs) c =
     (case table_at c name of
        None \<Rightarrow> Inl (no_relation name)
      | Some t \<Rightarrow>
          if \<not> set cs \<subseteq> set (column_names t) then Inl (''column does not exist'')
          else if has_relation c index then Inr c
          else Inr (c\<lparr>ct_indexes := ct_indexes c @ [(index, name, cs)]\<rparr>))"

fun run_script :: "int \<Rightarrow> statement list \<Rightarrow> catalogue \<Rightarrow> string + catalogue" where
  "run_script now [] c = Inr c"
| "run_script now (s # ss) c =
     (case run_statement now s c of Inl e \<Rightarrow> Inl e | Inr c' \<Rightarrow> run_script now ss c')"

text \<open>
  \<^verbatim>\<open>Migrate\<close>: \<open>embedded\<close> is what reading the embedded file gives, and \<open>f\<close> the faults of
  \<^verbatim>\<open>Begin\<close>, \<^verbatim>\<open>Exec\<close> and \<^verbatim>\<open>Commit\<close>. Whatever ends before the commit is rolled back.
\<close>

definition Migrate ::
  "string + statement list \<Rightarrow> (nat \<Rightarrow> fault) \<Rightarrow> int \<Rightarrow> catalogue \<Rightarrow> (string + unit) \<times> catalogue" where
  "Migrate embedded f now c =
     (case embedded of
        Inl e \<Rightarrow> (Inl (''read migration: '' @ e), c)
      | Inr script \<Rightarrow>
          (case f 0 of
             Lost m _ \<Rightarrow> (Inl (''begin migration: '' @ m), c)
           | Fine \<Rightarrow>
               (case (case f 1 of Lost m _ \<Rightarrow> Inl m | Fine \<Rightarrow> run_script now script c) of
                  Inl e \<Rightarrow> (Inl (''apply migration: '' @ e), c)
                | Inr c' \<Rightarrow>
                    (case f 2 of
                       Fine \<Rightarrow> (Inr (), c')
                     | Lost m acted \<Rightarrow> (Inl (''commit migration: '' @ m), if acted then c' else c)))))"

section \<open>A statement that has run has nothing left to do\<close>

fun in_effect :: "statement \<Rightarrow> catalogue \<Rightarrow> bool" where
  "in_effect (Create_table name cs rs) c \<longleftrightarrow> has_relation c name"
| "in_effect (Add_column name co) c \<longleftrightarrow>
     (\<exists>t. table_at c name = Some t \<and> co_name co \<in> set (column_names t))"
| "in_effect (Create_index index name cs) c \<longleftrightarrow>
     has_relation c index \<and> (\<exists>t. table_at c name = Some t \<and> set cs \<subseteq> set (column_names t))"

lemma in_effect_skip: "in_effect s c \<Longrightarrow> run_statement now s c = Inr c"
  by (cases s) auto

text \<open>
  What a statement leaves of the catalogue: every relation; of every table its rules, its
  columns in front and every value of every row.
\<close>

definition row_kept :: "string list \<Rightarrow> row \<Rightarrow> row \<Rightarrow> bool" where
  "row_kept names r r' \<longleftrightarrow> (\<forall>x \<in> set names. map_of r' x = map_of r x)"

definition table_kept :: "sql_table \<Rightarrow> sql_table \<Rightarrow> bool" where
  "table_kept t t' \<longleftrightarrow>
     tb_rules t' = tb_rules t \<and> prefix (tb_columns t) (tb_columns t') \<and>
     list_all2 (row_kept (column_names t)) (tb_rows t) (tb_rows t')"

definition catalogue_kept :: "catalogue \<Rightarrow> catalogue \<Rightarrow> bool" where
  "catalogue_kept c c' \<longleftrightarrow>
     (\<forall>x. has_relation c x \<longrightarrow> has_relation c' x) \<and>
     (\<forall>x t. table_at c x = Some t \<longrightarrow> (\<exists>t'. table_at c' x = Some t' \<and> table_kept t t'))"

lemma table_kept_refl [simp]: "table_kept t t"
  by (auto simp: table_kept_def row_kept_def intro: list_all2_refl)

lemma table_kept_names: "table_kept t t' \<Longrightarrow> set (column_names t) \<subseteq> set (column_names t')"
  by (auto simp: table_kept_def column_names_def prefix_def)

lemma row_kept_mono: "row_kept ys r r' \<Longrightarrow> set xs \<subseteq> set ys \<Longrightarrow> row_kept xs r r'"
  by (auto simp: row_kept_def)

lemma table_kept_trans:
  assumes "table_kept a b" and "table_kept b c"
  shows "table_kept a c"
proof -
  have "list_all2 (row_kept (column_names a)) (tb_rows a) (tb_rows b)"
    using assms(1) by (simp add: table_kept_def)
  moreover have "list_all2 (row_kept (column_names a)) (tb_rows b) (tb_rows c)"
    using assms(2) table_kept_names [OF assms(1)] row_kept_mono
    by (auto simp: table_kept_def elim!: list_all2_mono)
  ultimately have "list_all2 (row_kept (column_names a)) (tb_rows a) (tb_rows c)"
    by (rule list_all2_trans [rotated]) (simp add: row_kept_def)
  with assms show ?thesis by (auto simp: table_kept_def)
qed

lemma catalogue_kept_refl [simp]: "catalogue_kept c c"
  by (auto simp: catalogue_kept_def)

lemma catalogue_kept_trans: "catalogue_kept a b \<Longrightarrow> catalogue_kept b c \<Longrightarrow> catalogue_kept a c"
  unfolding catalogue_kept_def by (meson table_kept_trans)

lemma in_effect_kept: "in_effect s c \<Longrightarrow> catalogue_kept c c' \<Longrightarrow> in_effect s c'"
  using table_kept_names by (cases s) (auto simp: catalogue_kept_def, blast+)

lemma add_column_kept:
  assumes "co_name co \<notin> set (column_names t)"
  shows "table_kept t (add_column now co t)"
proof -
  have "row_kept (column_names t) r (r @ [(co_name co, v)])" for r v
    using assms by (auto simp: row_kept_def map_add_def split: option.split)
  then show ?thesis
    by (auto simp: table_kept_def add_column_def list_all2_conv_all_nth nth_enumerate_eq)
qed

text \<open>One statement keeps the catalogue and is then in effect.\<close>

lemma run_statement_ok:
  assumes "run_statement now s c = Inr c'"
  shows "catalogue_kept c c' \<and> in_effect s c'"
proof (cases s)
  case (Create_table name cs rs)
  then show ?thesis
    using assms by (auto simp: catalogue_kept_def has_relation_def table_at_def map_add_def
        split: if_splits option.splits)
next
  case (Add_column name co)
  with assms obtain t where t: "table_at c name = Some t"
    and c': "c' = c \<and> co_name co \<in> set (column_names t) \<or> co_name co \<notin> set (column_names t) \<and>
      c' = c\<lparr>ct_tables := AList.update name (add_column now co t) (ct_tables c)\<rparr>"
    by (auto split: option.splits if_splits)
  from c' show ?thesis
  proof (elim disjE conjE)
    assume new: "co_name co \<notin> set (column_names t)"
      and c': "c' = c\<lparr>ct_tables := AList.update name (add_column now co t) (ct_tables c)\<rparr>"
    have at: "table_at c' x = (if x = name then Some (add_column now co t) else table_at c x)" for x
      by (simp add: c' table_at_def update_conv')
    have "co_name co \<in> set (column_names (add_column now co t))"
      by (simp add: column_names_def add_column_def)
    with at t add_column_kept [OF new] show ?thesis
      by (auto simp: Add_column catalogue_kept_def has_relation_def c')
  qed (use t in \<open>simp add: Add_column\<close>)
next
  case (Create_index index name cs)
  with assms show ?thesis
    by (auto simp: catalogue_kept_def has_relation_def table_at_def map_add_def
        split: if_splits option.splits)
qed

lemma run_script_ok:
  "run_script now ss c = Inr c' \<Longrightarrow> catalogue_kept c c' \<and> (\<forall>s \<in> set ss. in_effect s c')"
proof (induction ss arbitrary: c)
  case (Cons s ss)
  then obtain c1 where 1: "run_statement now s c = Inr c1" "run_script now ss c1 = Inr c'"
    by (auto split: sum.splits)
  from Cons.IH [OF 1(2)] run_statement_ok [OF 1(1)] show ?case
    by (auto intro: catalogue_kept_trans in_effect_kept)
qed simp

lemma run_script_in_effect: "\<forall>s \<in> set ss. in_effect s c \<Longrightarrow> run_script now ss c = Inr c"
  by (induction ss) (simp_all add: in_effect_skip)

section \<open>The rows of the model\<close>

definition opt_num :: "int option \<Rightarrow> sql_value" where
  "opt_num x = (case x of None \<Rightarrow> Null | Some n \<Rightarrow> Num n)"

definition opt_txt :: "string option \<Rightarrow> sql_value" where
  "opt_txt x = (case x of None \<Rightarrow> Null | Some s \<Rightarrow> Txt s)"

text \<open>
  A row of the model as a row of its table. The columns the program never writes have the value
  their default gives: \<^verbatim>\<open>notified_at\<close> and \<^verbatim>\<open>recovered_at\<close> are null, and the last sight of an
  incident is its first.
\<close>

definition address_values :: "wallet_row \<Rightarrow> row" where
  "address_values r =
     [(''id'', Num (wa_id r)), (''address_type'', Txt (wa_type r)), (''address'', Txt (wa_address r)),
      (''normalized_address'', Txt (wa_normalized r)), (''label'', Txt (wa_label r)),
      (''import_batch_id'', Num (int (wa_batch r))), (''created_at'', Num (wa_created r))]"

definition run_values :: "run_row \<Rightarrow> row" where
  "run_values r =
     [(''id'', Num (int (run_id (rr_run r)))), (''start_id'', Num (run_start (rr_run r))),
      (''end_id'', Num (run_end (rr_run r))), (''cursor_id'', Num (run_cursor (rr_run r))),
      (''status'', Txt (run_status (rr_run r))), (''processed_count'', Num (run_processed (rr_run r))),
      (''empty_count'', Num (run_empty (rr_run r))), (''positive_count'', Num (run_positive (rr_run r))),
      (''error_count'', Num (run_errors (rr_run r))), (''started_at'', Num (rr_started r)),
      (''completed_at'', opt_num (rr_completed r))]"

definition finding_values :: "finding_row \<Rightarrow> row" where
  "finding_values r =
     [(''id'', Num (pf_id r)), (''address_id'', Num (pf_address_id r)), (''chain'', Txt (pf_chain r)),
      (''balance_atomic'', Num (pf_balance r)), (''asset_symbol'', Txt (pf_symbol r)),
      (''first_seen_at'', Num (pf_first_seen r)), (''last_seen_at'', Num (pf_last_seen r)),
      (''notified_at'', Null)]"

definition check_values :: "check_row \<Rightarrow> row" where
  "check_values r =
     [(''id'', Num (bc_id r)), (''address_id'', Num (bc_address_id r)), (''chain'', Txt (bc_chain r)),
      (''state'', Txt (bc_state r)), (''balance_atomic'', opt_num (bc_balance r)),
      (''asset_symbol'', opt_txt (bc_symbol r)), (''error_code'', opt_txt (bc_code r)),
      (''error_message'', opt_txt (bc_message r)), (''provider'', opt_txt (bc_provider r)),
      (''retry_after_ms'', opt_num (bc_retry_ms r)), (''checked_at'', Num (bc_checked_at r))]"

definition retry_values :: "retry_row \<Rightarrow> row" where
  "retry_values r =
     [(''id'', Num (rq_id r)), (''address_id'', Num (rq_address_id r)), (''chain'', Txt (rq_chain r)),
      (''error_code'', Txt (rq_code r)), (''provider'', Txt (rq_provider r)),
      (''attempts'', Num (int (rq_attempts r))), (''next_retry_at'', Num (rq_next r)),
      (''last_error'', Txt (rq_last_error r)), (''resolved_at'', opt_num (rq_resolved r))]"

definition incident_values :: "incident_row \<Rightarrow> row" where
  "incident_values r =
     [(''id'', Num (ni_id r)), (''chain'', Txt (ni_chain r)), (''provider'', Txt (ni_provider r)),
      (''error_code'', Txt (ni_code r)), (''consecutive_failures'', Num (ni_failures r)),
      (''status'', Txt (ni_status r)), (''first_seen_at'', Num (ni_first_seen r)),
      (''last_seen_at'', Num (ni_first_seen r)), (''recovered_at'', Null)]"

definition event_values :: "event_row \<Rightarrow> row" where
  "event_values r =
     [(''id'', Num (ne_id r)), (''finding_id'', opt_num (ne_finding r)),
      (''node_incident_id'', opt_num (ne_incident r)), (''event_type'', Txt (ne_type r)),
      (''status'', Txt (ne_status r)), (''attempts'', Num (int (ne_attempts r))),
      (''last_error'', opt_txt (ne_last_error r)), (''sent_at'', opt_num (ne_sent r)),
      (''next_attempt_at'', Num (ne_next r)), (''created_at'', Num (ne_created r))]"

definition rows_of :: "db \<Rightarrow> string \<Rightarrow> row list" where
  "rows_of d name =
     (if name = ''wallet_addresses'' then map address_values (addresses d)
      else if name = ''scan_runs'' then map run_values (runs d)
      else if name = ''positive_findings'' then map finding_values (findings d)
      else if name = ''wallet_balance_checks'' then map check_values (checks d)
      else if name = ''retry_queue'' then map retry_values (retries d)
      else if name = ''node_incidents'' then map incident_values (incidents d)
      else if name = ''notification_events'' then map event_values (events d)
      else [])"

section \<open>What the rules of the file demand\<close>

definition cell :: "row \<Rightarrow> string \<Rightarrow> sql_value" where
  "cell r x = (case map_of r x of None \<Rightarrow> Null | Some v \<Rightarrow> v)"

text \<open>The ranges of \<^verbatim>\<open>BIGINT\<close> and \<^verbatim>\<open>INTEGER\<close> are not part of the model.\<close>

fun typed :: "sql_type \<Rightarrow> sql_value \<Rightarrow> bool" where
  "typed ty Null \<longleftrightarrow> False"
| "typed ty (Txt s) \<longleftrightarrow> ty = Textual"
| "typed ty (Num n) \<longleftrightarrow> ty \<noteq> Textual \<and> (ty = Numeric_78_0 \<longrightarrow> \<bar>n\<bar> < 10 ^ 78)"

definition fits :: "column \<Rightarrow> sql_value \<Rightarrow> bool" where
  "fits co v \<longleftrightarrow> (if v = Null then co_null co else typed (co_type co) v)"

text \<open>
  A comparison with a null is not false, so a \<^verbatim>\<open>CHECK\<close> lets it pass; nulls are different from
  each other in a key, and a null refers to nothing.
\<close>

fun compared :: "(int \<Rightarrow> int \<Rightarrow> bool) \<Rightarrow> sql_value \<Rightarrow> sql_value \<Rightarrow> bool" where
  "compared le (Num a) (Num b) \<longleftrightarrow> le a b"
| "compared le _ _ \<longleftrightarrow> True"

fun holds :: "(string \<Rightarrow> row list) \<Rightarrow> row list \<Rightarrow> rule \<Rightarrow> bool" where
  "holds T rs (Key cs) \<longleftrightarrow> distinct (filter (\<lambda>vs. Null \<notin> set vs) (map (\<lambda>r. map (cell r) cs) rs))"
| "holds T rs (One_of x vs) \<longleftrightarrow> (\<forall>r \<in> set rs. cell r x = Null \<or> cell r x \<in> Txt ` set vs)"
| "holds T rs (References x name _) \<longleftrightarrow>
     (\<forall>r \<in> set rs. cell r x = Null \<or> (\<exists>p \<in> set (T name). cell p ''id'' = cell r x))"
| "holds T rs (At_least x n) \<longleftrightarrow> (\<forall>r \<in> set rs. compared (\<le>) (Num n) (cell r x))"
| "holds T rs (More_than x n) \<longleftrightarrow> (\<forall>r \<in> set rs. compared (<) (Num n) (cell r x))"
| "holds T rs (Not_above x y) \<longleftrightarrow> (\<forall>r \<in> set rs. compared (\<le>) (cell r x) (cell r y))"
| "holds T rs Checked_or_retry \<longleftrightarrow>
     (\<forall>r \<in> set rs.
        cell r ''state'' = Txt ''checked'' \<and> cell r ''balance_atomic'' \<noteq> Null \<and> cell r ''asset_symbol'' \<noteq> Null \<or>
        cell r ''state'' = Txt ''retry'' \<and> cell r ''balance_atomic'' = Null)"

fun conforms :: "(string \<Rightarrow> row list) \<Rightarrow> statement \<Rightarrow> bool" where
  "conforms T (Create_table name cs rs) \<longleftrightarrow>
     (\<forall>r \<in> set (T name). map fst r = map co_name cs \<and> (\<forall>co \<in> set cs. fits co (cell r (co_name co)))) \<and>
     (\<forall>rule \<in> set rs. holds T (T name) rule)"
| "conforms T (Add_column name co) \<longleftrightarrow> (\<forall>r \<in> set (T name). fits co (cell r (co_name co)))"
| "conforms T (Create_index index name cs) \<longleftrightarrow> True"

section \<open>The invariant gives the constraints of the file\<close>

lemma opt_simps [simp]:
  "opt_num n = Null \<longleftrightarrow> n = None" "opt_txt s = Null \<longleftrightarrow> s = None"
  "compared le (Num a) (opt_num n) \<longleftrightarrow> (\<forall>k. n = Some k \<longrightarrow> le a k)"
  by (auto simp: opt_num_def opt_txt_def split: option.split)

lemma column_simps [simp]:
  "co_name (required x ty) = x" "co_name (optional x ty) = x" "co_name (defaulted x ty v) = x"
  "fits (required x ty) w \<longleftrightarrow> typed ty w" "fits (defaulted x ty v) w \<longleftrightarrow> typed ty w"
  "fits (optional x ty) Null"
  "fits (optional x ty) (opt_num n) \<longleftrightarrow> (\<forall>k. n = Some k \<longrightarrow> typed ty (Num k))"
  "fits (optional x ty) (opt_txt s) \<longleftrightarrow> s = None \<or> ty = Textual"
  by (auto simp: required_def optional_def defaulted_def fits_def opt_num_def opt_txt_def split: option.split)

lemma cell_simps [simp]: "cell ((x, v) # r) y = (if y = x then v else cell r y)" "cell [] y = Null"
  by (simp_all add: cell_def)

lemma key_holds:
  assumes "distinct (map f xs)" and "\<And>x y. map (cell (g x)) cs = map (cell (g y)) cs \<Longrightarrow> f x = f y"
  shows "holds T (map g xs) (Key cs)"
proof -
  have "distinct (map (\<lambda>x. map (cell (g x)) cs) xs)"
    using assms by (auto simp: distinct_map inj_on_def)
  then show ?thesis by (simp add: comp_def)
qed

lemma sorted_distinct: "sorted_wrt (<) (map f xs) \<Longrightarrow> distinct (map f xs)" for f :: "'a \<Rightarrow> int"
  by (simp add: strict_sorted_iff)

lemma conformsI:
  assumes "T name = map g xs"
    and "\<And>x. x \<in> set xs \<Longrightarrow> map fst (g x) = map co_name cs \<and> list_all (\<lambda>co. fits co (cell (g x) (co_name co))) cs"
    and "list_all (holds T (map g xs)) rs"
  shows "conforms T (Create_table name cs rs)"
  using assms by (auto simp: list_all_iff)

text \<open>A reference to rows that are there, and one that may be null.\<close>

lemma reference_holds:
  assumes "T name = map h ps" and "\<And>p. cell (h p) ''id'' = Num (i p)"
    and "\<forall>x \<in> set xs. \<forall>k. v x = Some k \<longrightarrow> k \<in> i ` set ps" and "\<And>x. cell (g x) c = opt_num (v x)"
  shows "holds T (map g xs) (References c name cascade)"
  using assms by (fastforce simp: opt_num_def split: option.split)

lemma address_reference:
  assumes "\<forall>x \<in> set xs. k x \<in> address_ids d" and "\<And>x. cell (g x) c = Num (k x)"
  shows "holds (rows_of d) (map g xs) (References c ''wallet_addresses'' cascade)"
  using assms
  by (intro reference_holds [where h = address_values and ps = "addresses d" and i = wa_id and v = "\<lambda>x. Some (k x)"])
    (auto simp: rows_of_def address_values_def address_ids_def opt_num_def)

lemma addresses_conform:
  assumes "addresses_ok d"
  shows "conforms (rows_of d) create_addresses"
proof -
  have "holds T (map address_values (addresses d)) (Key [''id''])" for T
    using assms by (intro key_holds [where f = "wa_id"]) (auto simp: addresses_ok_def address_values_def dest: sorted_distinct)
  moreover have "holds T (map address_values (addresses d)) (Key [''address_type'', ''normalized_address''])" for T
    using assms by (intro key_holds [where f = "\<lambda>r. (wa_type r, wa_normalized r)"]) (auto simp: addresses_ok_def address_values_def dest: sorted_distinct)
  ultimately show ?thesis
    using assms unfolding create_addresses_def
    by (intro conformsI [of _ _ address_values "addresses d"])
      (auto simp: rows_of_def address_values_def addresses_ok_def address_types_def simp del: holds.simps(1,3))
qed

lemma runs_conform:
  assumes "runs_ok d"
  shows "conforms (rows_of d) create_runs"
proof -
  have "holds T (map run_values (runs d)) (Key [''id''])" for T
    using assms by (intro key_holds [where f = "run_id \<circ> rr_run"]) (auto simp: runs_ok_def run_values_def dest: sorted_distinct)
  then show ?thesis
    using assms unfolding create_runs_def
    by (intro conformsI [of _ _ run_values "runs d"])
      (auto simp: rows_of_def run_values_def runs_ok_def run_ok_def simp del: holds.simps(1,3))
qed

lemma findings_conform:
  assumes "findings_ok d"
  shows "conforms (rows_of d) create_findings"
proof -
  have "holds T (map finding_values (findings d)) (Key [''id''])" for T
    using assms by (intro key_holds [where f = "pf_id"]) (auto simp: findings_ok_def finding_values_def dest: sorted_distinct)
  moreover have "holds T (map finding_values (findings d)) (Key [''address_id'', ''chain''])" for T
    using assms by (intro key_holds [where f = "\<lambda>r. (pf_address_id r, pf_chain r)"]) (auto simp: findings_ok_def finding_values_def dest: sorted_distinct)
  moreover have "holds (rows_of d) (map finding_values (findings d)) (References ''address_id'' ''wallet_addresses'' False)"
    using assms by (intro address_reference [where k = pf_address_id]) (auto simp: findings_ok_def finding_values_def)
  ultimately show ?thesis
    using assms unfolding create_findings_def
    by (intro conformsI [of _ _ finding_values "findings d"])
      (auto simp: rows_of_def finding_values_def findings_ok_def all_chains_def chain_names_def numeric_limit_def simp del: holds.simps(1,3))
qed

lemma checks_conform:
  assumes "checks_ok d"
  shows "conforms (rows_of d) create_checks"
proof -
  have "holds T (map check_values (checks d)) (Key [''id''])" for T
    using assms by (intro key_holds [where f = "bc_id"]) (auto simp: checks_ok_def check_values_def dest: sorted_distinct)
  moreover have "holds T (map check_values (checks d)) (Key [''address_id'', ''chain''])" for T
    using assms by (intro key_holds [where f = "\<lambda>r. (bc_address_id r, bc_chain r)"]) (auto simp: checks_ok_def check_values_def dest: sorted_distinct)
  moreover have "holds (rows_of d) (map check_values (checks d)) (References ''address_id'' ''wallet_addresses'' True)"
    using assms by (intro address_reference [where k = bc_address_id]) (auto simp: checks_ok_def check_values_def)
  ultimately show ?thesis
    using assms unfolding create_checks_def
    by (intro conformsI [of _ _ check_values "checks d"])
      (auto simp: rows_of_def check_values_def checks_ok_def check_ok_def all_chains_def chain_names_def numeric_limit_def simp del: holds.simps(1,3))
qed

lemma retries_conform:
  assumes "retries_ok d"
  shows "conforms (rows_of d) create_retries"
proof -
  have "holds T (map retry_values (retries d)) (Key [''id''])" for T
    using assms by (intro key_holds [where f = "rq_id"]) (auto simp: retries_ok_def retry_values_def dest: sorted_distinct)
  moreover have "holds T (map retry_values (retries d)) (Key [''address_id'', ''chain''])" for T
    using assms by (intro key_holds [where f = "\<lambda>r. (rq_address_id r, rq_chain r)"]) (auto simp: retries_ok_def retry_values_def dest: sorted_distinct)
  moreover have "holds (rows_of d) (map retry_values (retries d)) (References ''address_id'' ''wallet_addresses'' True)"
    using assms by (intro address_reference [where k = rq_address_id]) (auto simp: retries_ok_def retry_values_def)
  ultimately show ?thesis
    using assms unfolding create_retries_def
    by (intro conformsI [of _ _ retry_values "retries d"])
      (auto simp: rows_of_def retry_values_def retries_ok_def simp del: holds.simps(1,3))
qed

lemma incidents_conform:
  assumes "incidents_ok d"
  shows "conforms (rows_of d) create_incidents"
proof -
  have "holds T (map incident_values (incidents d)) (Key [''id''])" for T
    using assms by (intro key_holds [where f = "ni_id"]) (auto simp: incidents_ok_def incident_values_def dest: sorted_distinct)
  then show ?thesis
    using assms unfolding create_incidents_def
    by (intro conformsI [of _ _ incident_values "incidents d"])
      (auto simp: rows_of_def incident_values_def incidents_ok_def simp del: holds.simps(1,3))
qed

lemma events_conform:
  assumes "events_ok d"
  shows "conforms (rows_of d) create_events"
proof -
  have "holds T (map event_values (events d)) (Key [''id''])" for T
    using assms by (intro key_holds [where f = "ne_id"]) (auto simp: events_ok_def event_values_def dest: sorted_distinct)
  moreover have "holds (rows_of d) (map event_values (events d)) (References ''finding_id'' ''positive_findings'' True)"
    using assms by (intro reference_holds [where h = finding_values and ps = "findings d" and i = pf_id and v = ne_finding])
      (auto simp: rows_of_def events_ok_def event_values_def finding_values_def)
  moreover have "holds (rows_of d) (map event_values (events d)) (References ''node_incident_id'' ''node_incidents'' True)"
    using assms by (intro reference_holds [where h = incident_values and ps = "incidents d" and i = ni_id and v = ne_incident])
      (auto simp: rows_of_def events_ok_def event_values_def incident_values_def)
  ultimately show ?thesis
    using assms unfolding create_events_def
    by (intro conformsI [of _ _ event_values "events d"])
      (auto simp: rows_of_def event_values_def events_ok_def event_types_def event_statuses_def simp del: holds.simps(1,3))
qed

lemma db_conforms:
  assumes "db_ok d" and "s \<in> set initial_schema"
  shows "conforms (rows_of d) s"
proof -
  have tables: "conforms (rows_of d) t" if "t \<in> set create_tables" for t
    using assms(1) that unfolding create_tables_def db_ok_def
    by (auto intro: addresses_conform runs_conform findings_conform checks_conform retries_conform
        incidents_conform events_conform simp del: conforms.simps)
  moreover have "conforms (rows_of d) add_next_attempt"
    by (auto simp: add_next_attempt_def rows_of_def event_values_def)
  moreover have "conforms (rows_of d) t" if "t \<in> set create_indexes" for t
    using that by (auto simp: create_indexes_def)
  ultimately show ?thesis using assms(2) by (auto simp: initial_schema_def simp del: conforms.simps)
qed

section \<open>Migrations\<close>

definition no_faults :: "nat \<Rightarrow> fault" where
  "no_faults k = Fine"

lemma Migrate_cases:
  assumes "Migrate embedded f now c = (r, c')"
  obtains (undone) e where "r = Inl e" "c' = c"
    | (applied) script where "embedded = Inr script" "run_script now script c = Inr c'"
      "r = Inr () \<or> (\<exists>m. r = Inl (''commit migration: '' @ m))"
  using assms by (auto simp: Migrate_def split: sum.splits fault.splits if_splits)

lemma migration_keeps:
  assumes "Migrate embedded f now c = (r, c')"
  shows "catalogue_kept c c' \<and>
    (c' = c \<and> r \<noteq> Inr () \<or>
     (\<exists>script. embedded = Inr script \<and> (\<forall>s \<in> set script. in_effect s c') \<and>
        (\<forall>later. Migrate embedded no_faults later c' = (Inr (), c'))))"
  using assms
proof (cases rule: Migrate_cases)
  case (applied script)
  note ok = run_script_ok [OF applied(2)]
  then have "run_script later script c' = Inr c'" for later by (intro run_script_in_effect) simp
  with ok applied show ?thesis by (auto simp: Migrate_def no_faults_def)
qed simp

text \<open>
  C15: a migration is safe to repeat and to interrupt. Whatever fails, no relation, column or
  value of a row is lost, and either nothing has changed or every statement has taken its
  effect; it reports success only in the second case, and then doing it again (at any time)
  succeeds and changes nothing.
\<close>

theorem migration_safe:
  assumes "Migrate embedded f now c = (r, c')"
  shows "catalogue_kept c c' \<and>
    (c' = c \<and> r \<noteq> Inr () \<or>
     (\<exists>script. embedded = Inr script \<and> (\<forall>s \<in> set script. in_effect s c') \<and>
        (\<forall>later. Migrate embedded no_faults later c' = (Inr (), c'))))"
  by (rule migration_keeps [OF assms])

text \<open>A database of the first version: no time of the next attempt, and one event in it.\<close>

definition old_event_columns :: "column list" where
  "old_event_columns =
     (case create_events of Create_table _ cs _ \<Rightarrow> filter (\<lambda>co. co_name co \<noteq> ''next_attempt_at'') cs | _ \<Rightarrow> [])"

definition old_catalogue :: catalogue where
  "old_catalogue =
     \<lparr>ct_tables = [(''notification_events'',
        \<lparr>tb_columns = old_event_columns, tb_rules = [], tb_rows = [[(''id'', Num 1), (''status'', Txt ''failed'')]]\<rparr>)],
      ct_indexes = []\<rparr>"

lemma old_catalogue_migrates:
  "\<exists>c. Migrate (Inr initial_schema) no_faults 5 old_catalogue = (Inr (), c) \<and>
     map_option tb_rows (table_at c ''notification_events'') =
       Some [[(''id'', Num 1), (''status'', Txt ''failed''), (''next_attempt_at'', Num 5)]]"
proof -
  have "case Migrate (Inr initial_schema) no_faults 5 old_catalogue of (r, c) \<Rightarrow> r = Inr () \<and>
     map_option tb_rows (table_at c ''notification_events'') =
       Some [[(''id'', Num 1), (''status'', Txt ''failed''), (''next_attempt_at'', Num 5)]]"
    by code_simp
  then show ?thesis by (auto split: prod.splits)
qed

theorem migration_safe_witness:
  "\<exists>c. Migrate (Inr initial_schema) no_faults 5 old_catalogue = (Inr (), c) \<and> catalogue_kept old_catalogue c \<and>
     Migrate (Inr initial_schema) no_faults 9 c = (Inr (), c)"
proof -
  obtain c where "Migrate (Inr initial_schema) no_faults 5 old_catalogue = (Inr (), c)"
    using old_catalogue_migrates by blast
  from migration_safe [OF this] this show ?thesis by auto
qed

end
