(* ===== verification/Flags.thy ===== *)
theory Flags
  imports Config Generate_Cmd "HOL-Library.AList"
begin

text \<open>
  The command lines: what \<^verbatim>\<open>importCSV\<close> and \<^verbatim>\<open>generateCommand\<close> read from their arguments
  with the package \<^verbatim>\<open>flag\<close>, whose parser is modelled as far as they use it (strings, booleans,
  integers; the first error ends it).
\<close>

section \<open>Integers of \<^verbatim>\<open>strconv.ParseInt(s, 0, 64)\<close>\<close>

datatype int_error = Syntax | Range

definition base_prefix :: "string \<Rightarrow> nat \<times> string" where
  "base_prefix s =
     (if s = [] \<or> hd s \<noteq> CHR ''0'' then (10, s)
      else if 3 \<le> length s \<and> ascii_lower (s ! 1) = CHR ''b'' then (2, drop 2 s)
      else if 3 \<le> length s \<and> ascii_lower (s ! 1) = CHR ''o'' then (8, drop 2 s)
      else if 3 \<le> length s \<and> ascii_lower (s ! 1) = CHR ''x'' then (16, drop 2 s)
      else (8, tl s))"

text \<open>The digits; underscores are passed over here, their places are checked apart.\<close>

fun scan_digits :: "nat \<Rightarrow> int \<Rightarrow> string \<Rightarrow> int_error + int" where
  "scan_digits base n [] = Inr n"
| "scan_digits base n (c # cs) =
     (if c = CHR ''_'' then scan_digits base n cs
      else
        (case digit_val (ascii_lower c) of
           None \<Rightarrow> Inl Syntax
         | Some d \<Rightarrow>
             if base \<le> d then Inl Syntax
             else if n * int base + int d > 2 ^ 64 - 1 then Inl Range
             else scan_digits base (n * int base + int d) cs))"

text \<open>\<^verbatim>\<open>underscoreOK\<close>: \<open>saw\<close> is the last character seen, \<open>0\<close> for a digit.\<close>

fun underscores_ok :: "bool \<Rightarrow> char \<Rightarrow> string \<Rightarrow> bool" where
  "underscores_ok hex saw [] \<longleftrightarrow> saw \<noteq> CHR ''_''"
| "underscores_ok hex saw (c # cs) \<longleftrightarrow>
     (let digit = (case digit_val (ascii_lower c) of None \<Rightarrow> False | Some d \<Rightarrow> d < (if hex then 16 else 10))
      in if digit then underscores_ok hex (CHR ''0'') cs
         else if c = CHR ''_'' then saw = CHR ''0'' \<and> underscores_ok hex (CHR ''_'') cs
         else saw \<noteq> CHR ''_'' \<and> underscores_ok hex (CHR ''!'') cs)"

definition underscoreOK :: "string \<Rightarrow> bool" where
  "underscoreOK s =
     (if 2 \<le> length s \<and> hd s = CHR ''0'' \<and> ascii_lower (s ! 1) \<in> {CHR ''b'', CHR ''o'', CHR ''x''}
      then underscores_ok (ascii_lower (s ! 1) = CHR ''x'') (CHR ''0'') (drop 2 s)
      else underscores_ok False (CHR ''^'') s)"

definition parse_uint0 :: "string \<Rightarrow> int_error + int" where
  "parse_uint0 s =
     (if s = [] then Inl Syntax
      else
        (case base_prefix s of
           (base, ds) \<Rightarrow>
             (case scan_digits base 0 ds of
                Inl e \<Rightarrow> Inl e
              | Inr n \<Rightarrow> if CHR ''_'' \<in> set ds \<and> \<not> underscoreOK s then Inl Syntax else Inr n)))"

definition parse_int0 :: "string \<Rightarrow> int_error + int" where
  "parse_int0 s =
     (if s = [] then Inl Syntax
      else
        let neg = hd s = CHR ''-''; u = (if hd s \<in> {CHR ''+'', CHR ''-''} then tl s else s)
        in case parse_uint0 u of
             Inl e \<Rightarrow> Inl e
           | Inr n \<Rightarrow>
               if \<not> neg \<and> n \<ge> 2 ^ 63 \<or> neg \<and> n > 2 ^ 63 then Inl Range
               else Inr (if neg then - n else n))"

section \<open>Flags\<close>

datatype flag_value = F_bool bool | F_int int | F_string string

text \<open>The text of a value that a flag does not take.\<close>

definition set_flag :: "flag_value \<Rightarrow> string \<Rightarrow> string + flag_value" where
  "set_flag old s =
     (case old of
        F_bool _ \<Rightarrow> (case parse_bool s of None \<Rightarrow> Inl ''parse error'' | Some b \<Rightarrow> Inr (F_bool b))
      | F_int _ \<Rightarrow>
          (case parse_int0 s of
             Inl Syntax \<Rightarrow> Inl ''parse error''
           | Inl Range \<Rightarrow> Inl ''value out of range''
           | Inr n \<Rightarrow> Inr (F_int n))
      | F_string _ \<Rightarrow> Inr (F_string s))"

type_synonym flags = "(string \<times> flag_value) list"

definition flag_name :: "string \<Rightarrow> string" where
  "flag_name s = drop (if s ! 1 = CHR ''-'' then 2 else 1) s"

text \<open>\<^verbatim>\<open>name=value\<close>: the name, and the value after the first equals sign that is not in front.\<close>

definition split_value :: "string \<Rightarrow> string \<times> string option" where
  "split_value name =
     (case name of
        [] \<Rightarrow> ([], None)
      | c # cs \<Rightarrow>
          if CHR ''='' \<in> set cs
          then (c # takeWhile (\<lambda>x. x \<noteq> CHR ''='') cs, Some (tl (dropWhile (\<lambda>x. x \<noteq> CHR ''='') cs)))
          else (name, None))"

definition is_bool :: "flag_value \<Rightarrow> bool" where
  "is_bool v = (case v of F_bool _ \<Rightarrow> True | _ \<Rightarrow> False)"

definition flag_error :: "(string \<Rightarrow> string) \<Rightarrow> flag_value \<Rightarrow> string \<Rightarrow> string \<Rightarrow> string \<Rightarrow> string" where
  "flag_error quote v name value why =
     (if is_bool v then ''invalid boolean value '' @ quote value @ '' for -'' @ name @ '': '' @ why
      else ''invalid value '' @ quote value @ '' for flag -'' @ name @ '': '' @ why)"

text \<open>
  \<^verbatim>\<open>parseOne\<close>: the arguments that are left when there is no flag, an error, or the flags
  with a value set and the other arguments. \<open>quote\<close> is Go's \<^verbatim>\<open>%q\<close>.
\<close>

datatype flag_step = Stop "string list" | Bad string | More flags "string list"

definition set_named ::
  "(string \<Rightarrow> string) \<Rightarrow> flags \<Rightarrow> string \<Rightarrow> flag_value \<Rightarrow> string \<Rightarrow> string list \<Rightarrow> flag_step" where
  "set_named quote fs name v x args =
     (case set_flag v x of
        Inl why \<Rightarrow> Bad (flag_error quote v name x why)
      | Inr v' \<Rightarrow> More (AList.update name v' fs) args)"

definition parseOne :: "(string \<Rightarrow> string) \<Rightarrow> flags \<Rightarrow> string list \<Rightarrow> flag_step" where
  "parseOne quote fs args =
     (case args of
        [] \<Rightarrow> Stop []
      | s # rest \<Rightarrow>
          if length s < 2 \<or> hd s \<noteq> CHR ''-'' then Stop args
          else if s = ''--'' then Stop rest
          else if flag_name s = [] \<or> hd (flag_name s) \<in> {CHR ''-'', CHR ''=''}
          then Bad (''bad flag syntax: '' @ s)
          else
            (case split_value (flag_name s) of
               (name, value) \<Rightarrow>
                 (case map_of fs name of
                    None \<Rightarrow>
                      if name \<in> {''help'', ''h''} then Bad ''flag: help requested''
                      else Bad (''flag provided but not defined: -'' @ name)
                  | Some v \<Rightarrow>
                      (case (if is_bool v \<and> value = None then Some ''true'' else value) of
                         Some x \<Rightarrow> set_named quote fs name v x rest
                       | None \<Rightarrow>
                           (case rest of
                              [] \<Rightarrow> Bad (''flag needs an argument: -'' @ name)
                            | x # rest' \<Rightarrow> set_named quote fs name v x rest')))))"

lemma set_named_more: "set_named quote fs name v x args = More fs' rest \<Longrightarrow> rest = args"
  by (simp add: set_named_def split: sum.splits)

lemma parseOne_shorter:
  assumes "parseOne quote fs args = More fs' rest"
  shows "length rest < length args"
  using assms
  by (cases args) (auto simp: parseOne_def dest!: set_named_more
      split: if_splits prod.splits option.splits list.splits)

text \<open>\<^verbatim>\<open>FlagSet.Parse\<close>: the flags, which have their defaults at first, and the arguments left.\<close>

function parse_flags :: "(string \<Rightarrow> string) \<Rightarrow> flags \<Rightarrow> string list \<Rightarrow> string + flags \<times> string list" where
  "parse_flags quote fs args =
     (case parseOne quote fs args of
        Stop rest \<Rightarrow> Inr (fs, rest)
      | Bad e \<Rightarrow> Inl e
      | More fs' rest \<Rightarrow> parse_flags quote fs' rest)"
  by pat_completeness auto
termination
  by (relation "measure (\<lambda>(quote, fs, args). length args)") (auto dest: parseOne_shorter)

declare parse_flags.simps [simp del]

section \<open>The two command lines\<close>

definition flag_text :: "flags \<Rightarrow> string \<Rightarrow> string" where
  "flag_text fs name = (case map_of fs name of Some (F_string s) \<Rightarrow> s | _ \<Rightarrow> [])"

definition flag_int :: "flags \<Rightarrow> string \<Rightarrow> int" where
  "flag_int fs name = (case map_of fs name of Some (F_int n) \<Rightarrow> n | _ \<Rightarrow> 0)"

definition flag_bool :: "flags \<Rightarrow> string \<Rightarrow> bool" where
  "flag_bool fs name = (case map_of fs name of Some (F_bool b) \<Rightarrow> b | _ \<Rightarrow> False)"

definition import_flags :: flags where
  "import_flags = [(''file'', F_string [])]"

definition import_path :: "(string \<Rightarrow> string) \<Rightarrow> string list \<Rightarrow> string + string" where
  "import_path quote args = map_sum id (\<lambda>(fs, rest). flag_text fs ''file'') (parse_flags quote import_flags args)"

definition generate_defaults :: "(string \<Rightarrow> string) \<Rightarrow> flags" where
  "generate_defaults getenv =
     [(''words'', F_int 12), (''json'', F_bool False), (''scan'', F_bool False),
      (''api-url'', F_string ''http://127.0.0.1:8080''), (''api-key'', F_string (getenv ''SCANNER_API_KEY''))]"

definition read_generate_flags ::
  "(string \<Rightarrow> string) \<Rightarrow> (string \<Rightarrow> string) \<Rightarrow> string list \<Rightarrow> string + generate_flags" where
  "read_generate_flags quote getenv args =
     map_sum id
       (\<lambda>(fs, rest). \<lparr>gf_words = flag_int fs ''words'', gf_json = flag_bool fs ''json'',
          gf_scan = flag_bool fs ''scan'', gf_url = flag_text fs ''api-url'', gf_key = flag_text fs ''api-key'',
          gf_args = length rest\<rparr>)
       (parse_flags quote (generate_defaults getenv) args)"

section \<open>What the command lines mean\<close>

text \<open>A value given for a flag, written \<^verbatim>\<open>--name=value\<close>.\<close>

definition written :: "string \<times> string \<Rightarrow> string" where
  "written nx = ''--'' @ fst nx @ ''='' @ snd nx"

text \<open>A name that can be written: not empty, with no equals sign, and no minus in front.\<close>

definition plain_name :: "string \<Rightarrow> bool" where
  "plain_name name \<longleftrightarrow> name \<noteq> [] \<and> CHR ''='' \<notin> set name \<and> hd name \<noteq> CHR ''-''"

lemma written_name: "flag_name (written (name, x)) = name @ ''='' @ x"
  by (simp add: flag_name_def written_def)

lemma written_split:
  assumes "plain_name name"
  shows "split_value (name @ ''='' @ x) = (name, Some x)"
proof -
  obtain c cs where n: "name = c # cs" using assms by (cases name) (auto simp: plain_name_def)
  with assms have no: "\<And>y. y \<in> set cs \<Longrightarrow> y \<noteq> CHR ''=''" by (auto simp: plain_name_def)
  from no have "takeWhile (\<lambda>y. y \<noteq> CHR ''='') (cs @ CHR ''='' # x) = cs"
    and "dropWhile (\<lambda>y. y \<noteq> CHR ''='') (cs @ CHR ''='' # x) = CHR ''='' # x"
    by (simp_all add: takeWhile_append2 dropWhile_append2)
  then show ?thesis by (simp add: n split_value_def)
qed

lemma parseOne_written:
  assumes "plain_name name" and "map_of fs name = Some v"
  shows "parseOne quote fs (written (name, x) # args) = set_named quote fs name v x args"
proof -
  have w: "written (name, x) \<noteq> ''--''" "\<not> length (written (name, x)) < 2" "hd (written (name, x)) = CHR ''-''"
    using assms(1) by (auto simp: written_def plain_name_def)
  have h: "hd (name @ ''='' @ x) \<notin> {CHR ''-'', CHR ''=''}" "name @ ''='' @ x \<noteq> []"
    using assms(1) by (cases name; auto simp: plain_name_def)+
  show ?thesis
    unfolding parseOne_def list.case written_name
    using w h assms(2) by (simp add: written_split [OF assms(1)] del: append_Cons)
qed

text \<open>Integers as the command writes them are read back.\<close>

lemma digit_facts: "d < 10 \<Longrightarrow> ascii_lower (digit_char d) = digit_char d \<and> digit_char d \<noteq> CHR ''_'' \<and>
    (digit_char d = CHR ''0'' \<longrightarrow> d = 0)"
proof -
  have "list_all (\<lambda>d. ascii_lower (digit_char d) = digit_char d \<and> digit_char d \<noteq> CHR ''_'' \<and>
      (digit_char d = CHR ''0'' \<longrightarrow> d = 0)) [0..<10]"
    by code_simp
  then show "d < 10 \<Longrightarrow> ?thesis" by (simp add: list_all_iff)
qed

lemma digits_val_le: "digits_val b acc ds = Some m \<Longrightarrow> 0 < b \<Longrightarrow> acc \<le> m"
proof (induction b acc ds rule: digits_val.induct)
  case (2 b acc c cs)
  then obtain d where "digits_val b (acc * b + d) cs = Some m" "acc * b + d \<le> m"
    by (auto split: option.splits if_splits)
  moreover have "acc \<le> acc * b" using "2.prems" by simp
  ultimately show ?case by linarith
qed simp

lemma scan_digits_val:
  assumes "digits_val 10 acc ds = Some m" and "int m < 2 ^ 64"
    and "\<And>c. c \<in> set ds \<Longrightarrow> \<exists>d < 10. c = digit_char d"
  shows "scan_digits 10 (int acc) ds = Inr (int m)"
  using assms
proof (induction ds arbitrary: acc)
  case (Cons c ds)
  then obtain d where d: "d < 10" "c = digit_char d" by auto
  with Cons.prems(1) have v: "digits_val 10 (acc * 10 + d) ds = Some m" by (simp add: digit_val_char)
  then have "acc * 10 + d \<le> m" by (rule digits_val_le) simp
  then have "int acc * 10 + int d < 2 ^ 64" using Cons.prems(2) by linarith
  moreover have "scan_digits 10 (int (acc * 10 + d)) ds = Inr (int m)"
    by (rule Cons.IH [OF v Cons.prems(2)]) (use Cons.prems(3) in simp)
  ultimately show ?case using d digit_facts [OF d(1)] by (simp add: digit_val_char)
qed simp

lemma parse_uint0_show:
  assumes "int n < 2 ^ 64"
  shows "parse_uint0 (show_base 10 n) = Inr (int n)"
proof (cases "n = 0")
  case True
  have "parse_uint0 (show_base 10 0) = Inr 0" by code_simp
  with True show ?thesis by simp
next
  case False
  then obtain d where "0 < d" "d < 10" "hd (show_base 10 n) = digit_char d" using show_lead by blast
  then have "base_prefix (show_base 10 n) = (10, show_base 10 n)"
    using digit_facts [of d] by (auto simp: base_prefix_def)
  moreover have "scan_digits 10 (int 0) (show_base 10 n) = Inr (int n)"
    by (rule scan_digits_val [OF _ assms show_digits]) (simp_all add: digits_val_show_base)
  moreover have "CHR ''_'' \<notin> set (show_base 10 n)"
    using show_digits [of "CHR ''_''" n] digit_facts by fastforce
  ultimately show ?thesis by (simp add: parse_uint0_def)
qed

lemma parse_int0_show:
  assumes "- (2 ^ 63) \<le> n" and "n < 2 ^ 63"
  shows "parse_int0 (show_int n) = Inr n"
proof -
  have sign: "hd (show_base 10 k) \<notin> {CHR ''+'', CHR ''-''}" for k
    using hd_show_base [of 10 k] digit_char_not_sign by fastforce
  show ?thesis
  proof (cases "n < 0")
    case True
    then have "parse_uint0 (show_base 10 (nat (- n))) = Inr (- n)"
      using parse_uint0_show [of "nat (- n)"] assms by simp
    with True assms show ?thesis by (simp add: parse_int0_def show_int_def Let_def)
  next
    case False
    then have "parse_uint0 (show_base 10 (nat n)) = Inr n"
      using parse_uint0_show [of "nat n"] assms by simp
    with False assms sign [of "nat n"] show ?thesis by (simp add: parse_int0_def show_int_def Let_def)
  qed
qed

section \<open>Round trip\<close>

definition show_value :: "flag_value \<Rightarrow> string" where
  "show_value v =
     (case v of F_bool b \<Rightarrow> (if b then ''true'' else ''false'') | F_int n \<Rightarrow> show_int n | F_string s \<Rightarrow> s)"

text \<open>A value that fits the flag: of its kind, and an integer of 64 bits.\<close>

definition suits :: "flags \<Rightarrow> string \<times> flag_value \<Rightarrow> bool" where
  "suits fs nv \<longleftrightarrow> plain_name (fst nv) \<and>
     (case (map_of fs (fst nv), snd nv) of
        (Some (F_bool _), F_bool _) \<Rightarrow> True
      | (Some (F_int _), F_int n) \<Rightarrow> - (2 ^ 63) \<le> n \<and> n < 2 ^ 63
      | (Some (F_string _), F_string _) \<Rightarrow> True
      | _ \<Rightarrow> False)"

lemma suits_set:
  assumes "suits fs (name, v)"
  shows "\<exists>old. map_of fs name = Some old \<and> set_flag old (show_value v) = Inr v"
proof -
  have "parse_bool ''true'' = Some True" "parse_bool ''false'' = Some False" by code_simp+
  with assms show ?thesis
    by (auto simp: suits_def set_flag_def show_value_def parse_int0_show split: option.splits flag_value.splits)
qed

lemma suits_update:
  assumes "suits fs nv" and "suits fs (name, v)"
  shows "suits (AList.update name v fs) nv"
  using assms by (auto simp: suits_def update_conv' split: option.splits flag_value.splits)

definition written_value :: "string \<times> flag_value \<Rightarrow> string" where
  "written_value nv = written (fst nv, show_value (snd nv))"

lemma parse_flags_written:
  assumes "\<forall>nv \<in> set nvs. suits fs nv"
  shows "parse_flags quote fs (map written_value nvs @ ''--'' # rest) =
    Inr (fold (\<lambda>(name, v). AList.update name v) nvs fs, rest)"
  using assms
proof (induction nvs arbitrary: fs)
  case Nil
  then show ?case by (simp add: parse_flags.simps parseOne_def)
next
  case (Cons nv nvs)
  obtain name v where nv: "nv = (name, v)" by force
  with Cons.prems have s: "suits fs (name, v)" by simp
  then obtain old where old: "map_of fs name = Some old" "set_flag old (show_value v) = Inr v"
    using suits_set by blast
  have "plain_name name" using s by (simp add: suits_def)
  from parseOne_written [OF this old(1)] old(2)
  have "parseOne quote fs (written_value nv # map written_value nvs @ ''--'' # rest) =
      More (AList.update name v fs) (map written_value nvs @ ''--'' # rest)"
    by (simp add: written_value_def nv set_named_def)
  moreover have "\<forall>nv \<in> set nvs. suits (AList.update name v fs) nv"
    using Cons.prems s suits_update by simp
  ultimately show ?case using Cons.IH by (simp add: parse_flags.simps [of _ fs] nv)
qed

text \<open>
  C38: a command line means what was written. Whatever values are given for the flags of
  \<^verbatim>\<open>generate\<close> and \<^verbatim>\<open>import\<close> (any text, with spaces, quotes, minus or equals signs in it; any
  integer of 64 bits), written as \<^verbatim>\<open>--name=value\<close> and closed by \<^verbatim>\<open>--\<close>, these values and the
  number of further arguments are what the command reads.
\<close>

theorem command_line_round_trip:
  assumes "- (2 ^ 63) \<le> words" and "words < 2 ^ 63"
  shows "read_generate_flags quote getenv (map written_value
      [(''words'', F_int words), (''json'', F_bool json), (''scan'', F_bool scan),
       (''api-url'', F_string url), (''api-key'', F_string key)] @ ''--'' # rest) =
    Inr \<lparr>gf_words = words, gf_json = json, gf_scan = scan, gf_url = url, gf_key = key, gf_args = length rest\<rparr> \<and>
    import_path quote (written_value (''file'', F_string path) # ''--'' # rest) = Inr path"
proof -
  let ?nvs = "[(''words'', F_int words), (''json'', F_bool json), (''scan'', F_bool scan),
       (''api-url'', F_string url), (''api-key'', F_string key)]"
  have "\<forall>nv \<in> set ?nvs. suits (generate_defaults getenv) nv"
    using assms by (simp add: suits_def plain_name_def generate_defaults_def)
  note g = parse_flags_written [OF this, of quote rest]
  have "\<forall>nv \<in> set [(''file'', F_string path)]. suits import_flags nv"
    by (simp add: suits_def plain_name_def import_flags_def)
  note i = parse_flags_written [OF this, of quote rest]
  show ?thesis
    using g i unfolding read_generate_flags_def import_path_def
    by (simp add: flag_int_def flag_bool_def flag_text_def generate_defaults_def import_flags_def)
qed

theorem command_line_round_trip_witness:
  "import_path id [''--file=a=b'', ''--''] = Inr ''a=b''"
  using command_line_round_trip [of 0 id id False False "[]" "[]" "[]" "''a=b''"]
  by (simp add: written_value_def written_def show_value_def)

end
