(* ===== verification/Process.thy ===== *)
theory Process
  imports Lifetime Schema Flags
begin

text \<open>
  The process of \<^verbatim>\<open>cmd/wallet-scan/main.go\<close>: \<^verbatim>\<open>runWithIO\<close> from the arguments to the exit
  code. It connects to the database, migrates it, runs one command and gives back what it took:
  the pool of connections and the context that watches the signals.
\<close>

section \<open>The connection\<close>

text \<open>
  \<open>n\<close> pools are open. \<open>new\<close> and \<open>ping\<close> are what \<^verbatim>\<open>pgxpool.New\<close> and \<^verbatim>\<open>Ping\<close> return.
\<close>

definition Close_store :: "nat \<Rightarrow> nat" where
  "Close_store n = n - 1"

definition Open_store :: "string option \<Rightarrow> string option \<Rightarrow> nat \<Rightarrow> (string + unit) \<times> nat" where
  "Open_store new ping n =
     (case new of
        Some e \<Rightarrow> (Inl (''create database pool: '' @ e), n)
      | None \<Rightarrow>
          let opened = Suc n
          in case ping of
               Some e \<Rightarrow> (Inl (''ping database: '' @ e), Close_store opened)
             | None \<Rightarrow> (Inr (), opened))"

section \<open>The world and its parameters\<close>

text \<open>
  The database with its catalogue, the open pools and the contexts of \<^verbatim>\<open>NotifyContext\<close> that
  are not stopped.
\<close>

record world =
  wd_db :: db
  wd_catalogue :: catalogue
  wd_pools :: nat
  wd_signals :: nat

datatype report = Status_report status | Rows_report "string list list"

record ('k, 'p) process_env =
  pr_quote :: "string \<Rightarrow> string"
  pr_lower :: "string \<Rightarrow> string"
  pr_getenv :: "string \<Rightarrow> string"
  pr_new :: "string \<Rightarrow> string option"
  pr_ping :: "string option"
  pr_embedded :: "string + statement list"
  pr_faults :: "nat \<Rightarrow> fault"
  pr_now :: int
  pr_open_file :: "string \<Rightarrow> string + csv_read list"
  pr_uuid :: uuid
  pr_scan :: scan_env
  pr_ctx :: string
  pr_wecom :: wecom
  pr_clock :: int
  pr_time :: "int \<Rightarrow> string"
  pr_startup :: startup_env
  pr_crypto :: "('k, 'p) crypto"
  pr_serve :: "balance_service \<Rightarrow> string option"
  pr_generate :: generate_env
  pr_print :: "report \<Rightarrow> string option"

section \<open>One command\<close>

text \<open>The error of writing to the standard output comes after the reading.\<close>

definition printed_report ::
  "(report \<Rightarrow> string option) \<Rightarrow> ('a \<Rightarrow> report) \<Rightarrow> (db_error + 'a) \<times> db \<Rightarrow> (command_error + unit) \<times> db" where
  "printed_report print f x =
     (case x of
        (Inl e, d) \<Rightarrow> (Inl (Ce_db e), d)
      | (Inr a, d) \<Rightarrow> (case print (f a) of None \<Rightarrow> (Inr (), d) | Some e \<Rightarrow> (Inl (Ce_text e), d)))"

definition run_command ::
  "nat \<Rightarrow> ('k, 'p) process_env \<Rightarrow> command \<Rightarrow> string list \<Rightarrow> config \<Rightarrow> db \<Rightarrow>
   ((command_error + unit) \<times> db) option" where
  "run_command fuel P k args c d =
     (let E = se_db (pr_scan P)
      in case k of
           Import \<Rightarrow>
             (case import_path (pr_quote P) args of
                Inl e \<Rightarrow> Some (Inl (Ce_text e), d)
              | Inr path \<Rightarrow>
                  (case importCSV E (pr_lower P) path (pr_open_file P path) (pr_uuid P) d of
                     (r, d') \<Rightarrow> Some (map_sum id (\<lambda>_. ()) r, d')))
         | Scan \<Rightarrow> map_option (\<lambda>(r, st). (r, ss_db st)) (runScan fuel (pr_scan P) (pr_ctx P) (pr_wecom P) c d)
         | Status \<Rightarrow> Some (printed_report (pr_print P) Status_report (printStatus E d))
         | Retry_failed \<Rightarrow>
             map_option (\<lambda>(r, st). (r, ss_db st)) (retryFailed fuel (pr_scan P) (pr_ctx P) (pr_wecom P) c d)
         | Export_hits \<Rightarrow> Some (printed_report (pr_print P) Rows_report (ExportFindings E (pr_time P) d))
         | Cleanup \<Rightarrow>
             map_option (\<lambda>(r, d'). (map_sum Ce_db id r, d'))
               (runCleanupWith fuel E (pr_clock P) (cf_retention_days c) (cf_batch c) d)
         | Run \<Rightarrow>
             map_option (\<lambda>(r, d'). (case r of None \<Rightarrow> Inr () | Some e \<Rightarrow> Inl (Ce_text e), d'))
               (runService E (pr_clock P) (pr_startup P) (pr_crypto P) (pr_uuid P) c (pr_serve P) d))"

section \<open>The process\<close>

datatype process_error = Pe_text string | Pe_command command_error

definition command_name :: "string list \<Rightarrow> string" where
  "command_name args = (if args = [] then ''run'' else hd args)"

text \<open>The deferred calls, in their order: the pool first, then the context.\<close>

definition wind_up :: "world \<Rightarrow> world" where
  "wind_up w = w\<lparr>wd_pools := Close_store (wd_pools w), wd_signals := wd_signals w - 1\<rparr>"

definition with_store ::
  "nat \<Rightarrow> ('k, 'p) process_env \<Rightarrow> string list \<Rightarrow> config \<Rightarrow> world \<Rightarrow> ((process_error + unit) \<times> world) option" where
  "with_store fuel P args c w =
     (case Migrate (pr_embedded P) (pr_faults P) (pr_now P) (wd_catalogue w) of
        (Inl e, cat) \<Rightarrow> Some (Inl (Pe_text e), w\<lparr>wd_catalogue := cat\<rparr>)
      | (Inr _, cat) \<Rightarrow>
          let w' = w\<lparr>wd_catalogue := cat\<rparr>
          in case command_of (command_name args) of
               None \<Rightarrow> Some (Inl (Pe_text (unknown_text (pr_quote P) (command_name args))), w')
             | Some k \<Rightarrow>
                 map_option (\<lambda>(r, d). (map_sum Pe_command id r, w'\<lparr>wd_db := d\<rparr>))
                   (run_command fuel P k (tl args) c (wd_db w')))"

definition runWithIO ::
  "nat \<Rightarrow> ('k, 'p) process_env \<Rightarrow> string list \<Rightarrow> world \<Rightarrow> ((process_error + unit) \<times> world) option" where
  "runWithIO fuel P args w =
     (if args \<noteq> [] \<and> hd args = ''generate''
      then
        (case generateCommand (pr_generate P) (pr_crypto P)
                (read_generate_flags (pr_quote P) (pr_getenv P) (tl args)) of
           (None, out) \<Rightarrow> Some (Inr (), w)
         | (Some e, out) \<Rightarrow> Some (Inl (Pe_text e), w))
      else
        (case Load (pr_quote P) (pr_getenv P) of
           Inl e \<Rightarrow> Some (Inl (Pe_text e), w)
         | Inr c \<Rightarrow>
             let w1 = w\<lparr>wd_signals := Suc (wd_signals w)\<rparr>
             in case Open_store (pr_new P (cf_database_url c)) (pr_ping P) (wd_pools w1) of
                  (Inl e, n) \<Rightarrow>
                    Some (Inl (Pe_text e), w1\<lparr>wd_pools := n, wd_signals := wd_signals w1 - 1\<rparr>)
                | (Inr _, n) \<Rightarrow>
                    map_option (\<lambda>(r, w2). (r, wind_up w2)) (with_store fuel P args c (w1\<lparr>wd_pools := n\<rparr>))))"

text \<open>\<^verbatim>\<open>main\<close>: \<^verbatim>\<open>log.Fatal\<close> ends the process with 1.\<close>

definition main_exit :: "nat \<Rightarrow> ('k, 'p) process_env \<Rightarrow> string list \<Rightarrow> world \<Rightarrow> (int \<times> world) option" where
  "main_exit fuel P args w =
     map_option (\<lambda>(r, w'). (case r of Inl _ \<Rightarrow> 1 | Inr _ \<Rightarrow> 0, w')) (runWithIO fuel P args w)"

section \<open>What a process does\<close>

lemma run_command_ok:
  assumes "db_ok d" and "run_command fuel P k args c d = Some (r, d')"
  shows "db_ok d'"
proof -
  have "good (printStatus E)" "good (ExportFindings E fmt)" for E fmt
    unfolding printStatus_def by (intro good_rules)+
  note reads = this [THEN goodD, OF assms(1)]
  show ?thesis
  proof (cases k)
    case Import
    with assms goodD [OF good_importCSV assms(1)] show ?thesis
      by (auto simp: run_command_def Let_def split: sum.splits prod.splits) (metis snd_conv)+
  next
    case Status
    with assms(2) reads(1) show ?thesis
      by (auto simp: run_command_def printed_report_def Let_def split: sum.splits prod.splits option.splits)
        (metis snd_conv)+
  next
    case Export_hits
    with assms(2) reads(2) show ?thesis
      by (auto simp: run_command_def printed_report_def Let_def split: sum.splits prod.splits option.splits)
        (metis snd_conv)+
  qed (use assms in \<open>auto simp: run_command_def runCleanupWith_def Let_def
      intro: runScan_ok retryFailed_ok cleanup_loop_ok runService_ok\<close>)
qed

definition migrated :: "('k, 'p) process_env \<Rightarrow> world \<Rightarrow> bool" where
  "migrated P w \<longleftrightarrow> (\<exists>script. pr_embedded P = Inr script \<and> (\<forall>s \<in> set script. in_effect s (wd_catalogue w)))"

text \<open>The command was run: everything before it has succeeded.\<close>

definition command_ran ::
  "nat \<Rightarrow> ('k, 'p) process_env \<Rightarrow> string list \<Rightarrow> world \<Rightarrow> process_error + unit \<Rightarrow> world \<Rightarrow> bool" where
  "command_ran fuel P args w r w' \<longleftrightarrow> migrated P w' \<and>
     (\<exists>c k r'. Load (pr_quote P) (pr_getenv P) = Inr c \<and> pr_new P (cf_database_url c) = None \<and> pr_ping P = None \<and>
        command_of (command_name args) = Some k \<and>
        run_command fuel P k (tl args) c (wd_db w) = Some (r', wd_db w') \<and> r = map_sum Pe_command id r')"

lemma with_store_ok:
  assumes "with_store fuel P args c w = Some (r, w')" and "Load (pr_quote P) (pr_getenv P) = Inr c"
    and "pr_new P (cf_database_url c) = None" and "pr_ping P = None"
  shows "wd_pools w' = wd_pools w \<and> wd_signals w' = wd_signals w \<and>
    catalogue_kept (wd_catalogue w) (wd_catalogue w') \<and>
    (wd_db w' = wd_db w \<and> r \<noteq> Inr () \<or> command_ran fuel P args w r w')"
proof -
  obtain m cat where m: "Migrate (pr_embedded P) (pr_faults P) (pr_now P) (wd_catalogue w) = (m, cat)" by fastforce
  note keep = migration_keeps [OF m]
  show ?thesis
  proof (cases m)
    case (Inl e)
    with assms(1) m keep show ?thesis by (auto simp: with_store_def)
  next
    case (Inr x)
    then have "migrated P (w\<lparr>wd_catalogue := cat\<rparr>)" using keep by (auto simp: migrated_def)
    then have mig: "migrated P (w\<lparr>wd_catalogue := cat, wd_db := d\<rparr>)" for d by (simp add: migrated_def)
    show ?thesis
    proof (cases "command_of (command_name args)")
      case None
      with assms(1) m Inr keep show ?thesis by (auto simp: with_store_def)
    next
      case (Some k)
      with assms(1) m Inr obtain r' d where
        run: "run_command fuel P k (tl args) c (wd_db w) = Some (r', d)" and
        r: "r = map_sum Pe_command id r'" and w': "w' = w\<lparr>wd_catalogue := cat, wd_db := d\<rparr>"
        by (auto simp: with_store_def)
      have "command_ran fuel P args w r w'"
        unfolding command_ran_def using assms(2-4) run r mig Some by (auto simp: w')
      with keep w' show ?thesis by simp
    qed
  qed
qed

lemma Open_store_cases:
  "Open_store new ping n = (if new = None \<and> ping = None then (Inr (), Suc n) else (Inl (
     case new of Some e \<Rightarrow> ''create database pool: '' @ e | None \<Rightarrow> ''ping database: '' @ the ping), n))"
  by (auto simp: Open_store_def Close_store_def Let_def split: option.split)

text \<open>
  C14: a process accounts for what it does, on every path and whatever fails. The pool and the
  signal context it took are given back; the catalogue keeps every table, column and row;
  the database is left alone unless the configuration was accepted, the connection stood and
  the schema was complete, and then it is what the command leaves of it; the schema stays
  satisfied. Success (exit code 0) means that \<^verbatim>\<open>generate\<close> or the command has succeeded.
\<close>

theorem process_accounts:
  assumes "main_exit fuel P args w = Some (code, w')"
  shows "wd_pools w' = wd_pools w \<and> wd_signals w' = wd_signals w \<and>
    catalogue_kept (wd_catalogue w) (wd_catalogue w') \<and> (db_ok (wd_db w) \<longrightarrow> db_ok (wd_db w')) \<and>
    (wd_db w' = wd_db w \<or> (\<exists>r. command_ran fuel P args w r w')) \<and>
    (code = 0 \<longrightarrow> args \<noteq> [] \<and> hd args = ''generate'' \<and> w' = w \<or> command_ran fuel P args w (Inr ()) w')"
proof -
  from assms obtain r where run: "runWithIO fuel P args w = Some (r, w')"
    and code: "code = (case r of Inl _ \<Rightarrow> 1 | Inr _ \<Rightarrow> 0)"
    by (auto simp: main_exit_def)
  show ?thesis
  proof (cases "args \<noteq> [] \<and> hd args = ''generate''")
    case True
    with run have "w' = w" by (auto simp: runWithIO_def split: prod.splits option.splits)
    with True show ?thesis by simp
  next
    case False
    show ?thesis
    proof (cases "Load (pr_quote P) (pr_getenv P)")
      case (Inl e)
      with run False code show ?thesis by (auto simp: runWithIO_def)
    next
      case (Inr c)
      show ?thesis
      proof (cases "pr_new P (cf_database_url c) = None \<and> pr_ping P = None")
        case False
        with run \<open>\<not> (args \<noteq> [] \<and> hd args = ''generate'')\<close> Inr code show ?thesis
          by (auto simp: runWithIO_def Open_store_cases Let_def split: if_splits)
      next
        case True
        let ?w = "w\<lparr>wd_signals := Suc (wd_signals w), wd_pools := Suc (wd_pools w)\<rparr>"
        from run False Inr True obtain w2 where 2: "with_store fuel P args c ?w = Some (r, w2)"
          and w': "w' = wind_up w2"
          by (auto simp: runWithIO_def Open_store_cases Let_def)
        note ok = with_store_ok [OF 2 Inr True [THEN conjunct1] True [THEN conjunct2]]
        have ran: "command_ran fuel P args ?w r w2 \<longleftrightarrow> command_ran fuel P args w r w'" for r
          by (simp add: command_ran_def migrated_def w' wind_up_def)
        have "db_ok (wd_db w')" if "db_ok (wd_db w)" "command_ran fuel P args w r w'"
          using that run_command_ok by (auto simp: command_ran_def)
        moreover have "r = Inr ()" if "code = 0" using that code by (cases r) auto
        moreover from ok have "wd_pools w' = wd_pools w \<and> wd_signals w' = wd_signals w \<and>
            catalogue_kept (wd_catalogue w) (wd_catalogue w')"
          by (simp add: w' wind_up_def Close_store_def)
        moreover have "wd_db w' = wd_db w2" by (simp add: w' wind_up_def)
        with ok ran have "wd_db w' = wd_db w \<and> r \<noteq> Inr () \<or> command_ran fuel P args w r w'" by simp
        ultimately show ?thesis by metis
      qed
    qed
  qed
qed

section \<open>A process ends\<close>

lemma run_command_returns:
  assumes "db_ok d" and "length (addresses d) < fuel" and "open_count d < fuel" and "k \<noteq> Run"
  shows "run_command fuel P k args c d \<noteq> None"
proof (cases k)
  case Scan
  have "RunOnce fuel V s (scan_from h d) \<noteq> None" for V s h
    using RunOnce_returns [of "scan_from h d" fuel] assms(1,2) by (simp add: scan_from_def)
  with Scan show ?thesis
    by (auto simp: run_command_def runScan_def Let_def simp del: not_None_eq
        split: prod.split sum.split option.split)
next
  case Retry_failed
  with assms(3) retry_rounds_returns [of "scan_from h d" fuel for h] show ?thesis
    by (auto simp: run_command_def retryFailed_def scan_from_def Let_def split: prod.split)
next
  case Cleanup
  with assms(2) cleanup_loop_returns [of d fuel] show ?thesis
    by (auto simp: run_command_def runCleanupWith_def Let_def dest: option.discI)
qed (use assms(4) in \<open>simp_all add: run_command_def Let_def split: sum.split prod.split\<close>)

lemma command_of_Run: "command_of name = Some Run \<Longrightarrow> name = ''run''"
  by (auto simp: command_of_def split: if_splits)


section \<open>Witnesses\<close>

definition sample_process :: "(nat, nat) process_env" where
  "sample_process =
     \<lparr>pr_quote = id, pr_lower = id, pr_getenv = sample_getenv, pr_new = (\<lambda>url. None), pr_ping = None,
      pr_embedded = Inr initial_schema, pr_faults = no_faults, pr_now = 0,
      pr_open_file = (\<lambda>path. Inr [Inr [''address_type'', ''address''], Inr [''sol'', sample_sol],
        Inr [''sol'', sample_sol, ''again'']]),
      pr_uuid = 7, pr_scan = good_scan, pr_ctx = [], pr_wecom = sample_wecom, pr_clock = 0,
      pr_time = show_int, pr_startup = sample_startup,
      pr_crypto = toy_crypto, pr_serve = (\<lambda>s. None), pr_generate = sample_generate,
      pr_print = (\<lambda>r. None)\<rparr>"

definition empty_world :: world where
  "empty_world = \<lparr>wd_db = empty_db, wd_catalogue = empty_catalogue, wd_pools = 0, wd_signals = 0\<rparr>"

lemma sample_path: "import_path id [''--file=f''] = Inr ''f''"
  by code_simp

lemma fresh_migrates: "\<exists>c. Migrate (Inr initial_schema) no_faults 0 empty_catalogue = (Inr (), c)"
proof -
  have "fst (Migrate (Inr initial_schema) no_faults 0 empty_catalogue) = Inr ()" by code_simp
  then show ?thesis by (metis prod.collapse)
qed

lemma sample_import_process:
  "\<exists>w. main_exit n sample_process [''import'', ''--file=f''] empty_world = Some (0, w) \<and> wd_db w = sol_db"
proof -
  obtain c where m: "Migrate (Inr initial_schema) no_faults 0 empty_catalogue = (Inr (), c)"
    using fresh_migrates by blast
  have env: "se_db good_scan = sample_env" by (simp add: good_scan_def scan_sample_def)
  have "command_of ''import'' = Some Import" by (simp add: command_of_def)
  then show ?thesis
    using m env sol_import sample_path sample_loads [of id]
    by (simp add: main_exit_def runWithIO_def Let_def Open_store_cases with_store_def run_command_def
        sample_process_def empty_world_def command_name_def wind_up_def)
qed

theorem process_accounts_witness:
  "\<exists>w. main_exit 5 sample_process [''import'', ''--file=f''] empty_world = Some (0, w) \<and> wd_pools w = 0 \<and>
     command_ran 5 sample_process [''import'', ''--file=f''] empty_world (Inr ()) w"
proof -
  obtain w where "main_exit 5 sample_process [''import'', ''--file=f''] empty_world = Some (0, w)"
    using sample_import_process by blast
  from process_accounts [OF this] this show ?thesis by (auto simp: empty_world_def)
qed


end
