(* ===== verification/Serving.thy ===== *)
theory Serving
  imports Process
begin

text \<open>
  The goroutines of \<^verbatim>\<open>runService\<close> and \<^verbatim>\<open>ListenAndServe\<close>: the select of the command, the
  listener that sends its error into a channel of one place, and the goroutine that waits for
  the end of the context to shut the server down. Each step is one statement of one of them,
  or an event from outside: a signal, a request, a listener that fails.
\<close>

section \<open>States and steps\<close>

text \<open>The command: in the \<^verbatim>\<open>select\<close>; returning, with the deferred calls to come; ended.\<close>

datatype command_at = Selecting | Returning "string option" | Ended "string option"

text \<open>The listener: serving; \<^verbatim>\<open>ListenAndServe\<close> has returned; its result is sent.\<close>

datatype listener_at = Accepting | Result "string option" | Delivered

text \<open>The other goroutine: waiting for the context; inside \<^verbatim>\<open>Shutdown\<close>; past it.\<close>

datatype stopper_at = Waiting | Draining | Drained

record serving =
  sg_command :: command_at
  sg_errors :: "string option list"
  sg_listener :: listener_at
  sg_stopper :: stopper_at
  sg_cancelled :: bool
  sg_shutting :: bool
  sg_requests :: nat
  sg_store :: bool

definition serving_start :: serving where
  "serving_start =
     \<lparr>sg_command = Selecting, sg_errors = [], sg_listener = Accepting, sg_stopper = Waiting,
      sg_cancelled = False, sg_shutting = False, sg_requests = 0, sg_store = True\<rparr>"

datatype event =
    Signal
  | Request_in
  | Request_out
  | Listener_fails string
  | Listener_closed
  | Send_error
  | Receive_error
  | Context_done
  | Shutdown_begins
  | Shutdown_ends
  | Deferred

text \<open>
  \<^verbatim>\<open>Shutdown\<close> marks the server as closed, closes the listener and waits until no request is
  active; an \<^verbatim>\<open>Accept\<close> that fails after the mark is \<^verbatim>\<open>http.ErrServerClosed\<close>, which
  \<^verbatim>\<open>ListenAndServe\<close> turns into no error. The deferred calls of the command close the store
  and cancel the context.
\<close>

inductive serve_step :: "serving \<Rightarrow> event \<Rightarrow> serving \<Rightarrow> bool" where
  Signal: "\<not> sg_cancelled s \<Longrightarrow> serve_step s Signal (s\<lparr>sg_cancelled := True\<rparr>)"
| Request_in: "sg_listener s = Accepting \<Longrightarrow> \<not> sg_shutting s \<Longrightarrow>
    serve_step s Request_in (s\<lparr>sg_requests := Suc (sg_requests s)\<rparr>)"
| Request_out: "sg_requests s = Suc n \<Longrightarrow> serve_step s Request_out (s\<lparr>sg_requests := n\<rparr>)"
| Listener_fails: "sg_listener s = Accepting \<Longrightarrow> \<not> sg_shutting s \<Longrightarrow>
    serve_step s (Listener_fails e) (s\<lparr>sg_listener := Result (Some e)\<rparr>)"
| Listener_closed: "sg_listener s = Accepting \<Longrightarrow> sg_shutting s \<Longrightarrow>
    serve_step s Listener_closed (s\<lparr>sg_listener := Result None\<rparr>)"
| Send_error: "sg_listener s = Result v \<Longrightarrow> length (sg_errors s) < 1 \<Longrightarrow>
    serve_step s Send_error (s\<lparr>sg_errors := sg_errors s @ [v], sg_listener := Delivered\<rparr>)"
| Receive_error: "sg_command s = Selecting \<Longrightarrow> sg_errors s = v # vs \<Longrightarrow>
    serve_step s Receive_error (s\<lparr>sg_command := Returning v, sg_errors := vs\<rparr>)"
| Context_done: "sg_command s = Selecting \<Longrightarrow> sg_cancelled s \<Longrightarrow>
    serve_step s Context_done (s\<lparr>sg_command := Returning None\<rparr>)"
| Shutdown_begins: "sg_stopper s = Waiting \<Longrightarrow> sg_cancelled s \<Longrightarrow>
    serve_step s Shutdown_begins (s\<lparr>sg_stopper := Draining, sg_shutting := True\<rparr>)"
| Shutdown_ends: "sg_stopper s = Draining \<Longrightarrow> sg_requests s = 0 \<Longrightarrow>
    serve_step s Shutdown_ends (s\<lparr>sg_stopper := Drained\<rparr>)"
| Deferred: "sg_command s = Returning v \<Longrightarrow>
    serve_step s Deferred (s\<lparr>sg_command := Ended v, sg_store := False, sg_cancelled := True\<rparr>)"

inductive_cases serve_stepE: "serve_step s e t"

inductive_simps serve_step_simps:
  "serve_step s Signal t" "serve_step s Request_in t" "serve_step s Request_out t"
  "serve_step s (Listener_fails e) t" "serve_step s Listener_closed t" "serve_step s Send_error t"
  "serve_step s Receive_error t" "serve_step s Context_done t" "serve_step s Shutdown_begins t"
  "serve_step s Shutdown_ends t" "serve_step s Deferred t"

text \<open>The executions, with what has happened so far.\<close>

inductive served_to :: "event list \<Rightarrow> serving \<Rightarrow> bool" where
  Start: "served_to [] serving_start"
| Step: "served_to es s \<Longrightarrow> serve_step s e t \<Longrightarrow> served_to (es @ [e]) t"

section \<open>The invariant\<close>

definition outcome_of :: "command_at \<Rightarrow> string option option" where
  "outcome_of c = (case c of Selecting \<Rightarrow> None | Returning v \<Rightarrow> Some v | Ended v \<Rightarrow> Some v)"

text \<open>
  An error that is known somewhere is one with which the listener failed, the absence of one
  means that the context was cancelled; a result is in one place at a time, and the channel
  has room for it.
\<close>

definition explained_result :: "event list \<Rightarrow> string option \<Rightarrow> bool" where
  "explained_result es v \<longleftrightarrow>
     (case v of Some e \<Rightarrow> Listener_fails e \<in> set es | None \<Rightarrow> Signal \<in> set es \<or> Deferred \<in> set es)"

definition serving_ok :: "event list \<Rightarrow> serving \<Rightarrow> bool" where
  "serving_ok es s \<longleftrightarrow>
     (\<forall>v. sg_listener s = Result v \<longrightarrow> explained_result es v) \<and>
     (\<forall>v \<in> set (sg_errors s). explained_result es v) \<and>
     (\<forall>v. outcome_of (sg_command s) = Some v \<longrightarrow> explained_result es v \<and> (v = None \<longrightarrow> Signal \<in> set es)) \<and>
     (sg_listener s \<noteq> Delivered \<longrightarrow> sg_errors s = []) \<and> length (sg_errors s) \<le> 1 \<and>
     (sg_cancelled s \<longleftrightarrow> Signal \<in> set es \<or> Deferred \<in> set es) \<and>
     (sg_shutting s \<longleftrightarrow> sg_stopper s \<noteq> Waiting) \<and> (sg_stopper s \<noteq> Waiting \<longrightarrow> sg_cancelled s) \<and>
     (sg_store s \<longleftrightarrow> Deferred \<notin> set es) \<and>
     (Deferred \<in> set es \<longleftrightarrow> (\<exists>v. sg_command s = Ended v))"

lemma explained_more: "explained_result es v \<Longrightarrow> explained_result (es @ [e]) v"
  by (auto simp: explained_result_def split: option.splits)

lemma serving_ok_step:
  assumes "serving_ok es s" and "serve_step s e t"
  shows "serving_ok (es @ [e]) t"
  using assms(2)
  by cases (use assms(1) in \<open>auto simp: serving_ok_def outcome_of_def explained_result_def split: option.splits\<close>)

lemma served_ok: "served_to es s \<Longrightarrow> serving_ok es s"
  by (induction rule: served_to.induct)
    (simp add: serving_ok_def serving_start_def outcome_of_def, rule serving_ok_step)

section \<open>Theorems\<close>


text \<open>The steps of the program itself; the others are requests.\<close>

definition own_event :: "event \<Rightarrow> bool" where
  "own_event e \<longleftrightarrow> e \<noteq> Request_in \<and> e \<noteq> Request_out"

definition to_come :: "serving \<Rightarrow> nat" where
  "to_come s =
     (case sg_command s of Selecting \<Rightarrow> 2 | Returning v \<Rightarrow> 1 | Ended v \<Rightarrow> 0) +
     (case sg_listener s of Accepting \<Rightarrow> 2 | Result v \<Rightarrow> 1 | Delivered \<Rightarrow> 0) +
     (case sg_stopper s of Waiting \<Rightarrow> 2 | Draining \<Rightarrow> 1 | Drained \<Rightarrow> 0) +
     (if sg_cancelled s then 0 else 1)"

lemma serve_step_counts: "serve_step s e t \<Longrightarrow> to_come t + (if own_event e then 1 else 0) \<le> to_come s"
  by (erule serve_stepE) (auto simp: to_come_def own_event_def)

lemma own_events_bounded: "served_to es s \<Longrightarrow> length (filter own_event es) + to_come s \<le> 7"
proof (induction rule: served_to.induct)
  case (Step es s e t)
  then show ?case using serve_step_counts [OF Step.hyps(2)] by (auto split: if_splits)
qed (simp add: to_come_def serving_start_def)

text \<open>
  C28: the service ends after the signal. Its goroutines make at most seven steps in all, in
  any execution, however many requests come and go; and after the signal they only come to
  rest when the command has ended.
\<close>

theorem serve_ends:
  assumes "served_to es s"
  shows "length (filter own_event es) \<le> 7 \<and>
    (Signal \<in> set es \<and> (\<forall>e t. own_event e \<longrightarrow> \<not> serve_step s e t) \<longrightarrow> (\<exists>v. sg_command s = Ended v))"
proof -
  have "\<exists>e t. own_event e \<and> serve_step s e t" if "Signal \<in> set es" "\<nexists>v. sg_command s = Ended v"
  proof (cases "sg_command s")
    case Selecting
    moreover have "sg_cancelled s" using served_ok [OF assms] that(1) by (simp add: serving_ok_def)
    ultimately have "\<exists>t. serve_step s Context_done t" by (simp add: serve_step_simps)
    then show ?thesis by (auto simp: own_event_def)
  next
    case (Returning v)
    then have "\<exists>t. serve_step s Deferred t" by (simp add: serve_step_simps)
    then show ?thesis by (auto simp: own_event_def)
  qed (use that(2) in simp)
  with own_events_bounded [OF assms] show ?thesis by auto
qed

text \<open>
  The shutdown is not waited for: with a request active, the command can end and close the
  store before \<^verbatim>\<open>Shutdown\<close> has begun.
\<close>

definition cut_off :: serving where
  "cut_off =
     \<lparr>sg_command = Ended None, sg_errors = [], sg_listener = Accepting, sg_stopper = Waiting,
      sg_cancelled = True, sg_shutting = False, sg_requests = 1, sg_store = False\<rparr>"

lemma served_steps:
  "served_to es s \<Longrightarrow> serve_step s e t \<Longrightarrow> serve_step t f u \<Longrightarrow> served_to (es @ [e, f]) u"
  using Step [OF Step [of es s e t], of f u] by simp

lemma cut_off_served: "served_to [Request_in, Signal, Context_done, Deferred] cut_off"
proof -
  let ?a = "serving_start\<lparr>sg_requests := 1\<rparr>"
  let ?b = "?a\<lparr>sg_cancelled := True\<rparr>"
  have "serve_step serving_start Request_in ?a" "serve_step ?a Signal ?b"
    "serve_step ?b Context_done (?b\<lparr>sg_command := Returning None\<rparr>)"
    "serve_step (?b\<lparr>sg_command := Returning None\<rparr>) Deferred cut_off"
    by (simp_all add: serve_step_simps serving_start_def cut_off_def)
  from served_steps [OF served_steps [OF Start this(1,2)] this(3,4)] show ?thesis by simp
qed

theorem shutdown_not_awaited:
  "\<exists>es s. served_to es s \<and> sg_command s = Ended None \<and> sg_requests s = 1 \<and> sg_stopper s = Waiting \<and> \<not> sg_store s"
  using cut_off_served by (intro exI) (auto simp: cut_off_def)


theorem serve_ends_witness:
  "length (filter own_event [Request_in, Signal, Context_done, Deferred]) \<le> 7 \<and> sg_command cut_off = Ended None"
  using serve_ends [OF cut_off_served] by (simp add: cut_off_def)

end
