(* ===== verification/Json.thy ===== *)
theory Json
  imports Prelude
begin

text \<open>
  The parts of \<^verbatim>\<open>encoding/json\<close> that the sources use: \<^verbatim>\<open>Marshal\<close> on strings, integers,
  booleans, arrays and maps, and \<^verbatim>\<open>Decoder.Decode\<close> into the response structs. A text is a
  sequence of bytes; strings that are not UTF-8 are repaired the way the package does it.
\<close>

datatype json =
    JNull
  | JBool bool
  | JNum string
  | JStr string
  | JArr "json list"
  | JObj "(string \<times> json) list"

definition bslash :: char where
  "bslash = CHR 0x5C"

definition dquote :: char where
  "dquote = CHR 0x22"

section \<open>UTF-8\<close>

definition byte :: "char \<Rightarrow> nat" where
  "byte c = of_char c"

definition between :: "nat \<Rightarrow> nat \<Rightarrow> char \<Rightarrow> bool" where
  "between lo hi c \<longleftrightarrow> lo \<le> byte c \<and> byte c \<le> hi"

text \<open>The length of the sequence in front of a string that begins one, 0 if it is not valid.\<close>

definition utf8_len :: "string \<Rightarrow> nat" where
  "utf8_len s =
     (case s of
        [] \<Rightarrow> 0
      | c # _ \<Rightarrow>
          let b = byte c in
          if 194 \<le> b \<and> b \<le> 223 then (if 2 \<le> length s \<and> between 128 191 (s ! 1) then 2 else 0)
          else if 224 \<le> b \<and> b \<le> 239 then
            (if 3 \<le> length s \<and> between (if b = 224 then 160 else 128) (if b = 237 then 159 else 191) (s ! 1) \<and>
                between 128 191 (s ! 2) then 3 else 0)
          else if 240 \<le> b \<and> b \<le> 244 then
            (if 4 \<le> length s \<and> between (if b = 240 then 144 else 128) (if b = 244 then 143 else 191) (s ! 1) \<and>
                between 128 191 (s ! 2) \<and> between 128 191 (s ! 3) then 4 else 0)
          else 0)"

lemma utf8_len_le: "utf8_len s \<le> length s"
  by (auto simp: utf8_len_def Let_def split: list.splits)

definition utf8_encode :: "nat \<Rightarrow> string" where
  "utf8_encode r =
     (if r < 128 then bytes [r]
      else if r < 2048 then bytes [192 + r div 64, 128 + r mod 64]
      else if r < 65536 then bytes [224 + r div 4096, 128 + r div 64 mod 64, 128 + r mod 64]
      else bytes [240 + r div 262144, 128 + r div 4096 mod 64, 128 + r div 64 mod 64, 128 + r mod 64])"

definition replacement :: nat where
  "replacement = 65533"

section \<open>Strings\<close>

text \<open>The bytes that are written as they are: \<^verbatim>\<open>Marshal\<close> also escapes what HTML would read.\<close>

definition plain_byte :: "char \<Rightarrow> bool" where
  "plain_byte c \<longleftrightarrow> between 32 127 c \<and> c \<notin> {dquote, bslash, CHR ''<'', CHR ''>'', CHR ''&''}"

definition short_escapes :: "(char \<times> char) list" where
  "short_escapes =
     [(dquote, dquote), (bslash, bslash), (CHR 0x08, CHR ''b''), (CHR 0x0C, CHR ''f''),
      (CHR 0x0A, CHR ''n''), (CHR 0x0D, CHR ''r''), (CHR 0x09, CHR ''t'')]"

definition hex4 :: "nat \<Rightarrow> string" where
  "hex4 n = [digit_char (n div 4096), digit_char (n div 256 mod 16), digit_char (n div 16 mod 16), digit_char (n mod 16)]"

definition escaped_ascii :: "char \<Rightarrow> string" where
  "escaped_ascii c =
     (if plain_byte c then [c]
      else
        (case map_of short_escapes c of
           Some e \<Rightarrow> [bslash, e]
         | None \<Rightarrow> bslash # CHR ''u'' # hex4 (byte c)))"

text \<open>The sequences of U+2028 and U+2029, which JavaScript would take for line ends.\<close>

definition line_ends :: "(string \<times> nat) list" where
  "line_ends = [(bytes [226, 128, 168], 8232), (bytes [226, 128, 169], 8233)]"

function escaped :: "string \<Rightarrow> string" where
  "escaped [] = []"
| "escaped (c # cs) =
     (if byte c < 128 then escaped_ascii c @ escaped cs
      else
        (let n = utf8_len (c # cs) in
         if n < 2 then bslash # CHR ''u'' # hex4 replacement @ escaped cs
         else
           (case map_of line_ends (take 3 (c # cs)) of
              Some r \<Rightarrow> bslash # CHR ''u'' # hex4 r @ escaped (drop n (c # cs))
            | None \<Rightarrow> take n (c # cs) @ escaped (drop n (c # cs)))))"
  by pat_completeness auto
termination
  by (relation "measure length") auto

definition quoted :: "string \<Rightarrow> string" where
  "quoted s = dquote # escaped s @ [dquote]"

text \<open>One character of a string literal: its end, an error, or a piece of the value.\<close>

datatype literal_piece = Closed string | Broken | Piece string string

definition hex_value :: "string \<Rightarrow> nat option" where
  "hex_value s =
     (if length s = 4 \<and> list_all (\<lambda>c. case digit_val c of None \<Rightarrow> False | Some d \<Rightarrow> d < 16) s
      then digits_val 16 0 s else None)"

text \<open>
  \<^verbatim>\<open>\uXXXX\<close>: two surrogates in a row are one character, a surrogate alone is replaced.
\<close>

definition unicode_escape :: "string \<Rightarrow> literal_piece" where
  "unicode_escape s =
     (case hex_value (take 4 s) of
        None \<Rightarrow> Broken
      | Some r \<Rightarrow>
          let rest = drop 4 s in
          if r < 55296 \<or> 57343 < r then Piece (utf8_encode r) rest
          else
            (case (if take 2 rest = [bslash, CHR ''u''] then hex_value (take 4 (drop 2 rest)) else None) of
               Some r2 \<Rightarrow>
                 if r < 56320 \<and> 56320 \<le> r2 \<and> r2 \<le> 57343
                 then Piece (utf8_encode (65536 + (r - 55296) * 1024 + (r2 - 56320))) (drop 6 rest)
                 else Piece (utf8_encode replacement) rest
             | None \<Rightarrow> Piece (utf8_encode replacement) rest))"

definition literal_step :: "string \<Rightarrow> literal_piece" where
  "literal_step s =
     (case s of
        [] \<Rightarrow> Broken
      | c # cs \<Rightarrow>
          if c = dquote then Closed cs
          else if c = bslash then
            (case cs of
               [] \<Rightarrow> Broken
             | e # rest \<Rightarrow>
                 if e = CHR ''u'' then unicode_escape rest
                 else if e = CHR ''/'' then Piece ''/'' rest
                 else
                   (case map_of (map prod.swap short_escapes) e of
                      None \<Rightarrow> Broken | Some x \<Rightarrow> Piece [x] rest))
          else if byte c < 32 then Broken
          else if byte c < 128 then Piece [c] cs
          else if utf8_len s < 2 then Piece (utf8_encode replacement) cs
          else Piece (take (utf8_len s) s) (drop (utf8_len s) s))"

lemma literal_step_shorter:
  assumes "literal_step s = Piece p rest"
  shows "length rest < length s"
proof (cases s)
  case (Cons c cs)
  have u: "unicode_escape t = Piece p rest \<Longrightarrow> length rest \<le> length t" for t
    by (auto simp: unicode_escape_def Let_def split: option.splits if_splits)
  have "length (drop n s) < length s" if "2 \<le> n" for n using that Cons by simp
  with assms u Cons show ?thesis
    by (auto simp: literal_step_def split: if_splits list.splits option.splits
        dest!: u simp del: length_drop)
qed (use assms in \<open>simp add: literal_step_def\<close>)

function read_literal :: "string \<Rightarrow> (string \<times> string) option" where
  "read_literal s =
     (case literal_step s of
        Closed rest \<Rightarrow> Some ([], rest)
      | Broken \<Rightarrow> None
      | Piece p rest \<Rightarrow> map_option (\<lambda>(v, r). (p @ v, r)) (read_literal rest))"
  by pat_completeness auto
termination
  by (relation "measure length") (auto dest: literal_step_shorter)

declare read_literal.simps [simp del]

text \<open>A string of UTF-8 is read back.\<close>

lemma hex_digit: "d < 16 \<Longrightarrow> digit_val (digit_char d) = Some d"
  by (rule digit_val_char) simp

lemma hex4_value: "n < 65536 \<Longrightarrow> hex_value (hex4 n) = Some n"
proof -
  assume n: "n < 65536"
  then have "n div 4096 < 16" by (simp add: less_mult_imp_div_less)
  moreover have "n div 4096 = n div 256 div 16" "n div 256 = n div 16 div 16"
    by (simp_all flip: div_mult2_eq)
  then have "((n div 4096 * 16 + n div 256 mod 16) * 16 + n div 16 mod 16) * 16 + n mod 16 = n"
    by (metis div_mult_mod_eq)
  ultimately show ?thesis by (simp add: hex_value_def hex4_def hex_digit)
qed

lemma escaped_ascii_step:
  assumes "byte c < 128"
  shows "literal_step (escaped_ascii c @ rest) = Piece [c] rest"
proof (cases "plain_byte c")
  case True
  then show ?thesis by (simp add: escaped_ascii_def literal_step_def plain_byte_def between_def)
next
  case False
  show ?thesis
  proof (cases "map_of short_escapes c")
    case (Some e)
    with False show ?thesis
      by (auto simp: escaped_ascii_def literal_step_def short_escapes_def bslash_def dquote_def split: if_splits)
  next
    case None
    have "hex_value (hex4 (byte c)) = Some (byte c)" using assms by (simp add: hex4_value)
    moreover have "utf8_encode (byte c) = [c]" using assms by (simp add: utf8_encode_def bytes_def byte_def)
    moreover have "length (hex4 (byte c)) = 4" by (simp add: hex4_def)
    ultimately have "unicode_escape (hex4 (byte c) @ rest) = Piece [c] rest"
      using assms by (simp add: unicode_escape_def)
    moreover have "bslash \<noteq> dquote" by (simp add: bslash_def dquote_def)
    ultimately show ?thesis using False None by (simp add: escaped_ascii_def literal_step_def)
  qed
qed

lemma is_ascii_bytes: "is_ascii s \<longleftrightarrow> (\<forall>c \<in> set s. byte c < 128)"
  by (simp add: is_ascii_def list_all_iff byte_def)

text \<open>The strings that are UTF-8: ASCII characters and whole sequences.\<close>

function utf8_ok :: "string \<Rightarrow> bool" where
  "utf8_ok [] \<longleftrightarrow> True"
| "utf8_ok (c # cs) \<longleftrightarrow>
     (if byte c < 128 then utf8_ok cs
      else 2 \<le> utf8_len (c # cs) \<and> utf8_ok (drop (max 1 (utf8_len (c # cs))) (c # cs)))"
  by pat_completeness auto
termination
  by (relation "measure length") (auto simp: max_def)

declare utf8_ok.simps [simp del]

lemma utf8_ok_Nil [simp]: "utf8_ok []"
  by (simp add: utf8_ok.simps)

lemma utf8_ok_ascii [simp]: "is_ascii s \<Longrightarrow> utf8_ok s"
  by (induction s) (simp_all add: utf8_ok.simps is_ascii_bytes)

lemma utf8_len_two: "utf8_len (c # d # r) = 2 \<longleftrightarrow> 194 \<le> byte c \<and> byte c \<le> 223 \<and> between 128 191 d"
  by (cases "194 \<le> byte c \<and> byte c \<le> 223") (auto simp: utf8_len_def Let_def split: if_splits)

lemma utf8_len_three:
  "utf8_len (c # d # e # r) = 3 \<longleftrightarrow>
     224 \<le> byte c \<and> byte c \<le> 239 \<and>
     between (if byte c = 224 then 160 else 128) (if byte c = 237 then 159 else 191) d \<and> between 128 191 e"
  by (cases "224 \<le> byte c \<and> byte c \<le> 239")
    (auto simp: utf8_len_def Let_def numeral_2_eq_2 split: if_splits)

lemma utf8_len_four:
  "utf8_len (c # d # e # f # r) = 4 \<longleftrightarrow>
     240 \<le> byte c \<and> byte c \<le> 244 \<and>
     between (if byte c = 240 then 144 else 128) (if byte c = 244 then 143 else 191) d \<and>
     between 128 191 e \<and> between 128 191 f"
  by (cases "240 \<le> byte c \<and> byte c \<le> 244")
    (auto simp: utf8_len_def Let_def numeral_2_eq_2 numeral_3_eq_3 split: if_splits)

lemma utf8_len_cases: "2 \<le> utf8_len s \<Longrightarrow> utf8_len s \<in> {2, 3, 4}"
  by (auto simp: utf8_len_def Let_def split: list.splits if_splits)

lemma utf8_len_front:
  assumes "2 \<le> utf8_len s"
  shows "utf8_len (take (utf8_len s) s @ rest) = utf8_len s"
proof -
  have len: "utf8_len s \<le> length s" by (rule utf8_len_le)
  have four: "(4 :: nat) = Suc (Suc (Suc (Suc 0)))" by simp
  from utf8_len_cases [OF assms] consider "utf8_len s = 2" | "utf8_len s = 3" | "utf8_len s = 4" by blast
  then show ?thesis
  proof cases
    case 1
    with len obtain c d r where s: "s = c # d # r" by (auto simp: numeral_2_eq_2 Suc_le_length_iff)
    with 1 show ?thesis using utf8_len_two [of c d] by simp
  next
    case 2
    with len obtain c d e r where s: "s = c # d # e # r" by (auto simp: numeral_3_eq_3 Suc_le_length_iff)
    with 2 show ?thesis using utf8_len_three [of c d e] by (simp add: numeral_3_eq_3)
  next
    case 3
    with len obtain c d e f r where s: "s = c # d # e # f # r" by (auto simp: four Suc_le_length_iff)
    with 3 show ?thesis using utf8_len_four [of c d e f] by (simp add: four)
  qed
qed

lemma sequence_step:
  assumes "128 \<le> byte c" and "2 \<le> utf8_len (c # cs)"
  shows "literal_step (take (utf8_len (c # cs)) (c # cs) @ rest) = Piece (take (utf8_len (c # cs)) (c # cs)) rest"
proof -
  let ?s = "c # cs" let ?n = "utf8_len ?s"
  obtain ds where t: "take ?n ?s @ rest = c # ds" using assms(2) by (cases ?n) auto
  have c: "c \<noteq> dquote" "c \<noteq> bslash" using assms(1) by (auto simp: dquote_def bslash_def byte_def)
  have "utf8_len (c # ds) = ?n" using utf8_len_front [OF assms(2), of rest] unfolding t .
  then have "literal_step (c # ds) = Piece (take ?n (c # ds)) (drop ?n (c # ds))"
    using assms c by (simp only: literal_step_def list.case if_False) simp
  moreover have "?n \<le> length ?s" by (rule utf8_len_le)
  ultimately show ?thesis unfolding t [symmetric] by simp
qed

lemma line_end_step:
  assumes "map_of line_ends (take 3 (c # cs)) = Some r"
  shows "utf8_len (c # cs) = 3"
    and "literal_step (bslash # CHR ''u'' # hex4 r @ rest) = Piece (take 3 (c # cs)) rest"
proof -
  have r: "r \<in> {8232, 8233} \<and> take 3 (c # cs) = bytes [226, 128, if r = 8232 then 168 else 169]"
    using assms by (auto simp: line_ends_def split: if_splits)
  then have "length (take 3 (c # cs)) = 3" by (simp add: bytes_def)
  then have "3 \<le> length (c # cs)" by simp
  then obtain d e ds where s: "c # cs = c # d # e # ds" by (auto simp: Suc_le_length_iff numeral_3_eq_3)
  with r have cde: "[c, d, e] = bytes [226, 128, if r = 8232 then 168 else 169]" by (simp add: numeral_3_eq_3)
  have b: "byte (char_of n) = n mod 256" for n :: nat by (simp add: byte_def)
  have "byte c = 226" "byte d = 128" "byte e = (if r = 8232 then 168 else 169)"
    using cde by (auto simp: bytes_def b)
  then show "utf8_len (c # cs) = 3" by (simp add: s utf8_len_three between_def)
  have "hex_value (hex4 r) = Some r" using r by (intro hex4_value) auto
  moreover have "length (hex4 r) = 4" by (simp add: hex4_def)
  moreover have "utf8_encode r = take 3 (c # cs)" using r by (auto simp: utf8_encode_def)
  moreover have "r < 55296" using r by auto
  ultimately show "literal_step (bslash # CHR ''u'' # hex4 r @ rest) = Piece (take 3 (c # cs)) rest"
    by (simp add: literal_step_def unicode_escape_def bslash_def dquote_def)
qed

lemma read_escaped: "utf8_ok s \<Longrightarrow> read_literal (escaped s @ dquote # rest) = Some (s, rest)"
proof (induction s rule: escaped.induct)
  case 1
  then show ?case by (simp add: read_literal.simps literal_step_def)
next
  case (2 c cs)
  let ?n = "utf8_len (c # cs)"
  show ?case
  proof (cases "byte c < 128")
    case True
    with 2 show ?thesis
      by (simp add: read_literal.simps [of "escaped_ascii c @ _"] escaped_ascii_step utf8_ok.simps(2) [of c cs])
  next
    case False
    with 2(5) have n: "2 \<le> ?n" and ok: "utf8_ok (drop ?n (c # cs))"
      by (simp_all add: utf8_ok.simps(2) [of c cs] max_def split: if_splits)
    have whole: "take ?n (c # cs) @ drop ?n (c # cs) = c # cs" by (rule append_take_drop_id)
    show ?thesis
    proof (cases "map_of line_ends (take 3 (c # cs))")
      case None
      with 2(3) [OF False refl] n ok
      have "read_literal (escaped (drop ?n (c # cs)) @ dquote # rest) = Some (drop ?n (c # cs), rest)" by simp
      with False n None whole show ?thesis
        by (simp add: Let_def read_literal.simps [of "take _ _ @ _"] sequence_step)
    next
      case (Some r)
      with 2(4) [OF False refl] n ok
      have "read_literal (escaped (drop ?n (c # cs)) @ dquote # rest) = Some (drop ?n (c # cs), rest)" by simp
      with False n Some whole line_end_step [OF Some] show ?thesis
        by (simp add: Let_def read_literal.simps [of "bslash # _"])
    qed
  qed
qed

section \<open>Values\<close>

fun marshal :: "json \<Rightarrow> string"
  and marshal_items :: "json list \<Rightarrow> string"
  and marshal_members :: "(string \<times> json) list \<Rightarrow> string" where
  "marshal JNull = ''null''"
| "marshal (JBool b) = (if b then ''true'' else ''false'')"
| "marshal (JNum t) = t"
| "marshal (JStr s) = quoted s"
| "marshal (JArr vs) = CHR ''['' # marshal_items vs @ '']''"
| "marshal (JObj ms) = CHR ''{'' # marshal_members ms @ ''}''"
| "marshal_items [] = []"
| "marshal_items (v # vs) = marshal v @ (if vs = [] then [] else CHR '','' # marshal_items vs)"
| "marshal_members [] = []"
| "marshal_members ((k, v) # ms) =
     quoted k @ '':'' @ marshal v @ (if ms = [] then [] else CHR '','' # marshal_members ms)"

definition is_digit_char :: "char \<Rightarrow> bool" where
  "is_digit_char c \<longleftrightarrow> between 48 57 c"

definition skip_blanks :: "string \<Rightarrow> string" where
  "skip_blanks s = dropWhile (\<lambda>c. byte c \<in> {9, 10, 13, 32}) s"

definition digits_of :: "string \<Rightarrow> (string \<times> string) option" where
  "digits_of s =
     (if takeWhile is_digit_char s = [] then None
      else Some (takeWhile is_digit_char s, dropWhile is_digit_char s))"

text \<open>\<^verbatim>\<open>-? (0 | [1-9][0-9]*) (. [0-9]+)? ([eE][+-]?[0-9]+)?\<close>: a number and what follows it.\<close>

definition read_int_part :: "string \<Rightarrow> (string \<times> string) option" where
  "read_int_part s =
     (case s of
        [] \<Rightarrow> None
      | c # cs \<Rightarrow> if c = CHR ''0'' then Some (''0'', cs) else digits_of s)"

definition read_fraction :: "string \<Rightarrow> (string \<times> string) option" where
  "read_fraction s =
     (case s of
        [] \<Rightarrow> Some ([], [])
      | c # cs \<Rightarrow>
          if c = CHR ''.'' then map_option (\<lambda>(d, r). (c # d, r)) (digits_of cs) else Some ([], s))"

definition read_exponent :: "string \<Rightarrow> (string \<times> string) option" where
  "read_exponent s =
     (case s of
        [] \<Rightarrow> Some ([], [])
      | c # cs \<Rightarrow>
          if c \<in> {CHR ''e'', CHR ''E''} then
            (case cs of
               [] \<Rightarrow> None
             | e # es \<Rightarrow>
                 if e \<in> {CHR ''+'', CHR ''-''} then map_option (\<lambda>(d, r). (c # e # d, r)) (digits_of es)
                 else map_option (\<lambda>(d, r). (c # d, r)) (digits_of cs))
          else Some ([], s))"

definition read_number :: "string \<Rightarrow> (string \<times> string) option" where
  "read_number s =
     (let (sign, t) = (case s of [] \<Rightarrow> ([], []) | c # cs \<Rightarrow> if c = CHR ''-'' then ([c], cs) else ([], s)) in
      case read_int_part t of
        None \<Rightarrow> None
      | Some (i, t1) \<Rightarrow>
          (case read_fraction t1 of
             None \<Rightarrow> None
           | Some (f, t2) \<Rightarrow>
               (case read_exponent t2 of
                  None \<Rightarrow> None
                | Some (e, t3) \<Rightarrow> Some (sign @ i @ f @ e, t3))))"

definition read_word :: "string \<Rightarrow> json \<Rightarrow> string \<Rightarrow> (json \<times> string) option" where
  "read_word w v s = (if has_prefix s w then Some (v, drop (length w) s) else None)"

text \<open>
  A value and what follows it. The first argument is fuel; each call that is not for a part of
  the same string spends a byte, so two for every byte are enough.
\<close>

fun read_value :: "nat \<Rightarrow> string \<Rightarrow> (json \<times> string) option"
  and read_items :: "nat \<Rightarrow> string \<Rightarrow> (json list \<times> string) option"
  and read_members :: "nat \<Rightarrow> string \<Rightarrow> ((string \<times> json) list \<times> string) option" where
  "read_value 0 s = None"
| "read_value (Suc n) s =
     (case skip_blanks s of
        [] \<Rightarrow> None
      | c # cs \<Rightarrow>
          if c = dquote then map_option (\<lambda>(v, r). (JStr v, r)) (read_literal cs)
          else if c = CHR ''['' then
            (case skip_blanks cs of
               [] \<Rightarrow> None
             | d # ds \<Rightarrow>
                 if d = CHR '']'' then Some (JArr [], ds)
                 else map_option (\<lambda>(vs, r). (JArr vs, r)) (read_items n cs))
          else if c = CHR ''{'' then
            (case skip_blanks cs of
               [] \<Rightarrow> None
             | d # ds \<Rightarrow>
                 if d = CHR ''}'' then Some (JObj [], ds)
                 else map_option (\<lambda>(ms, r). (JObj ms, r)) (read_members n cs))
          else if c = CHR ''t'' then read_word ''true'' (JBool True) (c # cs)
          else if c = CHR ''f'' then read_word ''false'' (JBool False) (c # cs)
          else if c = CHR ''n'' then read_word ''null'' JNull (c # cs)
          else map_option (\<lambda>(t, r). (JNum t, r)) (read_number (c # cs)))"
| "read_items 0 s = None"
| "read_items (Suc n) s =
     (case read_value n s of
        None \<Rightarrow> None
      | Some (v, r) \<Rightarrow>
          (case skip_blanks r of
             [] \<Rightarrow> None
           | d # ds \<Rightarrow>
               if d = CHR '']'' then Some ([v], ds)
               else if d = CHR '','' then map_option (\<lambda>(vs, t). (v # vs, t)) (read_items n ds)
               else None))"
| "read_members 0 s = None"
| "read_members (Suc n) s =
     (case skip_blanks s of
        [] \<Rightarrow> None
      | c # cs \<Rightarrow>
          if c \<noteq> dquote then None
          else
            (case read_literal cs of
               None \<Rightarrow> None
             | Some (k, r) \<Rightarrow>
                 (case skip_blanks r of
                    [] \<Rightarrow> None
                  | d # ds \<Rightarrow>
                      if d \<noteq> CHR '':'' then None
                      else
                        (case read_value n ds of
                           None \<Rightarrow> None
                         | Some (v, t) \<Rightarrow>
                             (case skip_blanks t of
                                [] \<Rightarrow> None
                              | e # es \<Rightarrow>
                                  if e = CHR ''}'' then Some ([(k, v)], es)
                                  else if e = CHR '','' then map_option (\<lambda>(ms, u). ((k, v) # ms, u)) (read_members n es)
                                  else None)))))"

declare read_value.simps [simp del] read_items.simps [simp del] read_members.simps [simp del]

text \<open>The nesting that the scanner of the package allows.\<close>

fun depth :: "json \<Rightarrow> nat" where
  "depth (JArr vs) = Suc (fold max (map depth vs) 0)"
| "depth (JObj ms) = Suc (fold max (map (depth \<circ> snd) ms) 0)"
| "depth _ = 0"

definition max_depth :: nat where
  "max_depth = 10000"

text \<open>\<^verbatim>\<open>Decoder.Decode\<close> reads the first value of a text; what follows it is left alone.\<close>

definition read_json :: "string \<Rightarrow> json option" where
  "read_json s =
     (case read_value (2 * length s + 2) s of
        None \<Rightarrow> None
      | Some (v, r) \<Rightarrow> if depth v \<le> max_depth then Some v else None)"

section \<open>The fuel is enough\<close>

lemma skip_blanks_le: "length (skip_blanks s) \<le> length s"
  by (simp add: skip_blanks_def length_dropWhile_le)

lemma skip_blanks_Cons: "skip_blanks s = c # cs \<Longrightarrow> length cs < length s"
  using skip_blanks_le [of s] by simp

lemma read_literal_shorter: "read_literal s = Some (v, r) \<Longrightarrow> length r < length s"
proof (induction s arbitrary: v rule: read_literal.induct)
  case (1 s)
  show ?case
  proof (cases "literal_step s")
    case (Closed rest)
    with 1 show ?thesis
      by (auto simp: read_literal.simps [of s] literal_step_def unicode_escape_def Let_def
          split: list.splits if_splits option.splits)
  next
    case (Piece p rest)
    with 1 literal_step_shorter [OF Piece] show ?thesis
      by (fastforce simp: read_literal.simps [of s])
  qed (use 1 in \<open>simp add: read_literal.simps [of s]\<close>)
qed

lemma digits_of_shorter: "digits_of s = Some (d, r) \<Longrightarrow> length r < length s"
proof -
  assume "digits_of s = Some (d, r)"
  then have "takeWhile is_digit_char s \<noteq> []" "r = dropWhile is_digit_char s"
    by (auto simp: digits_of_def split: if_splits)
  moreover have "length s = length (takeWhile is_digit_char s) + length (dropWhile is_digit_char s)"
    by (metis length_append takeWhile_dropWhile_id)
  ultimately show ?thesis by simp
qed

lemma read_number_shorter:
  assumes "read_number s = Some (t, r)"
  shows "length r < length s"
proof -
  have i: "read_int_part u = Some (x, w) \<Longrightarrow> length w < length u" for u x w
    by (auto simp: read_int_part_def split: list.splits if_splits dest: digits_of_shorter)
  have f: "read_fraction u = Some (x, w) \<Longrightarrow> length w \<le> length u" for u x w
    by (auto simp: read_fraction_def split: list.splits if_splits dest!: digits_of_shorter)
  have e: "read_exponent u = Some (x, w) \<Longrightarrow> length w \<le> length u" for u x w
    by (auto simp: read_exponent_def split: list.splits if_splits dest!: digits_of_shorter)
  show ?thesis
    using assms by (auto simp: read_number_def split: list.splits if_splits option.splits dest!: i f e)
qed

lemma read_shorter:
  "read_value n s = Some (v, r) \<Longrightarrow> length r < length s"
  "read_items n s = Some (vs, r) \<Longrightarrow> length r < length s"
  "read_members n s = Some (ms, r) \<Longrightarrow> length r < length s"
proof (induction n s and n s and n s arbitrary: v r and vs r and ms r
    rule: read_value_read_items_read_members.induct)
  case (2 n s)
  then obtain c cs where c: "skip_blanks s = c # cs" by (auto simp: read_value.simps split: list.splits)
  note len = skip_blanks_Cons [OF c]
  have w: "read_word x y (c # cs) = Some (v, r) \<Longrightarrow> x \<noteq> [] \<Longrightarrow> length r \<le> length cs" for x y
    by (cases x) (auto simp: read_word_def split: if_splits)
  have "length r \<le> length cs"
    using 2 c w by (fastforce simp: read_value.simps split: list.splits if_splits
        dest: read_literal_shorter read_number_shorter skip_blanks_Cons)
  with len show ?case by simp
next
  case (4 n s)
  then show ?case
    by (fastforce simp: read_items.simps split: option.splits list.splits if_splits dest!: skip_blanks_Cons)
next
  case (6 n s)
  then show ?case
    by (fastforce simp: read_members.simps split: option.splits list.splits if_splits
        dest!: skip_blanks_Cons read_literal_shorter)
qed (simp_all add: read_value.simps read_items.simps read_members.simps)

definition same_reading :: "nat \<Rightarrow> nat \<Rightarrow> string \<Rightarrow> bool" where
  "same_reading n m s \<longleftrightarrow>
     (2 * length s < n \<longrightarrow> read_value m s = read_value n s) \<and>
     (2 * length s + 1 < n \<longrightarrow> read_items m s = read_items n s) \<and>
     (2 * length s < n \<longrightarrow> read_members m s = read_members n s)"

lemma fuel_enough: "n \<le> m \<Longrightarrow> same_reading n m s"
proof (induction n arbitrary: m s)
  case (Suc n m s)
  then obtain k where m: "m = Suc k" "n \<le> k" by (cases m) auto
  have IH: "same_reading n k t" for t using Suc.IH m(2) .
  have part: "read_value k t = read_value n t" "read_items k t = read_items n t" "read_members k t = read_members n t"
    if "length t < length s" "2 * length s < Suc n" for t
    using IH [of t] that by (simp_all add: same_reading_def)
  have val: "read_value m s = read_value (Suc n) s" if "2 * length s < Suc n"
    using part that by (auto simp: m read_value.simps dest: skip_blanks_Cons split: list.split)
  have items: "read_items m s = read_items (Suc n) s" if "2 * length s + 1 < Suc n"
  proof -
    have "read_value k s = read_value n s" using IH [of s] that by (simp add: same_reading_def)
    moreover have "read_items k ds = read_items n ds"
      if "read_value n s = Some (v, r)" "skip_blanks r = d # ds" for v r d ds
      using part(2) [of ds] read_shorter(1) [OF that(1)] skip_blanks_Cons [OF that(2)] \<open>2 * length s + 1 < Suc n\<close>
      by simp
    ultimately show ?thesis by (auto simp: m read_items.simps split: list.split option.split)
  qed
  have members: "read_members m s = read_members (Suc n) s" if "2 * length s < Suc n"
  proof (cases "skip_blanks s")
    case (Cons c cs)
    show ?thesis
    proof (cases "read_literal cs")
      case (Some p)
      obtain x r where p: "p = (x, r)" by force
      show ?thesis
      proof (cases "skip_blanks r")
        case ds: (Cons d ds)
        have len: "length ds < length s"
          using skip_blanks_Cons [OF Cons] read_literal_shorter [OF Some [unfolded p]] skip_blanks_Cons [OF ds] by simp
        have "read_members k es = read_members n es"
          if "read_value n ds = Some (v, t)" "skip_blanks t = e # es" for v t e es
          using part(3) [of es] read_shorter(1) [OF that(1)] skip_blanks_Cons [OF that(2)] len
            \<open>2 * length s < Suc n\<close> by simp
        with part(1) [OF len that] Cons Some p ds show ?thesis
          by (auto simp: m read_members.simps split: list.split option.split)
      qed (simp add: m read_members.simps Cons Some p)
    qed (simp add: m read_members.simps Cons)
  qed (simp add: m read_members.simps)
  from val items members show ?case by (simp add: same_reading_def)
qed (simp add: same_reading_def)

text \<open>More fuel than two for every byte changes nothing.\<close>

lemma read_json_fuel:
  assumes "2 * length s + 2 \<le> n"
  shows "read_value n s = read_value (2 * length s + 2) s"
  using fuel_enough [OF assms, of s] by (simp add: same_reading_def)

section \<open>What is written is read back\<close>

fun writable :: "json \<Rightarrow> bool"
  and writable_items :: "json list \<Rightarrow> bool"
  and writable_members :: "(string \<times> json) list \<Rightarrow> bool" where
  "writable (JNum t) \<longleftrightarrow> t \<in> range show_int"
| "writable (JStr s) \<longleftrightarrow> utf8_ok s"
| "writable (JArr vs) \<longleftrightarrow> writable_items vs"
| "writable (JObj ms) \<longleftrightarrow> writable_members ms"
| "writable _ \<longleftrightarrow> True"
| "writable_items [] \<longleftrightarrow> True"
| "writable_items (v # vs) \<longleftrightarrow> writable v \<and> writable_items vs"
| "writable_members [] \<longleftrightarrow> True"
| "writable_members ((k, v) # ms) \<longleftrightarrow> utf8_ok k \<and> writable v \<and> writable_members ms"

text \<open>The fuel that a value needs, and that two steps for every byte are enough.\<close>

fun need :: "json \<Rightarrow> nat"
  and need_items :: "json list \<Rightarrow> nat"
  and need_members :: "(string \<times> json) list \<Rightarrow> nat" where
  "need (JArr vs) = Suc (need_items vs)"
| "need (JObj ms) = Suc (need_members ms)"
| "need _ = 1"
| "need_items [] = 0"
| "need_items (v # vs) = Suc (max (need v) (need_items vs))"
| "need_members [] = 0"
| "need_members ((k, v) # ms) = Suc (max (need v) (need_members ms))"

lemma need_length:
  "writable v \<Longrightarrow> need v \<le> 2 * length (marshal v)"
  "writable_items vs \<Longrightarrow> need_items vs \<le> 2 * length (marshal_items vs) + 1"
  "writable_members ms \<Longrightarrow> need_members ms \<le> 2 * length (marshal_members ms) + 1"
  by (induction v and vs and ms rule: marshal_marshal_items_marshal_members.induct)
    (auto simp: quoted_def Suc_le_eq)

text \<open>What may follow a number.\<close>

definition ends_number :: "string \<Rightarrow> bool" where
  "ends_number s \<longleftrightarrow> s = [] \<or> \<not> is_digit_char (hd s) \<and> hd s \<notin> {CHR ''.'', CHR ''e'', CHR ''E''}"

lemma digit_char_byte: "d < 10 \<Longrightarrow> byte (digit_char d) = 48 + d"
  by (simp add: byte_def digit_char_def)

lemma digits_of_show:
  assumes "ends_number rest"
  shows "digits_of (show_base 10 n @ rest) = Some (show_base 10 n, rest)"
proof -
  have "is_digit_char c" if "c \<in> set (show_base 10 n)" for c
    using show_digits [OF that] by (auto simp: is_digit_char_def between_def digit_char_byte)
  moreover have "takeWhile is_digit_char rest = []" "dropWhile is_digit_char rest = rest"
    using assms by (cases rest; simp add: ends_number_def)+
  ultimately show ?thesis by (simp add: digits_of_def)
qed

lemma read_fraction_ends: "ends_number rest \<Longrightarrow> read_fraction rest = Some ([], rest)"
  by (cases rest) (simp_all add: read_fraction_def ends_number_def)

lemma read_exponent_ends: "ends_number rest \<Longrightarrow> read_exponent rest = Some ([], rest)"
  by (cases rest) (simp_all add: read_exponent_def ends_number_def)

lemma read_int_part_show:
  assumes "ends_number rest"
  shows "read_int_part (show_base 10 n @ rest) = Some (show_base 10 n, rest)"
proof (cases "n = 0")
  case True
  have "show_base 10 0 = ''0''" by code_simp
  with True show ?thesis by (simp add: read_int_part_def)
next
  case False
  then obtain d where d: "0 < d" "d < 10" "hd (show_base 10 n) = digit_char d" using show_lead by blast
  then have "byte (hd (show_base 10 n)) \<noteq> 48" by (simp add: digit_char_byte)
  then have "hd (show_base 10 n) \<noteq> CHR ''0''" by (auto simp: byte_def)
  then show ?thesis
    using digits_of_show [OF assms, of n] by (cases "show_base 10 n") (simp_all add: read_int_part_def)
qed

lemma hd_show_digit: "\<exists>d < 10. hd (show_base 10 n) = digit_char d"
  using show_digits [of "hd (show_base 10 n)" n] by simp

lemma read_number_show:
  assumes "ends_number rest"
  shows "read_number (show_int k @ rest) = Some (show_int k, rest)"
proof (cases "k < 0")
  case True
  then show ?thesis
    by (simp add: read_number_def show_int_def read_int_part_show [OF assms] read_fraction_ends [OF assms]
        read_exponent_ends [OF assms])
next
  case False
  obtain d where "d < 10" "hd (show_base 10 (nat k)) = digit_char d" using hd_show_digit by blast
  then have "hd (show_base 10 (nat k)) \<noteq> CHR ''-''" using digit_char_not_sign [of d] by simp
  then obtain c cs where c: "show_base 10 (nat k) = c # cs" "c \<noteq> CHR ''-''"
    by (cases "show_base 10 (nat k)") auto
  have "read_int_part (c # cs @ rest) = Some (c # cs, rest)"
    using read_int_part_show [OF assms, of "nat k"] c by simp
  with c False show ?thesis
    by (simp add: read_number_def show_int_def read_fraction_ends [OF assms] read_exponent_ends [OF assms])
qed

text \<open>No value begins with a blank, and a number begins with none of the other beginnings.\<close>

definition starts :: "char \<Rightarrow> bool" where
  "starts c \<longleftrightarrow> byte c \<notin> {9, 10, 13, 32}"

lemma skip_starts: "starts c \<Longrightarrow> skip_blanks (c # cs) = c # cs"
  by (simp add: skip_blanks_def starts_def)

lemma starts_chars [simp]:
  "starts dquote" "starts (CHR ''['')" "starts (CHR '']'')" "starts (CHR ''{'')" "starts (CHR ''}'')"
  "starts (CHR '','')" "starts (CHR '':'')" "starts (CHR ''t'')" "starts (CHR ''f'')" "starts (CHR ''n'')"
  "starts (CHR ''-'')" "starts (CHR 0x22)"
  by (simp_all add: starts_def byte_def dquote_def)

lemma show_int_starts:
  obtains c cs where "show_int k = c # cs" and "starts c"
    and "c \<notin> {dquote, CHR ''['', CHR ''{'', CHR ''t'', CHR ''f'', CHR ''n''}"
proof (cases "k < 0")
  case True
  then show thesis using that [of "CHR ''-''" "show_base 10 (nat (- k))"]
    by (simp add: show_int_def dquote_def)
next
  case False
  obtain c cs where c: "show_base 10 (nat k) = c # cs" by (cases "show_base 10 (nat k)") auto
  with hd_show_digit [of "nat k"] obtain d where d: "d < 10" "c = digit_char d" by auto
  then have b: "byte c = 48 + d" by (simp add: digit_char_byte)
  have "byte x \<noteq> 48 + d" if "x \<in> {dquote, CHR ''['', CHR ''{'', CHR ''t'', CHR ''f'', CHR ''n''}" for x
    using that d(1) by (auto simp: byte_def dquote_def)
  with b have "c \<notin> {dquote, CHR ''['', CHR ''{'', CHR ''t'', CHR ''f'', CHR ''n''}" by metis
  moreover have "starts c" using b d(1) by (simp add: starts_def)
  ultimately show thesis using that c False by (simp add: show_int_def)
qed

lemma marshal_starts:
  assumes "writable v"
  shows "\<exists>c cs. marshal v = c # cs \<and> starts c \<and> c \<noteq> CHR '']'' \<and> c \<noteq> CHR ''}''"
proof (cases v)
  case (JNum t)
  then obtain k where t: "t = show_int k" using assms by auto
  obtain c cs where "show_int k = c # cs" "starts c" by (rule show_int_starts)
  moreover have "c \<notin> {CHR '']'', CHR ''}''}"
  proof (cases "k < 0")
    case False
    with calculation hd_show_digit [of "nat k"] obtain d where "d < 10" "c = digit_char d"
      by (auto simp: show_int_def)
    then have "byte c = 48 + d" "d < 10" by (simp_all add: digit_char_byte)
    then show ?thesis by (auto simp: byte_def)
  qed (use calculation in \<open>auto simp: show_int_def\<close>)
  ultimately show ?thesis using JNum t by simp
qed (simp_all add: quoted_def dquote_def)

lemma distinct_marks [simp]: "dquote \<noteq> CHR ''[''" "dquote \<noteq> CHR ''{''" "dquote \<noteq> CHR ''}''" "dquote \<noteq> CHR '']''"
  by (simp_all add: dquote_def)

lemma ends_mark: "ends_number (CHR '']'' # r)" "ends_number (CHR ''}'' # r)" "ends_number (CHR '','' # r)"
  by (simp_all add: ends_number_def is_digit_char_def between_def byte_def)

lemma read_marshal:
  "writable v \<Longrightarrow> need v \<le> n \<Longrightarrow> ends_number rest \<Longrightarrow> read_value n (marshal v @ rest) = Some (v, rest)"
  "writable_items vs \<Longrightarrow> need_items vs \<le> n \<Longrightarrow> vs \<noteq> [] \<Longrightarrow>
     read_items n (marshal_items vs @ CHR '']'' # rest) = Some (vs, rest)"
  "writable_members ms \<Longrightarrow> need_members ms \<le> n \<Longrightarrow> ms \<noteq> [] \<Longrightarrow>
     read_members n (marshal_members ms @ CHR ''}'' # rest) = Some (ms, rest)"
proof (induction v and vs and ms arbitrary: n rest and n rest and n rest
    rule: marshal_marshal_items_marshal_members.induct)
  case (1)
  then show ?case by (cases n) (simp_all add: read_value.simps skip_starts dquote_def read_word_def has_prefix_def)
next
  case (2 b)
  then show ?case
    by (cases n; cases b) (simp_all add: read_value.simps skip_starts dquote_def read_word_def has_prefix_def)
next
  case (3 t)
  then obtain k where t: "t = show_int k" by auto
  obtain m where n: "n = Suc m" using 3 by (cases n) auto
  obtain c cs where c: "show_int k = c # cs" "starts c"
    "c \<notin> {dquote, CHR ''['', CHR ''{'', CHR ''t'', CHR ''f'', CHR ''n''}"
    by (rule show_int_starts)
  have "read_number (c # cs @ rest) = Some (show_int k, rest)"
    using read_number_show [OF \<open>ends_number rest\<close>, of k] c(1) by simp
  with c n t show ?case by (simp add: read_value.simps skip_starts)
next
  case (4 s)
  then show ?case
    by (cases n) (simp_all add: read_value.simps skip_starts quoted_def read_escaped)
next
  case (5 vs)
  obtain m where n: "n = Suc m" "need_items vs \<le> m" using 5 by (cases n) auto
  show ?case
  proof (cases vs)
    case Nil
    with n show ?thesis by (simp add: read_value.simps skip_starts dquote_def)
  next
    case (Cons v ws)
    then obtain c cs where c: "marshal v = c # cs" "starts c" "c \<noteq> CHR '']''"
      using 5(2) marshal_starts [of v] by auto
    from 5 Cons n have "read_items m (marshal_items vs @ CHR '']'' # rest) = Some (vs, rest)" by simp
    with Cons c n show ?thesis by (simp add: read_value.simps skip_starts dquote_def)
  qed
next
  case (6 ms)
  obtain m where n: "n = Suc m" "need_members ms \<le> m" using 6 by (cases n) auto
  show ?case
  proof (cases ms)
    case Nil
    with n show ?thesis by (simp add: read_value.simps skip_starts dquote_def)
  next
    case (Cons kv ws)
    from 6 Cons n have "read_members m (marshal_members ms @ CHR ''}'' # rest) = Some (ms, rest)" by simp
    with Cons n show ?thesis by (cases kv) (simp add: read_value.simps skip_starts quoted_def dquote_def)
  qed
next
  case (8 v vs)
  obtain m where n: "n = Suc m" "need v \<le> m" "need_items vs \<le> m" using 8 by (cases n) auto
  with 8 show ?case
    by (cases "vs = []") (simp_all add: read_items.simps skip_starts ends_mark)
next
  case (10 k v ms)
  obtain m where n: "n = Suc m" "need v \<le> m" "need_members ms \<le> m" using 10 by (cases n) auto
  with 10 show ?case
    by (cases "ms = []") (simp_all add: read_members.simps skip_starts ends_mark quoted_def read_escaped)
qed simp_all

lemma read_front:
  assumes "writable v" and "ends_number rest"
  shows "read_value (2 * length (marshal v @ rest) + 2) (marshal v @ rest) = Some (v, rest)"
  using read_marshal(1) [OF assms(1) _ assms(2)] need_length(1) [OF assms(1)] by simp

lemma read_back:
  assumes "writable v" and "depth v \<le> max_depth" and "ends_number rest"
  shows "read_json (marshal v @ rest) = Some v"
  using read_front [OF assms(1,3)] assms(2) by (simp add: read_json_def)

end
