(* ===== verification/Structs.thy ===== *)
theory Structs
  imports Json "HOL-Library.Word" "HOL-Library.List_Lexorder" "HOL-Library.Char_ord"
begin

text \<open>
  Go structs on the wire: how \<^verbatim>\<open>encoding/json\<close> writes maps and fills the fields of a struct
  from a value, and how long a written value is.
\<close>

section \<open>Maps and structs\<close>

text \<open>\<^verbatim>\<open>json.Marshal\<close> writes a map with its keys in order.\<close>

definition json_map :: "(string \<times> json) list \<Rightarrow> json" where
  "json_map ms = JObj (sort_key fst ms)"

text \<open>
  A field is found by its name, or else by a name that differs in case only; \<^verbatim>\<open>encoding/json\<close>
  folds like Unicode, where two more characters are forms of \<^verbatim>\<open>s\<close> and \<^verbatim>\<open>k\<close>.
\<close>

fun fold_name :: "string \<Rightarrow> string" where
  "fold_name (a # b # c # cs) =
     (if [a, b] = bytes [197, 191] then CHR ''s'' # fold_name (c # cs)
      else if [a, b, c] = bytes [226, 132, 170] then CHR ''k'' # fold_name cs
      else ascii_lower a # fold_name (b # c # cs))"
| "fold_name [a, b] = (if [a, b] = bytes [197, 191] then ''s'' else [ascii_lower a, ascii_lower b])"
| "fold_name [a] = [ascii_lower a]"
| "fold_name [] = []"

declare fold_name.simps [simp del]

type_synonym 'a field = "string \<times> (json \<Rightarrow> 'a \<Rightarrow> 'a option)"

definition field_of :: "'a field list \<Rightarrow> string \<Rightarrow> (json \<Rightarrow> 'a \<Rightarrow> 'a option) option" where
  "field_of fs k =
     (case map_of fs k of
        Some f \<Rightarrow> Some f
      | None \<Rightarrow> map_option snd (List.find (\<lambda>f. fold_name (fst f) = fold_name k) fs))"

text \<open>
  A struct: null leaves it as it is, the members of an object are taken one by one, unknown
  ones are passed over, and any other value is an error. \<open>None\<close> is an error of some field.
\<close>

fun fill_members :: "'a field list \<Rightarrow> (string \<times> json) list \<Rightarrow> 'a \<Rightarrow> 'a option" where
  "fill_members fs [] a = Some a"
| "fill_members fs ((k, v) # ms) a =
     (case field_of fs k of
        None \<Rightarrow> fill_members fs ms a
      | Some f \<Rightarrow> (case f v a of None \<Rightarrow> None | Some b \<Rightarrow> fill_members fs ms b))"

definition fill :: "'a field list \<Rightarrow> json \<Rightarrow> 'a \<Rightarrow> 'a option" where
  "fill fs v a = (case v of JNull \<Rightarrow> Some a | JObj ms \<Rightarrow> fill_members fs ms a | _ \<Rightarrow> None)"

definition take_string :: "json \<Rightarrow> string \<Rightarrow> string option" where
  "take_string v old = (case v of JNull \<Rightarrow> Some old | JStr s \<Rightarrow> Some s | _ \<Rightarrow> None)"

definition take_int :: "json \<Rightarrow> int \<Rightarrow> int option" where
  "take_int v old = (case v of JNull \<Rightarrow> Some old | JNum t \<Rightarrow> atoi t | _ \<Rightarrow> None)"

definition take_uint64 :: "json \<Rightarrow> 64 word \<Rightarrow> 64 word option" where
  "take_uint64 v old =
     (case v of
        JNull \<Rightarrow> Some old
      | JNum t \<Rightarrow>
          (case unsigned_val 10 t of
             None \<Rightarrow> None
           | Some n \<Rightarrow> if n < 2 ^ 64 then Some (of_nat n) else None)
      | _ \<Rightarrow> None)"

text \<open>A field whose value the code does not use is still checked for its type.\<close>

definition unused :: "(json \<Rightarrow> 'b \<Rightarrow> 'b option) \<Rightarrow> 'b \<Rightarrow> json \<Rightarrow> 'a \<Rightarrow> 'a option" where
  "unused f old v a = map_option (\<lambda>_. a) (f v old)"

text \<open>
  \<^verbatim>\<open>Decode\<close> into the zero value of a struct. \<open>msg\<close> is the text of the error, which depends
  on the body.
\<close>

definition decode_into :: "(string \<Rightarrow> string) \<Rightarrow> 'a field list \<Rightarrow> 'a \<Rightarrow> string \<Rightarrow> string + 'a" where
  "decode_into msg fs zero body =
     (case read_json body of
        None \<Rightarrow> Inl (msg body)
      | Some v \<Rightarrow> (case fill fs v zero of None \<Rightarrow> Inl (msg body) | Some a \<Rightarrow> Inr a))"

section \<open>Reading what was written\<close>

lemma read_written: "writable v \<Longrightarrow> depth v \<le> max_depth \<Longrightarrow> read_json (marshal v) = Some v"
  using read_back [of v "[]"] by (simp add: ends_number_def)

lemma writable_one: "writable (JNum ''1'')"
proof -
  have "show_int 1 = ''1''" by code_simp
  then have "''1'' \<in> range show_int" by (metis rangeI)
  then show ?thesis by simp
qed

text \<open>Names in small letters are their own folded form.\<close>

definition is_small :: "string \<Rightarrow> bool" where
  "is_small s \<longleftrightarrow> list_all (\<lambda>c. byte c < 128 \<and> \<not> between 65 90 c) s"

lemma fold_small: "is_small s \<Longrightarrow> fold_name s = s"
proof -
  have b: "byte (char_of n) = n mod 256" for n :: nat by (simp add: byte_def)
  have "CHR 0xC5 \<noteq> c" "CHR 0xE2 \<noteq> c" if "byte c < 128" for c
    using that by (auto simp: byte_def)
  then have x: "c \<noteq> char_of (197 :: nat)" "c \<noteq> char_of (226 :: nat)" if "byte c < 128" for c
    using that b [of 197] b [of 226] by auto
  have l: "ascii_lower c = c" if "\<not> between 65 90 c" for c
    using that by (auto simp: ascii_lower_def between_def byte_def Let_def)
  show "is_small s \<Longrightarrow> fold_name s = s"
    by (induction s rule: fold_name.induct) (simp_all add: fold_name.simps is_small_def bytes_def x l)
qed

section \<open>The length of a text\<close>

text \<open>A bound for the bytes of a value, so that a reply is read whole.\<close>

fun weight :: "json \<Rightarrow> nat"
  and weight_items :: "json list \<Rightarrow> nat"
  and weight_members :: "(string \<times> json) list \<Rightarrow> nat" where
  "weight (JNum t) = length t"
| "weight (JStr s) = 6 * length s + 2"
| "weight (JArr vs) = weight_items vs + 2"
| "weight (JObj ms) = weight_members ms + 2"
| "weight _ = 5"
| "weight_items [] = 0"
| "weight_items (v # vs) = weight v + 1 + weight_items vs"
| "weight_members [] = 0"
| "weight_members ((k, v) # ms) = 6 * length k + weight v + 4 + weight_members ms"

lemma escaped_length: "length (escaped s) \<le> 6 * length s"
proof (induction s rule: escaped.induct)
  case (2 c cs)
  let ?n = "utf8_len (c # cs)"
  have a: "length (escaped_ascii c) \<le> 6"
    by (simp add: escaped_ascii_def hex4_def split: option.split)
  have h: "length (hex4 r) = 4" for r by (simp add: hex4_def)
  have n: "?n \<le> length (c # cs)" by (rule utf8_len_le)
  show ?case
  proof (cases "byte c < 128")
    case True
    with 2(1) a show ?thesis by simp
  next
    case False
    show ?thesis
    proof (cases "?n < 2")
      case True
      with False 2(2) [OF False refl] h show ?thesis by (simp add: Let_def)
    next
      case big: False
      have "length (escaped (drop ?n (c # cs))) \<le> 6 * (length (c # cs) - ?n)"
        using 2(3,4) [OF False refl big] by (cases "map_of line_ends (take 3 (c # cs))") auto
      with False big n h show ?thesis by (auto simp: Let_def split: option.split)
    qed
  qed
qed simp

lemma marshal_length:
  "length (marshal v) \<le> weight v"
  "length (marshal_items vs) \<le> weight_items vs"
  "length (marshal_members ms) \<le> weight_members ms"
proof (induction v and vs and ms rule: marshal_marshal_items_marshal_members.induct)
  case (8 v vs)
  then show ?case by (cases "vs = []") simp_all
next
  case (10 k v ms)
  then show ?case using escaped_length [of k] by (cases "ms = []") (simp_all add: quoted_def)
qed (simp_all add: quoted_def escaped_length)

lemma show_nat_length:
  assumes "n < 2 ^ 64"
  shows "length (show_int (int n)) \<le> 20"
proof -
  have "n < 10 ^ Suc 19" using assms by simp
  from show_base_length [OF _ this] show ?thesis by (simp add: show_int_def)
qed

lemma writable_nat: "writable (JNum (show_int k))"
  by simp

end
