(* ===== verification/Wire.thy ===== *)
theory Wire
  imports BalanceClient Structs
begin

text \<open>
  The balance API on the wire: how the endpoint reads the bytes of a request, how it writes a
  reply, and how the client writes its query and reads the reply. A transport carries bytes;
  with it the client and the endpoint of the other theories are run against each other.
\<close>

section \<open>The endpoint reads a request\<close>

text \<open>\<^verbatim>\<open>http.MaxBytesReader\<close>: what lies behind this many bytes is an error, not an end.\<close>

definition body_window :: nat where
  "body_window = 16384"

definition request_fields :: "balance_request field list" where
  "request_fields =
     [(''address_type'', \<lambda>v a. map_option (\<lambda>s. a\<lparr>br_type := s\<rparr>) (take_string v (br_type a))),
      (''chain'', \<lambda>v a. map_option (\<lambda>s. a\<lparr>br_chain := s\<rparr>) (take_string v (br_chain a))),
      (''address'', \<lambda>v a. map_option (\<lambda>s. a\<lparr>br_address := s\<rparr>) (take_string v (br_address a)))]"

text \<open>\<^verbatim>\<open>DisallowUnknownFields\<close>\<close>

definition known_members :: "'a field list \<Rightarrow> json \<Rightarrow> bool" where
  "known_members fs v = (case v of JObj ms \<Rightarrow> list_all (\<lambda>m. field_of fs (fst m) \<noteq> None) ms | _ \<Rightarrow> True)"

text \<open>
  The next value in the part of a body that can be read. An object or an array ends with its
  bracket; any other value only with the byte after it or the end of the body, which a body
  that was partial does not have.
\<close>

definition compound :: "json \<Rightarrow> bool" where
  "compound v = (case v of JArr _ \<Rightarrow> True | JObj _ \<Rightarrow> True | _ \<Rightarrow> False)"

definition next_value :: "bool \<Rightarrow> string \<Rightarrow> (json \<times> string) option" where
  "next_value partial s =
     (case read_value (2 * length s + 2) s of
        None \<Rightarrow> None
      | Some (v, r) \<Rightarrow>
          if depth v \<le> max_depth \<and> (compound v \<or> r \<noteq> [] \<or> \<not> partial) then Some (v, r) else None)"

text \<open>\<^verbatim>\<open>ensureSingleJSONValue\<close>: the error, if the body does not just end here.\<close>

definition ensureSingleJSONValue :: "bool \<Rightarrow> string \<Rightarrow> bool" where
  "ensureSingleJSONValue partial s \<longleftrightarrow> skip_blanks s = [] \<and> \<not> partial"

definition decode_request :: "string \<Rightarrow> balance_request option \<times> bool" where
  "decode_request body =
     (let partial = body_window < length body in
      case next_value partial (take body_window body) of
        None \<Rightarrow> (None, False)
      | Some (v, r) \<Rightarrow>
          (if known_members request_fields v
           then fill request_fields v \<lparr>br_type = [], br_chain = [], br_address = []\<rparr> else None,
           \<not> ensureSingleJSONValue partial r))"

record raw_request =
  wq_method :: string
  wq_key :: string
  wq_body :: string

definition received :: "raw_request \<Rightarrow> http_request" where
  "received w =
     \<lparr>hr_method = wq_method w, hr_key = wq_key w, hr_body = fst (decode_request (wq_body w)),
      hr_extra = snd (decode_request (wq_body w))\<rparr>"

section \<open>The endpoint writes a reply\<close>

definition response_json :: "balance_response \<Rightarrow> json" where
  "response_json b =
     JObj [(''state'', JStr (bs_state b)), (''address_type'', JStr (bs_type b)),
       (''address'', JStr (bs_address b)), (''chain'', JStr (bs_chain b)),
       (''balance_atomic'', JStr (bs_balance b)), (''asset_symbol'', JStr (bs_symbol b)),
       (''has_balance'', JBool (bs_has_balance b)), (''checked_at'', JStr (bs_checked_at b))]"

text \<open>\<^verbatim>\<open>omitempty\<close>\<close>

definition unless_empty :: "bool \<Rightarrow> string \<times> json \<Rightarrow> (string \<times> json) list" where
  "unless_empty none m = (if none then [] else [m])"

definition error_json :: "error_response \<Rightarrow> json" where
  "error_json e =
     JObj ([(''state'', JStr (es_state e)), (''error_code'', JStr (es_code e)),
        (''message'', JStr (es_message e))] @
       unless_empty (es_provider e = []) (''provider'', JStr (es_provider e)) @
       unless_empty (es_retry_ms e = 0) (''retry_after_ms'', JNum (show_int (es_retry_ms e))))"

definition chain_json :: "chain_snapshot \<Rightarrow> json" where
  "chain_json s =
     JObj [(''recommended_concurrency'', JNum (show_int (snap_limit s))),
       (''active_in_flight'', JNum (show_int (snap_active s)))]"

text \<open>The map of the chains is written in the order of its keys.\<close>

definition capacity_json :: "snapshot \<Rightarrow> json" where
  "capacity_json s =
     JObj [(''max_in_flight'', JNum (show_int (snap_max s))),
       (''recommended_concurrency'', JNum (show_int (snap_recommended s))),
       (''active_in_flight'', JNum (show_int (snap_in_flight s))),
       (''queue_wait_ms'', JNum (show_int (snap_queue_wait_ms s))),
       (''chains'', JObj (map (\<lambda>c. (c, chain_json (the (snap_chains s c)))) (sorted_list_of_set (dom (snap_chains s)))))]"

definition body_json :: "reply_body \<Rightarrow> json" where
  "body_json body =
     (case body of
        Checked b \<Rightarrow> response_json b
      | Failed e \<Rightarrow> error_json e
      | Capacity s \<Rightarrow> capacity_json s)"

text \<open>The encoder ends a value with a line feed.\<close>

definition writeJSON :: "http_reply \<Rightarrow> int \<times> string" where
  "writeJSON reply = (rp_status reply, marshal (body_json (rp_body reply)) @ [CHR 0x0A])"

section \<open>The client\<close>

definition query_json :: "query \<Rightarrow> json" where
  "query_json q =
     JObj [(''address_type'', JStr (qy_type q)), (''chain'', JStr (qy_chain q)), (''address'', JStr (qy_address q))]"

definition take_bool :: "json \<Rightarrow> bool \<Rightarrow> bool option" where
  "take_bool v old = (case v of JNull \<Rightarrow> Some old | JBool b \<Rightarrow> Some b | _ \<Rightarrow> None)"

definition result_fields :: "api_result field list" where
  "result_fields =
     [(''state'', \<lambda>v a. map_option (\<lambda>s. a\<lparr>ap_state := s\<rparr>) (take_string v (ap_state a))),
      (''address_type'', \<lambda>v a. map_option (\<lambda>s. a\<lparr>ap_type := s\<rparr>) (take_string v (ap_type a))),
      (''address'', \<lambda>v a. map_option (\<lambda>s. a\<lparr>ap_address := s\<rparr>) (take_string v (ap_address a))),
      (''chain'', \<lambda>v a. map_option (\<lambda>s. a\<lparr>ap_chain := s\<rparr>) (take_string v (ap_chain a))),
      (''balance_atomic'', \<lambda>v a. map_option (\<lambda>s. a\<lparr>ap_balance := s\<rparr>) (take_string v (ap_balance a))),
      (''asset_symbol'', \<lambda>v a. map_option (\<lambda>s. a\<lparr>ap_symbol := s\<rparr>) (take_string v (ap_symbol a))),
      (''has_balance'', \<lambda>v a. map_option (\<lambda>b. a\<lparr>ap_has_balance := b\<rparr>) (take_bool v (ap_has_balance a))),
      (''checked_at'', \<lambda>v a. map_option (\<lambda>s. a\<lparr>ap_checked_at := s\<rparr>) (take_string v (ap_checked_at a))),
      (''error_code'', \<lambda>v a. map_option (\<lambda>s. a\<lparr>ap_code := s\<rparr>) (take_string v (ap_code a))),
      (''message'', \<lambda>v a. map_option (\<lambda>s. a\<lparr>ap_message := s\<rparr>) (take_string v (ap_message a))),
      (''provider'', \<lambda>v a. map_option (\<lambda>s. a\<lparr>ap_provider := s\<rparr>) (take_string v (ap_provider a))),
      (''retry_after_ms'', \<lambda>v a. map_option (\<lambda>n. a\<lparr>ap_retry_ms := n\<rparr>) (take_int v (ap_retry_ms a)))]"

text \<open>
  A value of the wrong type is an error, but the other fields are still filled: the flag says
  whether all went well.
\<close>

fun fill_each :: "'a field list \<Rightarrow> (string \<times> json) list \<Rightarrow> 'a \<Rightarrow> bool \<times> 'a" where
  "fill_each fs [] a = (True, a)"
| "fill_each fs ((k, v) # ms) a =
     (case field_of fs k of
        None \<Rightarrow> fill_each fs ms a
      | Some f \<Rightarrow>
          (case f v a of
             None \<Rightarrow> (False, snd (fill_each fs ms a))
           | Some b \<Rightarrow> fill_each fs ms b))"

definition fill_all :: "'a field list \<Rightarrow> json \<Rightarrow> 'a \<Rightarrow> bool \<times> 'a" where
  "fill_all fs v a = (case v of JNull \<Rightarrow> (True, a) | JObj ms \<Rightarrow> fill_each fs ms a | _ \<Rightarrow> (False, a))"

definition decode_result :: "(string \<Rightarrow> string) \<Rightarrow> string \<Rightarrow> api_result \<Rightarrow> string option \<times> api_result" where
  "decode_result msg body r =
     (let text = take body_limit body in
      case read_json text of
        None \<Rightarrow> (Some (msg text), r)
      | Some v \<Rightarrow> (case fill_all result_fields v r of (ok, r1) \<Rightarrow> (if ok then None else Some (msg text), r1)))"

text \<open>A transport: from a URL, the key header and the body to an error or the reply.\<close>

type_synonym transport = "string \<Rightarrow> string option \<Rightarrow> string \<Rightarrow> string + int \<times> string"

definition over_wire :: "(string \<Rightarrow> string) \<Rightarrow> (string \<Rightarrow> string option) \<Rightarrow> transport \<Rightarrow> client \<Rightarrow> query \<Rightarrow> exchange" where
  "over_wire msg build net c q =
     \<lparr>xc_marshal = (\<lambda>_. None), xc_request = build,
      xc_do = (\<lambda>u k q'. map_sum id fst (net u k (marshal (query_json q')))),
      xc_decode = (\<lambda>r.
        case net (cl_base c @ ''/v1/balance'') (if cl_key c \<noteq> [] then Some (cl_key c) else None)
               (marshal (query_json q)) of
          Inl e \<Rightarrow> (Some e, r)
        | Inr (status, body) \<Rightarrow> decode_result msg body r)\<rparr>"

definition Check_wire ::
  "(string \<Rightarrow> string) \<Rightarrow> (string \<Rightarrow> string option) \<Rightarrow> transport \<Rightarrow> client \<Rightarrow> query \<Rightarrow> api_result \<times> string option" where
  "Check_wire msg build net c q = client_Check (over_wire msg build net c q) c q"

section \<open>The two ends connected\<close>

text \<open>A connection to the endpoint. Blanks around the value of a header are not part of it.\<close>

definition header_text :: "string \<Rightarrow> string" where
  "header_text s = (let strip = dropWhile (\<lambda>c. c = CHR '' '' \<or> c = CHR 0x09) in rev (strip (rev (strip s))))"

definition raw_of :: "string option \<Rightarrow> string \<Rightarrow> raw_request" where
  "raw_of k body =
     \<lparr>wq_method = ''POST'', wq_key = (case k of None \<Rightarrow> [] | Some key \<Rightarrow> header_text key), wq_body = body\<rparr>"

definition connected :: "(http_request \<Rightarrow> http_reply option) \<Rightarrow> transport" where
  "connected f u k body =
     (case f (received (raw_of k body)) of None \<Rightarrow> Inl ''no reply'' | Some p \<Rightarrow> Inr (writeJSON p))"

definition endpoint_of ::
  "(string \<Rightarrow> string) \<Rightarrow> (string \<Rightarrow> string) \<Rightarrow> balance_service \<Rightarrow> call_env \<Rightarrow> string \<Rightarrow> limiter \<Rightarrow> http_request \<Rightarrow>
   http_reply option" where
  "endpoint_of ul quote sv env clock l r = map_option fst (HandleBalance ul quote sv env clock r l)"

text \<open>The replies that reach the client whole: valid text, numbers of 64 bits, within its limit.\<close>

fun fits_wire :: "reply_body \<Rightarrow> bool" where
  "fits_wire (Checked b) \<longleftrightarrow>
     list_all utf8_ok [bs_state b, bs_type b, bs_address b, bs_chain b, bs_balance b, bs_symbol b, bs_checked_at b] \<and>
     weight (response_json b) \<le> body_limit"
| "fits_wire (Failed e) \<longleftrightarrow>
     list_all utf8_ok [es_state e, es_code e, es_message e, es_provider e] \<and>
     min_int64 \<le> es_retry_ms e \<and> es_retry_ms e \<le> max_int64 \<and> weight (error_json e) \<le> body_limit"
| "fits_wire (Capacity s) \<longleftrightarrow> False"

definition fits_query :: "client \<Rightarrow> query \<Rightarrow> bool" where
  "fits_query c q \<longleftrightarrow>
     list_all utf8_ok [qy_type q, qy_chain q, qy_address q] \<and> weight (query_json q) \<le> body_window \<and>
     header_text (cl_key c) = cl_key c"

section \<open>Reading what the other end wrote\<close>

lemma names_ascii [simp]:
  "is_ascii ''state''" "is_ascii ''address_type''" "is_ascii ''address''" "is_ascii ''chain''"
  "is_ascii ''balance_atomic''" "is_ascii ''asset_symbol''" "is_ascii ''has_balance''" "is_ascii ''checked_at''"
  "is_ascii ''error_code''" "is_ascii ''message''" "is_ascii ''provider''" "is_ascii ''retry_after_ms''"
  by code_simp+

lemma decode_request_query:
  assumes "fits_query c q"
  shows "decode_request (marshal (query_json q)) =
    (Some \<lparr>br_type = qy_type q, br_chain = qy_chain q, br_address = qy_address q\<rparr>, False)"
proof -
  have w: "writable (query_json q)" using assms by (simp add: fits_query_def query_json_def)
  have len: "length (marshal (query_json q)) \<le> body_window"
    using assms marshal_length(1) [of "query_json q"] by (simp add: fits_query_def)
  have "depth (query_json q) \<le> max_depth" "compound (query_json q)"
    by (simp_all add: query_json_def max_depth_def compound_def)
  with read_front [OF w, of "[]"] len have
    "next_value False (marshal (query_json q)) = Some (query_json q, [])"
    by (simp add: next_value_def ends_number_def)
  with len show ?thesis
    by (simp add: decode_request_def Let_def ensureSingleJSONValue_def skip_blanks_def query_json_def
        known_members_def request_fields_def field_of_def fill_def take_string_def)
qed

lemma received_query:
  assumes "fits_query c q"
  shows "received (raw_of (if cl_key c \<noteq> [] then Some (cl_key c) else None) (marshal (query_json q))) = request_of c q"
  using decode_request_query [OF assms] assms
  by (simp add: received_def raw_of_def request_of_def fits_query_def)

lemma decode_reply:
  assumes "fits_wire (rp_body reply)"
  shows "decode_result msg (snd (writeJSON reply)) r = (None, json_overlay (rp_body reply) r)"
proof -
  let ?v = "body_json (rp_body reply)"
  have w: "writable ?v \<and> depth ?v \<le> max_depth \<and> weight ?v \<le> body_limit \<and>
      fill_all result_fields ?v r = (True, json_overlay (rp_body reply) r)"
  proof (cases "rp_body reply")
    case (Checked b)
    with assms show ?thesis
      by (simp add: body_json_def response_json_def max_depth_def fill_all_def result_fields_def field_of_def
          take_string_def take_bool_def json_overlay_def)
  next
    case (Failed e)
    have "take_int (JNum (show_int (es_retry_ms e))) old = Some (es_retry_ms e)" for old
      using Failed assms by (simp add: take_int_def atoi_def big_set_string_show_int)
    with Failed assms show ?thesis
      by (simp add: body_json_def error_json_def unless_empty_def max_depth_def fill_all_def result_fields_def
          field_of_def take_string_def json_overlay_def or_default_def)
  next
    case (Capacity s)
    with assms show ?thesis by simp
  qed
  have len: "length (marshal ?v) \<le> body_limit" using w marshal_length(1) [of ?v] by linarith
  have "read_json (marshal ?v @ rest) = Some ?v" if "rest \<in> {[], [CHR 0x0A]}" for rest
    using w that by (intro read_back) (auto simp: ends_number_def is_digit_char_def between_def byte_def)
  moreover obtain rest where "rest \<in> {[], [CHR 0x0A]}" "take body_limit (snd (writeJSON reply)) = marshal ?v @ rest"
  proof
    show "take body_limit (snd (writeJSON reply)) = marshal ?v @ take (body_limit - length (marshal ?v)) [CHR 0x0A]"
      using len by (simp add: writeJSON_def)
  qed (simp add: take_Cons')
  ultimately have "read_json (take body_limit (snd (writeJSON reply))) = Some ?v" by simp
  with w show ?thesis by (simp add: decode_result_def Let_def)
qed

lemma Check_connected:
  assumes "fits_query c q" and "build (cl_base c @ ''/v1/balance'') = None"
    and "f (request_of c q) = Some reply" and "fits_wire (rp_body reply)"
  shows "Check_wire msg build (connected f) c q = client_Check (served reply) c q"
  using assms(2,3) received_query [OF assms(1)] decode_reply [OF assms(4)]
  by (simp add: Check_wire_def client_Check_def over_wire_def served_def connected_def Let_def
      writeJSON_def)

section \<open>What an accepted body is\<close>

lemma field_of_mem:
  assumes "field_of fs k = Some f"
  shows "f \<in> snd ` set fs"
proof (cases "map_of fs k")
  case None
  with assms obtain x where "List.find (\<lambda>f. fold_name (fst f) = fold_name k) fs = Some x" "f = snd x"
    by (auto simp: field_of_def)
  then show ?thesis by (auto simp: find_Some_iff)
next
  case (Some g)
  with assms map_of_SomeD [OF Some] show ?thesis by (force simp: field_of_def)
qed

definition text_or_null :: "json \<Rightarrow> bool" where
  "text_or_null v \<longleftrightarrow> v = JNull \<or> (\<exists>s. v = JStr s)"

lemma request_field_text:
  assumes "field_of request_fields k = Some f" and "f v a \<noteq> None"
  shows "text_or_null v"
proof -
  have "take_string v s \<noteq> None \<Longrightarrow> text_or_null v" for s
    by (auto simp: take_string_def text_or_null_def split: json.splits)
  with field_of_mem [OF assms(1)] assms(2) show ?thesis by (auto simp: request_fields_def)
qed

lemma filled_texts:
  assumes "fill_members request_fields ms a = Some b"
    and "list_all (\<lambda>m. field_of request_fields (fst m) \<noteq> None) ms"
  shows "list_all (\<lambda>m. text_or_null (snd m)) ms"
  using assms
proof (induction ms arbitrary: a)
  case (Cons m ms)
  obtain k v where m: "m = (k, v)" by (cases m)
  with Cons.prems obtain f where f: "field_of request_fields k = Some f" by auto
  with Cons.prems m obtain x where "f v a = Some x" "fill_members request_fields ms x = Some b"
    by (auto split: option.splits)
  with Cons f m request_field_text [OF f, of v a] show ?case by simp
qed simp

section \<open>Properties\<close>

text \<open>
  C11: the client and the balance endpoint over the wire. The bytes of a query are read back as
  that query and the bytes of a reply as that reply, so the client reports \<^verbatim>\<open>checked\<close> exactly
  when the provider was queried for what was asked and gave a number, with that number and
  its sign; otherwise it reports \<^verbatim>\<open>rejected\<close> or \<^verbatim>\<open>retry\<close> with a code and a message.
\<close>

theorem balance_over_wire:
  assumes "fits_query c q" and "build (cl_base c @ ''/v1/balance'') = None"
    and "HandleBalance ul quote sv env clock (request_of c q) l = Some (reply, tr, l')"
    and "fits_wire (rp_body reply)"
    and "Check_wire msg build (connected (endpoint_of ul quote sv env clock l)) c q = (r, err)"
  shows "err = None \<and>
    (if \<exists>n. provider_number ul sv env (request_of c q) tr n
     then \<exists>n. provider_number ul sv env (request_of c q) tr n \<and> ap_state r = ''checked'' \<and>
            big_set_string 10 (ap_balance r) = Some n \<and> (ap_has_balance r \<longleftrightarrow> 0 < n)
     else ap_state r \<in> {''rejected'', ''retry''} \<and> told_failure r)"
proof -
  have "endpoint_of ul quote sv env clock l (request_of c q) = Some reply"
    by (simp add: endpoint_of_def assms(3))
  from Check_connected [of c q build "endpoint_of ul quote sv env clock l" reply, OF assms(1,2) this assms(4)] assms(5)
  have "client_Check (served reply) c q = (r, err)" by simp
  from end_to_end [OF assms(3) this] show ?thesis .
qed

text \<open>
  C34: what the endpoint takes for a request. A body that leads to a query is at most 16 KiB
  long and is one JSON object, with nothing but blanks behind it, all of whose members are
  fields of a request with a text (or null) as their value.
\<close>

theorem strict_bodies:
  assumes "accept_request ul quote sv (received w) = Inr x"
  shows "length (wq_body w) \<le> body_window \<and>
    (\<exists>ms r. read_value (2 * length (wq_body w) + 2) (wq_body w) = Some (JObj ms, r) \<and> skip_blanks r = [] \<and>
       ms \<noteq> [] \<and> list_all (\<lambda>m. field_of request_fields (fst m) \<noteq> None \<and> text_or_null (snd m)) ms)"
proof -
  let ?zero = "\<lparr>br_type = [], br_chain = [], br_address = []\<rparr>"
  obtain t c a where "x = (t, c, a)" by (cases x) auto
  with assms have asked: "requested ul sv (received w) t c a" using accept_request_Inr by metis
  then obtain b where b: "decode_request (wq_body w) = (Some b, False)"
    and valid: "NormalizeAndValidate ul t (trim_space (br_address b)) = Inr a"
    by (cases "decode_request (wq_body w)") (auto simp: requested_def received_def)
  have ne: "b \<noteq> ?zero"
  proof
    assume "b = ?zero"
    moreover have "trim_space [] = []" by code_simp
    ultimately show False using valid by (simp add: NormalizeAndValidate_def)
  qed
  from b obtain v r where v: "next_value (body_window < length (wq_body w)) (take body_window (wq_body w)) = Some (v, r)"
    and known: "known_members request_fields v" and filled: "fill request_fields v ?zero = Some b"
    and single: "ensureSingleJSONValue (body_window < length (wq_body w)) r"
    by (auto simp: decode_request_def Let_def split: option.splits if_splits)
  from single have short: "length (wq_body w) \<le> body_window" and blank: "skip_blanks r = []"
    by (simp_all add: ensureSingleJSONValue_def)
  with v have whole: "read_value (2 * length (wq_body w) + 2) (wq_body w) = Some (v, r)"
    by (auto simp: next_value_def split: option.splits if_splits)
  from filled ne obtain ms where ms: "v = JObj ms" "fill_members request_fields ms ?zero = Some b"
    by (auto simp: fill_def split: json.splits)
  with known have k: "list_all (\<lambda>m. field_of request_fields (fst m) \<noteq> None) ms"
    by (simp add: known_members_def)
  with filled_texts [OF ms(2)] have
    "list_all (\<lambda>m. field_of request_fields (fst m) \<noteq> None \<and> text_or_null (snd m)) ms"
    by (simp add: list_all_iff)
  moreover have "ms \<noteq> []" using ms(2) ne by auto
  ultimately show ?thesis using short whole blank ms(1) by blast
qed

section \<open>Witnesses\<close>

lemma sample_fits: "fits_query sample_client sample_query"
proof -
  have "list_all utf8_ok [''sol'', ''solana'', sample_sol]"
  proof -
    have "list_all is_ascii [''sol'', ''solana'', sample_sol]" unfolding sample_sol_def by code_simp
    then show ?thesis by simp
  qed
  then show ?thesis
    by (simp add: fits_query_def sample_client_def sample_query_def query_json_def body_window_def header_text_def
        sample_sol_def)
qed

definition sample_reply :: http_reply where
  "sample_reply = answer_reply ''now'' ''sol'' ''solana'' sample_sol (ce_query sample_call ''solana'' sample_sol)"

lemma sample_answered:
  "\<exists>tr l'. HandleBalance id id sample_service sample_call ''now'' sample_request (new_limiter sample_cfg 0) =
     Some (sample_reply, tr, l')"
proof -
  have "case HandleBalance id id sample_service sample_call ''now'' sample_request
             (new_limiter sample_cfg 0) of
          Some (reply, tr, l') \<Rightarrow> reply = sample_reply | None \<Rightarrow> False"
    by (simp add: HandleBalance_def sample_accept sample_call_def Acquire_def quiet_env_def
        run_simps query_slot_def sample_reply_def)
  then show ?thesis by (auto split: option.splits)
qed

lemma sample_reply_fits: "fits_wire (rp_body sample_reply)"
proof -
  have s: "show_int 7 = ''7''" by code_simp
  have "list_all is_ascii [''checked'', ''sol'', sample_sol, ''solana'', ''7'', ''SOL'', ''now'']"
    unfolding sample_sol_def by code_simp
  then show ?thesis
    by (simp add: sample_reply_def answer_reply_def sample_call_def s response_json_def body_limit_def sample_sol_def)
qed

theorem balance_over_wire_witness:
  "\<exists>r. Check_wire id (\<lambda>_. None)
       (connected (endpoint_of id id sample_service sample_call ''now'' (new_limiter sample_cfg 0)))
       sample_client sample_query = (r, None) \<and> ap_state r = ''checked''"
proof -
  obtain tr l' where run: "HandleBalance id id sample_service sample_call ''now''
      (request_of sample_client sample_query) (new_limiter sample_cfg 0) = Some (sample_reply, tr, l')"
    using sample_answered sample_request_of by metis
  obtain r err where c: "Check_wire id (\<lambda>_. None)
       (connected (endpoint_of id id sample_service sample_call ''now'' (new_limiter sample_cfg 0)))
       sample_client sample_query = (r, err)" by fastforce
  obtain reply' tr' l'' where q: "HandleBalance id id sample_service sample_call ''now''
      (request_of sample_client sample_query) (new_limiter sample_cfg 0) = Some (reply', tr', l'')"
    and "Api_query ''solana'' sample_sol \<in> set tr'"
    using sample_handled by (metis sample_request_of)
  with run have "Api_query ''solana'' sample_sol \<in> set tr" by simp
  then have "\<exists>n. provider_number id sample_service sample_call (request_of sample_client sample_query) tr n"
    using sample_asked by (auto simp: provider_number_def sample_request_of sample_call_def)
  with balance_over_wire [OF sample_fits refl run sample_reply_fits c] c show ?thesis by auto
qed

theorem strict_bodies_witness:
  "length (marshal (query_json sample_query)) \<le> body_window"
proof -
  let ?w = "raw_of (Some ''k'') (marshal (query_json sample_query))"
  have "received ?w = sample_request"
    using received_query [OF sample_fits] sample_request_of by (simp add: sample_client_def)
  with sample_accept have "accept_request id id sample_service (received ?w) = Inr (''sol'', ''solana'', sample_sol)"
    by simp
  from strict_bodies [OF this] show ?thesis by (simp add: raw_of_def)
qed

end
