(* ===== verification/Webhook.thy ===== *)
theory Webhook
  imports Outbox Structs
begin

text \<open>
  The webhook on the wire: the payload in which a message is posted, how the answer of the
  robot is read, and what a sent event says about the bytes that were exchanged.
\<close>

section \<open>Posting a message\<close>

definition payload_json :: "string \<Rightarrow> json" where
  "payload_json content =
     json_map [(''msgtype'', JStr ''markdown''), (''markdown'', json_map [(''content'', JStr content)])]"

definition hook_fields :: "(int \<times> string) field list" where
  "hook_fields =
     [(''errcode'', \<lambda>v a. map_option (\<lambda>n. (n, snd a)) (take_int v (fst a))),
      (''errmsg'', \<lambda>v a. map_option (\<lambda>s. (fst a, s)) (take_string v (snd a)))]"

definition response_limit :: nat where
  "response_limit = 4096"

definition decode_hook :: "(string \<Rightarrow> string) \<Rightarrow> string \<Rightarrow> string + int \<times> string" where
  "decode_hook msg body = decode_into msg hook_fields (0, []) (take response_limit body)"

text \<open>
  A network: at the moment of a send, what comes back for a body posted to a URL. The client
  of the outbox over it: \<open>build\<close> is the error of the request constructor, if any.
\<close>

type_synonym robot_net = "nat \<Rightarrow> string \<Rightarrow> string \<Rightarrow> string + int \<times> string"

definition hook_over ::
  "(string \<Rightarrow> string) \<Rightarrow> (string \<Rightarrow> string option) \<Rightarrow> robot_net \<Rightarrow> string \<Rightarrow> nat \<Rightarrow> string \<Rightarrow> hook_call" where
  "hook_over msg build net url k content =
     \<lparr>hk_marshal = None, hk_build = build url,
      hk_do =
        (case net k url (marshal (payload_json content)) of
           Inl e \<Rightarrow> Hook_failed e
         | Inr (status, body) \<Rightarrow> Hook_responded status (decode_hook msg body))\<rparr>"

definition NewWeComClient ::
  "(string \<Rightarrow> string) \<Rightarrow> (string \<Rightarrow> string option) \<Rightarrow> robot_net \<Rightarrow> (nat \<Rightarrow> string) \<Rightarrow> string \<Rightarrow> wecom" where
  "NewWeComClient msg build net clock rawURL =
     \<lparr>wx_url = rawURL, wx_hook = hook_over msg build net rawURL, wx_clock = clock\<rparr>"

section \<open>What the robot reads\<close>

definition robot_reads :: "string \<Rightarrow> string option" where
  "robot_reads body =
     (case read_json body of
        Some (JObj [(a, JObj [(b, JStr content)]), (c, JStr kind)]) \<Rightarrow>
          if a = ''markdown'' \<and> b = ''content'' \<and> c = ''msgtype'' \<and> kind = ''markdown'' then Some content else None
      | _ \<Rightarrow> None)"

lemma payload_sorted:
  "payload_json content = JObj [(''markdown'', JObj [(''content'', JStr content)]), (''msgtype'', JStr ''markdown'')]"
  by (simp add: payload_json_def json_map_def less_char_def less_eq_char_def)

lemma robot_reads_payload:
  assumes "utf8_ok content"
  shows "robot_reads (marshal (payload_json content)) = Some content"
proof -
  have a: "is_ascii ''markdown''" "is_ascii ''content''" "is_ascii ''msgtype''" by code_simp+
  have "writable (payload_json content)" using assms a by (simp add: payload_sorted)
  moreover have "depth (payload_json content) \<le> max_depth" by (simp add: payload_sorted max_depth_def)
  ultimately have "read_json (marshal (payload_json content)) = Some (payload_json content)"
    by (rule read_written)
  then show ?thesis by (simp add: robot_reads_def payload_sorted)
qed

text \<open>A message that was taken: the robot answered 2xx and an error code of 0.\<close>

definition taken :: "robot_net \<Rightarrow> nat \<Rightarrow> string \<Rightarrow> string \<Rightarrow> bool" where
  "taken net k url content \<longleftrightarrow>
     (\<exists>body status reply v m. net k url body = Inr (status, reply) \<and> robot_reads body = Some content \<and>
        200 \<le> status \<and> status < 300 \<and> read_json (take response_limit reply) = Some v \<and>
        fill hook_fields v (0, []) = Some (0, m))"

lemma decode_hook_Inr:
  "decode_hook msg body = Inr x \<longleftrightarrow> (\<exists>v. read_json (take response_limit body) = Some v \<and> fill hook_fields v (0, []) = Some x)"
  by (auto simp: decode_hook_def decode_into_def split: option.splits)

lemma send_taken:
  assumes "wecom_send (hook_over msg build net url k content) = None" and "utf8_ok content"
  shows "taken net k url content"
proof -
  obtain status reply where net: "net k url (marshal (payload_json content)) = Inr (status, reply)"
    and st: "200 \<le> status" "status < 300" and d: "\<exists>m. decode_hook msg reply = Inr (0, m)"
    using assms(1)
    by (auto simp: wecom_send_def hook_over_def split: option.splits sum.splits if_splits prod.splits)
  from d obtain m v where "read_json (take response_limit reply) = Some v" "fill hook_fields v (0, []) = Some (0, m)"
    unfolding decode_hook_Inr by blast
  with net st robot_reads_payload [OF assms(2)] show ?thesis unfolding taken_def by blast
qed

lemma sent_taken:
  assumes "url \<noteq> []"
  shows "SendPositive (NewWeComClient msg build net clock url) k view = None \<Longrightarrow>
      utf8_ok (positive_content view (clock k)) \<Longrightarrow> taken net k url (positive_content view (clock k))"
    and "SendNode (NewWeComClient msg build net clock url) k nview = None \<Longrightarrow>
      utf8_ok (node_content nview (clock k)) \<Longrightarrow> taken net k url (node_content nview (clock k))"
  using assms by (auto simp: SendPositive_def SendNode_def NewWeComClient_def intro: send_taken)

section \<open>The texts are UTF-8\<close>

lemma utf8_ok_append [simp]: "utf8_ok a \<Longrightarrow> utf8_ok b \<Longrightarrow> utf8_ok (a @ b)"
proof (induction a rule: utf8_ok.induct)
  case (2 c cs)
  show ?case
  proof (cases "byte c < 128")
    case True
    with 2 show ?thesis by (simp add: utf8_ok.simps(2))
  next
    case False
    let ?n = "utf8_len (c # cs)"
    have n: "2 \<le> ?n" and ok: "utf8_ok (drop ?n (c # cs))"
      using 2(3) False by (simp_all add: utf8_ok.simps(2) [of c cs] max_def split: if_splits)
    have le: "?n \<le> length (c # cs)" by (rule utf8_len_le)
    have "take ?n (c # cs) @ drop ?n (c # cs) @ b = c # cs @ b"
      unfolding append_assoc [symmetric] append_take_drop_id by simp
    with utf8_len_front [OF n, of "drop ?n (c # cs) @ b"] have same: "utf8_len (c # cs @ b) = ?n" by simp
    have "utf8_ok (drop ?n (c # cs) @ b)"
      using 2(2) [OF False] n ok 2(4) by (simp add: max_def)
    moreover have "drop ?n (c # cs @ b) = drop ?n (c # cs) @ b"
      using le drop_append [of ?n "c # cs" b] by simp
    ultimately show ?thesis using n same False by (simp add: utf8_ok.simps(2) [of c "cs @ b"] max_def)
  qed
qed simp

lemma byte_char_of: "byte (char_of n) = n mod 256" for n :: nat
  by (simp add: byte_def)

lemma utf8_bytes:
  "n < 128 \<Longrightarrow> utf8_ok (bytes (n # ns)) \<longleftrightarrow> utf8_ok (bytes ns)"
  "225 \<le> n \<Longrightarrow> n \<le> 239 \<Longrightarrow> n \<noteq> 237 \<Longrightarrow> 128 \<le> m \<Longrightarrow> m \<le> 191 \<Longrightarrow> 128 \<le> k \<Longrightarrow> k \<le> 191 \<Longrightarrow>
     utf8_ok (bytes (n # m # k # ns)) \<longleftrightarrow> utf8_ok (bytes ns)"
proof -
  show "n < 128 \<Longrightarrow> utf8_ok (bytes (n # ns)) \<longleftrightarrow> utf8_ok (bytes ns)"
    by (simp add: bytes_def utf8_ok.simps(2) byte_char_of)
  assume h: "225 \<le> n" "n \<le> 239" "n \<noteq> 237" "128 \<le> m" "m \<le> 191" "128 \<le> k" "k \<le> 191"
  have "utf8_len (bytes (n # m # k # ns)) = 3"
    using h by (simp add: bytes_def utf8_len_three between_def byte_char_of)
  with h show "utf8_ok (bytes (n # m # k # ns)) \<longleftrightarrow> utf8_ok (bytes ns)"
    by (simp add: bytes_def utf8_ok.simps(2) [of "char_of n"] byte_char_of numeral_3_eq_3)
qed

lemma utf8_bytes_Nil: "utf8_ok (bytes [])"
  by (simp add: bytes_def)

lemma message_texts [simp]:
  "utf8_ok txt_positive" "utf8_ok txt_label" "utf8_ok txt_balance" "utf8_ok txt_query_time" "utf8_ok txt_colon"
  "utf8_ok txt_smallest_unit" "utf8_ok txt_close" "utf8_ok txt_node" "utf8_ok txt_provider" "utf8_ok txt_error"
  "utf8_ok txt_failures" "utf8_ok txt_action"
  unfolding txt_positive_def txt_label_def txt_balance_def txt_query_time_def txt_colon_def txt_smallest_unit_def
    txt_close_def txt_node_def txt_provider_def txt_error_def txt_failures_def txt_action_def
  by (simp_all add: utf8_bytes utf8_bytes_Nil)

lemma ascii_parts:
  "is_ascii s \<Longrightarrow> is_ascii (take n s)" "is_ascii s \<Longrightarrow> is_ascii (drop n s)"
  "is_ascii s \<Longrightarrow> is_ascii (trim_zeros s)" "is_ascii s \<Longrightarrow> is_ascii (padded n s)"
  "is_ascii s \<Longrightarrow> is_ascii t \<Longrightarrow> is_ascii (s @ t)" "is_ascii s \<Longrightarrow> is_ascii (CHR ''.'' # s)"
proof -
  show "is_ascii s \<Longrightarrow> is_ascii (trim_zeros s)"
    by (auto simp: is_ascii_bytes trim_zeros_def dest: set_dropWhileD)
  have "byte (CHR ''0'') < 128" by (simp add: byte_def)
  then show "is_ascii s \<Longrightarrow> is_ascii (padded n s)" by (auto simp: is_ascii_bytes padded_def)
  show "is_ascii s \<Longrightarrow> is_ascii (CHR ''.'' # s)" by (simp add: is_ascii_bytes byte_def)
qed (auto simp: is_ascii_bytes dest: in_set_takeD in_set_dropD)

lemma ascii_show_int: "is_ascii (show_int k)"
proof -
  have "is_ascii (show_base 10 n)" for n
    using show_digits [of _ n] by (fastforce simp: is_ascii_bytes byte_def digit_char_def Let_def)
  moreover have "byte (CHR ''-'') < 128" by (simp add: byte_def)
  ultimately show ?thesis by (simp add: show_int_def is_ascii_bytes)
qed

lemma utf8_formatAtomic: "utf8_ok raw \<Longrightarrow> utf8_ok (formatAtomic raw d)"
  by (auto simp: formatAtomic_def Let_def ascii_show_int ascii_parts intro!: utf8_ok_ascii split: option.splits)

text \<open>The texts of a message, as PostgreSQL hands them out.\<close>

definition utf8_view :: "notification_view \<Rightarrow> bool" where
  "utf8_view view \<longleftrightarrow>
     utf8_ok (vw_address view) \<and> utf8_ok (vw_label view) \<and>
     list_all (\<lambda>f. utf8_ok (pv_chain f) \<and> utf8_ok (pv_balance f) \<and> utf8_ok (pv_symbol f)) (vw_findings view)"

definition utf8_node :: "node_view \<Rightarrow> bool" where
  "utf8_node view \<longleftrightarrow> utf8_ok (nv_chain view) \<and> utf8_ok (nv_provider view) \<and> utf8_ok (nv_code view)"

lemma utf8_ok_Cons_ascii: "byte c < 128 \<Longrightarrow> utf8_ok (c # s) \<longleftrightarrow> utf8_ok s"
  by (simp add: utf8_ok.simps(2))

lemma unit_names: "utf8_ok (snd (chainUnits c))"
proof -
  have "is_ascii ''satoshi''" "is_ascii ''wei''" "is_ascii ''lamport''" "is_ascii ''sun''" "is_ascii ''atomic''"
    by code_simp+
  then show ?thesis by (auto simp: chainUnits_def)
qed

lemma content_utf8:
  assumes "utf8_ok now"
  shows "utf8_view view \<Longrightarrow> utf8_ok (positive_content view now)"
    and "utf8_node nview \<Longrightarrow> utf8_ok (node_content nview now)"
proof -
  have c: "utf8_ok ('' '' @ s) \<longleftrightarrow> utf8_ok s" "utf8_ok (CHR 0x0A # s) \<longleftrightarrow> utf8_ok s" for s
    by (simp_all add: utf8_ok_Cons_ascii byte_def)
  have f: "utf8_ok (formatFinding f)" if "utf8_ok (pv_chain f)" "utf8_ok (pv_balance f)" "utf8_ok (pv_symbol f)" for f
    using that unit_names [of "pv_chain f"]
    unfolding formatFinding_def by (auto simp: c(1) utf8_formatAtomic utf8_ok_Cons_ascii byte_def split: prod.split)
  have "utf8_ok (concat (map (\<lambda>f. CHR 0x0A # formatFinding f) fs))"
    if "list_all (\<lambda>f. utf8_ok (pv_chain f) \<and> utf8_ok (pv_balance f) \<and> utf8_ok (pv_symbol f)) fs" for fs
    using that by (induction fs) (simp_all add: utf8_ok_Cons_ascii byte_def f)
  with assms show "utf8_view view \<Longrightarrow> utf8_ok (positive_content view now)"
    by (simp add: utf8_view_def positive_content_def)
  show "utf8_node nview \<Longrightarrow> utf8_ok (node_content nview now)"
    using assms by (simp add: utf8_node_def node_content_def ascii_show_int)
qed

text \<open>PostgreSQL keeps its texts in UTF-8: what a message is made of.\<close>

definition utf8_db :: "db \<Rightarrow> bool" where
  "utf8_db d \<longleftrightarrow>
     (\<forall>a \<in> set (addresses d). utf8_ok (wa_address a) \<and> utf8_ok (wa_label a)) \<and>
     (\<forall>f \<in> set (findings d). utf8_ok (pf_chain f) \<and> utf8_ok (pf_symbol f)) \<and>
     (\<forall>n \<in> set (incidents d). utf8_ok (ni_chain n) \<and> utf8_ok (ni_provider n) \<and> utf8_ok (ni_code n))"

lemma loaded_utf8:
  assumes "utf8_db d"
  shows "LoadNotification E i (d\<lparr>tick := n\<rparr>) = (Inr view, d') \<Longrightarrow> utf8_view view"
    and "LoadNodeNotification E i (d\<lparr>tick := n\<rparr>) = (Inr nview, d') \<Longrightarrow> utf8_node nview"
proof -
  assume "LoadNotification E i (d\<lparr>tick := n\<rparr>) = (Inr view, d')"
  then obtain e a fs d1 d2 where joined: "exec E (sql_positive_event i) (d\<lparr>tick := n\<rparr>) = (Inr (e, a), d1)"
    and listed: "exec E (sql_positives_of (wa_id a)) d1 = (Inr fs, d2)"
    and view: "view = \<lparr>vw_event = ne_id e, vw_type = ne_type e, vw_address = wa_address a, vw_label = wa_label a,
      vw_findings = fs\<rparr>"
    unfolding LoadNotification_def bindE_eq_Inr wrapD_Inr fetch_Inr ret_def split_paired_Ex prod.case by blast
  from joined have a: "a \<in> set (addresses d)" and d1: "findings d1 = findings d"
    by (auto simp: exec_Inr sql_positive_event_def dest!: row_of_key split: option.splits)
  from listed d1 have "\<forall>f \<in> set fs. \<exists>q \<in> set (findings d). f = \<lparr>pv_chain = pf_chain q,
      pv_balance = show_int (pf_balance q), pv_symbol = pf_symbol q\<rparr>"
    by (auto simp: exec_Inr sql_positives_of_def)
  with a view assms show "utf8_view view"
    by (fastforce simp: utf8_view_def utf8_db_def list_all_iff ascii_show_int)
next
  assume "LoadNodeNotification E i (d\<lparr>tick := n\<rparr>) = (Inr nview, d')"
  with assms show "utf8_node nview"
    by (auto simp: LoadNodeNotification_def exec_Inr sql_node_event_def utf8_node_def utf8_db_def dest!: row_of_key
        split: option.splits)
qed

section \<open>Properties\<close>


section \<open>Witnesses\<close>

definition kind_robot :: robot_net where
  "kind_robot k url body = Inr (200, ''{}'')"

lemma kind_answer: "decode_hook id ''{}'' = Inr (0, [])"
proof -
  have "read_json ''{}'' = Some (JObj [])"
    using read_written [of "JObj []"] by (simp add: max_depth_def)
  then show ?thesis by (simp add: decode_hook_def decode_into_def response_limit_def fill_def)
qed

lemma kind_send: "wecom_send (hook_over id (\<lambda>_. None) kind_robot url k content) = None"
  by (simp add: wecom_send_def hook_over_def kind_robot_def kind_answer)


end
