(* ===== verification/Queries.thy ===== *)
theory Queries
  imports Providers Structs
begin

text \<open>
  The queries of the providers on the wire: the request each \<^verbatim>\<open>Check\<close> sends and how its
  response struct is filled from the body. The node is a function from requests to outcomes,
  so that the providers can be run against a node that keeps to its protocol.
\<close>

section \<open>Requests\<close>

record outgoing =
  og_method :: string
  og_url :: string
  og_json :: bool
  og_body :: string

definition outgoing_of :: "string \<Rightarrow> string \<Rightarrow> json option \<Rightarrow> outgoing" where
  "outgoing_of method rawURL payload =
     \<lparr>og_method = method, og_url = rawURL, og_json = (payload \<noteq> None),
      og_body = (case payload of None \<Rightarrow> [] | Some j \<Rightarrow> marshal j)\<rparr>"

definition evm_query :: "evm_provider \<Rightarrow> string \<Rightarrow> outgoing" where
  "evm_query p address =
     outgoing_of ''POST'' (evm_url p)
       (Some (json_map [(''jsonrpc'', JStr ''2.0''), (''method'', JStr ''eth_getBalance''),
          (''params'', JArr [JStr address, JStr ''latest'']), (''id'', JNum ''1'')]))"

definition btc_query :: "string \<Rightarrow> string \<Rightarrow> outgoing" where
  "btc_query rawURL address = outgoing_of ''GET'' (addressPath rawURL address) None"

definition solana_query :: "string \<Rightarrow> string \<Rightarrow> outgoing" where
  "solana_query rawURL address =
     outgoing_of ''POST'' rawURL
       (Some (json_map [(''jsonrpc'', JStr ''2.0''), (''method'', JStr ''getBalance''),
          (''params'', JArr [JStr address]), (''id'', JNum ''1'')]))"

definition tron_query :: "string \<Rightarrow> string \<Rightarrow> outgoing" where
  "tron_query rawURL address =
     outgoing_of ''POST'' (rpcURL rawURL @ ''/wallet/getaccount'')
       (Some (json_map [(''address'', JStr address), (''visible'', JBool True)]))"

section \<open>Response structs\<close>

text \<open>A pointer to a struct with the code of an error: null makes it nil.\<close>

definition take_error :: "json \<Rightarrow> int option \<Rightarrow> int option option" where
  "take_error v old =
     (if v = JNull then Some None
      else map_option Some
        (fill [(''code'', take_int), (''message'', unused take_string [])] v (case old of None \<Rightarrow> 0 | Some c \<Rightarrow> c)))"

definition evm_fields :: "evm_response field list" where
  "evm_fields =
     [(''jsonrpc'', unused take_string []), (''id'', unused take_int 0),
      (''result'', \<lambda>v a. map_option (\<lambda>s. a\<lparr>er_result := s\<rparr>) (take_string v (er_result a))),
      (''error'', \<lambda>v a. map_option (\<lambda>e. a\<lparr>er_error := e\<rparr>) (take_error v (er_error a)))]"

definition btc_stats :: "btc_response field list" where
  "btc_stats =
     [(''funded_txo_sum'', \<lambda>v a. map_option (\<lambda>n. a\<lparr>br_funded := n\<rparr>) (take_uint64 v (br_funded a))),
      (''spent_txo_sum'', \<lambda>v a. map_option (\<lambda>n. a\<lparr>br_spent := n\<rparr>) (take_uint64 v (br_spent a)))]"

definition btc_fields :: "btc_response field list" where
  "btc_fields = [(''chain_stats'', fill btc_stats)]"

definition solana_fields :: "solana_response field list" where
  "solana_fields =
     [(''jsonrpc'', unused take_string []),
      (''result'', fill [(''value'', \<lambda>v a. map_option (\<lambda>n. a\<lparr>sr_value := n\<rparr>) (take_uint64 v (sr_value a)))]),
      (''error'', \<lambda>v a. map_option (\<lambda>e. a\<lparr>sr_error := e\<rparr>) (take_error v (sr_error a)))]"

definition tron_fields :: "64 word field list" where
  "tron_fields = [(''balance'', take_uint64)]"

section \<open>The checks over a network\<close>

text \<open>What building and sending a request gives; the payloads above can always be encoded.\<close>

type_synonym network = "outgoing \<Rightarrow> string option \<times> http_outcome"

definition call_of :: "network \<Rightarrow> outgoing \<Rightarrow> http_call" where
  "call_of net q = \<lparr>hc_marshal = None, hc_build = fst (net q), hc_do = snd (net q)\<rparr>"

definition EVM_Check ::
  "(nat \<Rightarrow> nat \<Rightarrow> nat \<Rightarrow> nat) \<Rightarrow> (string \<Rightarrow> string) \<Rightarrow> network \<Rightarrow> evm_provider \<Rightarrow> string \<Rightarrow> go_error + balance" where
  "EVM_Check ff msg net p address =
     EVMCheck ff (decode_into msg evm_fields \<lparr>er_result = [], er_error = None\<rparr>) p (call_of net (evm_query p address))"

definition BTC_Check ::
  "(nat \<Rightarrow> nat \<Rightarrow> nat \<Rightarrow> nat) \<Rightarrow> (string \<Rightarrow> string) \<Rightarrow> network \<Rightarrow> string \<Rightarrow> string \<Rightarrow> go_error + balance" where
  "BTC_Check ff msg net rawURL address =
     BTCCheck ff (decode_into msg btc_fields \<lparr>br_funded = 0, br_spent = 0\<rparr>) (call_of net (btc_query rawURL address))"

definition Solana_Check ::
  "(nat \<Rightarrow> nat \<Rightarrow> nat \<Rightarrow> nat) \<Rightarrow> (string \<Rightarrow> string) \<Rightarrow> network \<Rightarrow> string \<Rightarrow> string \<Rightarrow> go_error + balance" where
  "Solana_Check ff msg net rawURL address =
     SolanaCheck ff (decode_into msg solana_fields \<lparr>sr_value = 0, sr_error = None\<rparr>) (call_of net (solana_query rawURL address))"

definition TRON_Check ::
  "(nat \<Rightarrow> nat \<Rightarrow> nat \<Rightarrow> nat) \<Rightarrow> (string \<Rightarrow> string) \<Rightarrow> network \<Rightarrow> string \<Rightarrow> string \<Rightarrow> go_error + balance" where
  "TRON_Check ff msg net rawURL address =
     TRONCheck ff (decode_into msg tron_fields 0) (call_of net (tron_query rawURL address))"

section \<open>Nodes that keep to their protocol\<close>

text \<open>
  A JSON-RPC node with a ledger: it answers the query for the balance of an address with that
  balance, under the identifier of the query, and anything else with an error.
\<close>

definition reply_json :: "json \<Rightarrow> string option \<times> http_outcome" where
  "reply_json v = (None, Responded 200 [] (marshal v))"

definition member :: "string \<Rightarrow> json \<Rightarrow> json" where
  "member k v = (case v of JObj ms \<Rightarrow> (case map_of ms k of None \<Rightarrow> JNull | Some x \<Rightarrow> x) | _ \<Rightarrow> JNull)"

definition body_of :: "outgoing \<Rightarrow> json" where
  "body_of q = (case read_json (og_body q) of None \<Rightarrow> JNull | Some v \<Rightarrow> v)"

definition rpc_result :: "json \<Rightarrow> json \<Rightarrow> json" where
  "rpc_result i x = JObj [(''jsonrpc'', JStr ''2.0''), (''id'', i), (''result'', x)]"

definition rpc_error :: "json \<Rightarrow> int \<Rightarrow> string \<Rightarrow> json" where
  "rpc_error i c m =
     JObj [(''jsonrpc'', JStr ''2.0''), (''id'', i),
       (''error'', JObj [(''code'', JNum (show_int c)), (''message'', JStr m)])]"

definition rpc_refused :: json where
  "rpc_refused = rpc_error JNull (- 32600) ''invalid request''"

text \<open>A node that has the same reply for every request.\<close>

definition always :: "json \<Rightarrow> network" where
  "always v q = reply_json v"

definition rpc_node :: "string \<Rightarrow> (string \<Rightarrow> json) \<Rightarrow> network" where
  "rpc_node method_name answer q =
     reply_json
       (case member ''params'' (body_of q) of
          JArr (JStr a # _) \<Rightarrow>
            if og_method q = ''POST'' \<and> og_json q \<and> member ''jsonrpc'' (body_of q) = JStr ''2.0'' \<and>
               member ''method'' (body_of q) = JStr method_name
            then rpc_result (member ''id'' (body_of q)) (answer a) else rpc_refused
        | _ \<Rightarrow> rpc_refused)"

definition evm_node :: "(string \<Rightarrow> nat) \<Rightarrow> network" where
  "evm_node ledger = rpc_node ''eth_getBalance'' (\<lambda>a. JStr (''0x'' @ show_base 16 (ledger a)))"

definition solana_node :: "(string \<Rightarrow> nat) \<Rightarrow> network" where
  "solana_node ledger =
     rpc_node ''getBalance''
       (\<lambda>a. JObj [(''context'', JObj [(''slot'', JNum ''1'')]), (''value'', JNum (show_int (int (ledger a))))])"

text \<open>\<^verbatim>\<open>GET base/address/...\<close> of an address with what it received and what it spent.\<close>

fun path_unescape :: "string \<Rightarrow> string" where
  "path_unescape (a # b # c # cs) =
     (if a = CHR ''%'' then (case hex_value [CHR ''0'', CHR ''0'', b, c] of
                               None \<Rightarrow> a # path_unescape (b # c # cs)
                             | Some n \<Rightarrow> char_of n # path_unescape cs)
      else a # path_unescape (b # c # cs))"
| "path_unescape (a # cs) = a # path_unescape cs"
| "path_unescape [] = []"

definition btc_node :: "string \<Rightarrow> (string \<Rightarrow> nat \<times> nat) \<Rightarrow> network" where
  "btc_node base ledger q =
     (let front = rpcURL base @ ''/address/'';
          a = path_unescape (drop (length front) (og_url q))
      in if og_method q = ''GET'' \<and> has_prefix (og_url q) front
         then reply_json (JObj [(''address'', JStr a), (''chain_stats'',
                JObj [(''funded_txo_count'', JNum ''1''), (''funded_txo_sum'', JNum (show_int (int (fst (ledger a))))),
                      (''spent_txo_sum'', JNum (show_int (int (snd (ledger a)))))])])
         else (None, Responded 404 [] []))"

definition tron_node :: "string \<Rightarrow> (string \<Rightarrow> nat) \<Rightarrow> network" where
  "tron_node base ledger q =
     (case member ''address'' (body_of q) of
        JStr a \<Rightarrow>
          if og_method q = ''POST'' \<and> og_url q = rpcURL base @ ''/wallet/getaccount'' \<and>
             member ''visible'' (body_of q) = JBool True
          then reply_json (JObj [(''address'', JStr a), (''balance'', JNum (show_int (int (ledger a))))])
          else (None, Responded 404 [] [])
      | _ \<Rightarrow> (None, Responded 404 [] []))"

section \<open>What a node receives\<close>

lemma query_sorted:
  "json_map [(''jsonrpc'', a), (''method'', b), (''params'', c), (''id'', d)] =
     JObj [(''id'', d), (''jsonrpc'', a), (''method'', b), (''params'', c)]"
  "json_map [(''address'', a), (''visible'', b)] = JObj [(''address'', a), (''visible'', b)]"
  by (simp_all add: json_map_def less_char_def less_eq_char_def)

lemma body_of_query: "writable v \<Longrightarrow> depth v \<le> max_depth \<Longrightarrow> body_of (outgoing_of m u (Some v)) = v"
  by (simp add: body_of_def outgoing_of_def read_written)

lemma literal_ascii [simp]:
  "is_ascii ''2.0''" "is_ascii ''eth_getBalance''" "is_ascii ''getBalance''" "is_ascii ''latest''"
  "is_ascii ''jsonrpc''" "is_ascii ''method''" "is_ascii ''params''" "is_ascii ''id''" "is_ascii ''address''"
  "is_ascii ''visible''" "is_ascii ''result''" "is_ascii ''value''" "is_ascii ''context''" "is_ascii ''slot''"
  "is_ascii ''balance''" "is_ascii ''chain_stats''" "is_ascii ''funded_txo_count''" "is_ascii ''funded_txo_sum''"
  "is_ascii ''spent_txo_sum''" "is_ascii ''error''" "is_ascii ''code''" "is_ascii ''message''" "is_ascii ''invalid request''"
  by code_simp+

lemma outgoing_sels [simp]:
  "og_method (outgoing_of m u j) = m" "og_url (outgoing_of m u j) = u" "og_json (outgoing_of m u j) = (j \<noteq> None)"
  by (simp_all add: outgoing_of_def)

lemma query_bodies:
  assumes "utf8_ok a"
  shows "body_of (evm_query p a) = JObj [(''id'', JNum ''1''), (''jsonrpc'', JStr ''2.0''),
      (''method'', JStr ''eth_getBalance''), (''params'', JArr [JStr a, JStr ''latest''])]"
    and "body_of (solana_query u a) = JObj [(''id'', JNum ''1''), (''jsonrpc'', JStr ''2.0''),
      (''method'', JStr ''getBalance''), (''params'', JArr [JStr a])]"
    and "body_of (tron_query base a) = JObj [(''address'', JStr a), (''visible'', JBool True)]"
  unfolding evm_query_def solana_query_def tron_query_def query_sorted
  by (rule body_of_query; simp add: assms writable_one max_depth_def del: writable.simps(1))+

lemma query_heads [simp]:
  "og_method (evm_query p a) = ''POST''" "og_json (evm_query p a)"
  "og_method (solana_query u a) = ''POST''" "og_json (solana_query u a)"
  "og_method (tron_query u a) = ''POST''" "og_url (tron_query u a) = rpcURL u @ ''/wallet/getaccount''"
  "og_method (btc_query u a) = ''GET''" "og_url (btc_query u a) = addressPath u a"
  by (simp_all add: evm_query_def solana_query_def tron_query_def btc_query_def)

lemma node_asked:
  assumes "utf8_ok a"
  shows "rpc_node ''eth_getBalance'' f (evm_query p a) = reply_json (rpc_result (JNum ''1'') (f a))"
    and "rpc_node ''getBalance'' f (solana_query u a) = reply_json (rpc_result (JNum ''1'') (f a))"
  by (simp_all add: rpc_node_def query_bodies [OF assms] member_def)

lemma tron_asked:
  assumes "utf8_ok a"
  shows "tron_node base ledger (tron_query base a) =
    reply_json (JObj [(''address'', JStr a), (''balance'', JNum (show_int (int (ledger a))))])"
  by (simp add: tron_node_def query_bodies [OF assms] member_def)

text \<open>The node reads the address back from the path.\<close>

lemma upper_hex_value: "d < 16 \<Longrightarrow> digit_val (upper_hex d) = Some d"
  by (simp add: digit_val_def upper_hex_def Let_def)

lemma path_safe_not_percent: "path_safe c \<Longrightarrow> c \<noteq> CHR ''%''"
  by (auto simp: path_safe_def Let_def)

lemma path_unescape_plain: "c \<noteq> CHR ''%'' \<Longrightarrow> path_unescape (c # cs) = c # path_unescape cs"
  by (cases cs rule: path_unescape.cases) simp_all

lemma path_escape_back: "path_unescape (path_escape a) = a"
proof (induction a)
  case (Cons c a)
  have less: "of_char c < (256 :: nat)" by (rule nat_of_char_less_256)
  then have "of_char c div 16 < (16 :: nat)" by (simp add: less_mult_imp_div_less)
  moreover have "(of_char c :: nat) mod 16 < 16" by simp
  moreover have "digit_val (CHR ''0'') = Some 0" by (simp add: digit_val_def)
  ultimately have "hex_value [CHR ''0'', CHR ''0'', upper_hex (of_char c div 16), upper_hex (of_char c mod 16)] = Some (of_char c)"
    by (simp add: hex_value_def upper_hex_value)
  with Cons show ?case
    by (cases "path_safe c")
      (simp_all add: path_escape_def escape_char_def path_unescape_plain path_safe_not_percent)
qed (simp add: path_escape_def)

lemma btc_asked:
  "btc_node base ledger (btc_query base a) =
     reply_json (JObj [(''address'', JStr a), (''chain_stats'',
       JObj [(''funded_txo_count'', JNum ''1''), (''funded_txo_sum'', JNum (show_int (int (fst (ledger a))))),
             (''spent_txo_sum'', JNum (show_int (int (snd (ledger a)))))])])"
  by (simp add: btc_node_def addressPath_def has_prefix_def Let_def path_escape_back)

section \<open>What a provider makes of a reply\<close>

lemma request_reply:
  assumes "net q = reply_json v" and "writable v" and "depth v \<le> max_depth" and "weight v \<le> body_limit"
  shows "request ff (decode_into msg fs zero) hp name (call_of net q) =
    (case fill fs v zero of
       None \<Rightarrow> Inl (Perr (providerError ''response_decode_error'' name False (msg (marshal v))))
     | Some a \<Rightarrow> Inr a)"
proof -
  have "length (marshal v) \<le> body_limit" using marshal_length(1) [of v] assms(4) by simp
  moreover have "read_json (marshal v) = Some v" using read_written assms(2,3) .
  ultimately show ?thesis
    by (simp add: request_def call_of_def assms(1) reply_json_def decode_into_def split: option.split)
qed

lemma request_filled:
  assumes "net q = reply_json v" and "writable v" and "depth v \<le> max_depth" and "weight v \<le> body_limit"
    and "fill fs v zero = Some r"
  shows "request ff (decode_into msg fs zero) hp name (call_of net q) = Inr r"
  by (simp add: request_reply [of net q v, OF assms(1-4)] assms(5))

lemma hex_ascii: "is_ascii (show_base 16 n)"
proof -
  have "byte c < 128" if "c \<in> set (show_base 16 n)" for c
  proof -
    from that obtain d where "d < 16" "c = digit_char d" using base_digits [of 16 c n] by auto
    then show ?thesis by (simp add: byte_def digit_char_def Let_def)
  qed
  then show ?thesis by (simp add: is_ascii_bytes)
qed

lemma small_names [simp]:
  "is_small ''context''" "is_small ''address''" "is_small ''result''" "is_small ''funded_txo_count''"
  "is_small ''value''" "is_small ''balance''" "is_small ''chain_stats''" "is_small ''funded_txo_sum''"
  "is_small ''spent_txo_sum''" "is_small ''jsonrpc''" "is_small ''error''" "is_small ''id''"
  by code_simp+

lemma take_uint64_show: "n < 2 ^ 64 \<Longrightarrow> take_uint64 (JNum (show_int (int n))) old = Some (of_nat n)"
  by (simp add: take_uint64_def show_int_def unsigned_val_show_base)

lemma take_int_one: "take_int (JNum ''1'') old = Some 1"
  by code_simp

lemmas filling = fill_def field_of_def fold_small unused_def take_string_def take_int_one take_uint64_show

lemma fill_evm:
  "fill evm_fields (rpc_result (JNum ''1'') (JStr s)) r = Some (r\<lparr>er_result := s\<rparr>)"
  by (simp add: filling rpc_result_def evm_fields_def)

lemma fill_btc:
  "n < 2 ^ 64 \<Longrightarrow> m < 2 ^ 64 \<Longrightarrow>
   fill btc_fields (JObj [(''address'', JStr a), (''chain_stats'',
       JObj [(''funded_txo_count'', JNum ''1''), (''funded_txo_sum'', JNum (show_int (int n))),
             (''spent_txo_sum'', JNum (show_int (int m)))])]) r =
     Some \<lparr>br_funded = of_nat n, br_spent = of_nat m\<rparr>"
  by (simp add: filling btc_fields_def btc_stats_def)

lemma fill_solana:
  "n < 2 ^ 64 \<Longrightarrow>
   fill solana_fields (rpc_result (JNum ''1'')
      (JObj [(''context'', JObj [(''slot'', JNum ''1'')]), (''value'', JNum (show_int (int n)))])) r =
     Some (r\<lparr>sr_value := of_nat n\<rparr>)"
  by (simp add: filling solana_fields_def rpc_result_def)

lemma fill_tron:
  "n < 2 ^ 64 \<Longrightarrow>
   fill tron_fields (JObj [(''address'', JStr a), (''balance'', JNum (show_int (int n)))]) r = Some (of_nat n)"
  by (simp add: filling tron_fields_def)

lemma string_reply:
  assumes "utf8_ok s" and "length s \<le> 1024"
  shows "writable (rpc_result (JNum ''1'') (JStr s))" and "depth (rpc_result (JNum ''1'') (JStr s)) \<le> max_depth"
    and "weight (rpc_result (JNum ''1'') (JStr s)) \<le> body_limit"
  using assms writable_one by (simp_all add: rpc_result_def max_depth_def body_limit_def del: writable.simps(1))

lemma hex_short:
  assumes "n < 2 ^ 256" and "is_ascii s" and "length s \<le> 512"
  shows "utf8_ok (s @ show_base 16 n)" and "length (s @ show_base 16 n) \<le> 1024"
proof -
  have "n < 16 ^ Suc 63" using assms(1) by simp
  from show_base_length [OF _ this] have "length (show_base 16 n) \<le> 64" by simp
  with assms(3) show "length (s @ show_base 16 n) \<le> 1024" by simp
  have "is_ascii (s @ show_base 16 n)" using assms(2) hex_ascii [of n] by (simp add: is_ascii_def)
  then show "utf8_ok (s @ show_base 16 n)" by simp
qed

lemma quantity_marks [simp]: "is_ascii ''0x''" "is_ascii ''0x-''" "length ''0x'' \<le> 512" "length ''0x-'' \<le> 512"
  by code_simp+

lemma error_reply:
  assumes "min_int64 \<le> c" and "c \<le> max_int64" and "utf8_ok m" and "length m \<le> 1024"
  shows "writable (rpc_error (JNum ''1'') c m)" and "depth (rpc_error (JNum ''1'') c m) \<le> max_depth"
    and "weight (rpc_error (JNum ''1'') c m) \<le> body_limit"
    and "take_int (JNum (show_int c)) old = Some c"
proof -
  show "writable (rpc_error (JNum ''1'') c m)"
    using writable_one writable_nat assms(3) by (simp add: rpc_error_def del: writable.simps(1))
  have "length (show_int (int (nat (- c)))) \<le> 20" if "c < 0"
    using that assms(1) by (intro show_nat_length) (simp add: min_int64_def)
  moreover have "length (show_int (int (nat c))) \<le> 20"
    using assms(2) by (intro show_nat_length) (simp add: max_int64_def)
  ultimately have "length (show_int c) \<le> 21" by (auto simp: show_int_def)
  with assms(4) show "weight (rpc_error (JNum ''1'') c m) \<le> body_limit"
    by (simp add: rpc_error_def body_limit_def)
  show "take_int (JNum (show_int c)) old = Some c"
    using assms(1,2) by (simp add: take_int_def atoi_def big_set_string_show_int)
qed (simp add: rpc_error_def max_depth_def)

lemma fill_error:
  assumes "take_int (JNum (show_int c)) 0 = Some c"
  shows "fill evm_fields (rpc_error (JNum ''1'') c m) \<lparr>er_result = [], er_error = None\<rparr> =
      Some \<lparr>er_result = [], er_error = Some c\<rparr>"
    and "fill solana_fields (rpc_error (JNum ''1'') c m) \<lparr>sr_value = 0, sr_error = None\<rparr> =
      Some \<lparr>sr_value = 0, sr_error = Some c\<rparr>"
  by (simp_all add: filling rpc_error_def evm_fields_def solana_fields_def take_error_def assms)

lemma EVM_reads_ledger:
  assumes "utf8_ok a" and "wei a < 2 ^ 256"
  shows "EVM_Check ff msg (evm_node wei) p a =
      Inr \<lparr>bal_atomic = Some (int (wei a)), bal_symbol = evm_symbol p, bal_chain = evm_chain p,
           bal_provider = evm_chain p\<rparr>"
proof -
  have "evm_node wei (evm_query p a) = reply_json (rpc_result (JNum ''1'') (JStr (''0x'' @ show_base 16 (wei a))))"
    by (simp add: evm_node_def node_asked [OF assms(1)])
  from request_filled [of "evm_node wei", OF this string_reply [OF hex_short [OF assms(2) quantity_marks(1,3)]] fill_evm] show ?thesis
    by (simp add: EVM_Check_def EVMCheck_def trim_prefix_def has_prefix_def big_set_string_show_base)
qed

lemma Solana_reads_ledger:
  assumes "utf8_ok a" and "lamports a < 2 ^ 64"
  shows "Solana_Check ff msg (solana_node lamports) url a =
      Inr \<lparr>bal_atomic = Some (int (lamports a)), bal_symbol = ''SOL'', bal_chain = ChainSolana,
           bal_provider = ChainSolana\<rparr>"
proof -
  let ?v = "rpc_result (JNum ''1'')
    (JObj [(''context'', JObj [(''slot'', JNum ''1'')]), (''value'', JNum (show_int (int (lamports a))))])"
  have q: "solana_node lamports (solana_query url a) = reply_json ?v"
    by (simp add: solana_node_def node_asked [OF assms(1)])
  have w: "writable ?v" using writable_one writable_nat by (simp add: rpc_result_def del: writable.simps(1))
  have d: "depth ?v \<le> max_depth" by (simp add: rpc_result_def max_depth_def)
  have l: "weight ?v \<le> body_limit" using show_nat_length [OF assms(2)] by (simp add: rpc_result_def body_limit_def)
  from request_filled [of "solana_node lamports", OF q w d l fill_solana [OF assms(2)]] show ?thesis
    using assms(2) by (simp add: Solana_Check_def SolanaCheck_def unsigned_of_nat take_bit_nat_eq_self)
qed

lemma TRON_reads_ledger:
  assumes "utf8_ok a" and "length a \<le> 1024" and "sun a < 2 ^ 64"
  shows "TRON_Check ff msg (tron_node base sun) base a =
      Inr \<lparr>bal_atomic = Some (int (sun a)), bal_symbol = ''TRX'', bal_chain = ChainTRON,
           bal_provider = ChainTRON\<rparr>"
proof -
  let ?v = "JObj [(''address'', JStr a), (''balance'', JNum (show_int (int (sun a))))]"
  have w: "writable ?v" using assms(1) writable_nat by (simp del: writable.simps(1))
  have d: "depth ?v \<le> max_depth" by (simp add: max_depth_def)
  have l: "weight ?v \<le> body_limit" using assms(2) show_nat_length [OF assms(3)] by (simp add: body_limit_def)
  from request_filled [of "tron_node base sun", OF tron_asked [OF assms(1)] w d l fill_tron [OF assms(3)]]
  show ?thesis
    using assms(3) by (simp add: TRON_Check_def TRONCheck_def unsigned_of_nat take_bit_nat_eq_self)
qed

lemma BTC_reads_ledger:
  assumes "utf8_ok a" and "length a \<le> 1024" and "fst (sats a) < 2 ^ 64" and "snd (sats a) < 2 ^ 64"
  shows "BTC_Check ff msg (btc_node base sats) base a =
      Inr \<lparr>bal_atomic = Some (int (fst (sats a) - snd (sats a))), bal_symbol = ''BTC'',
           bal_chain = ChainBTC, bal_provider = ChainBTC\<rparr>"
proof -
  let ?v = "JObj [(''address'', JStr a), (''chain_stats'',
       JObj [(''funded_txo_count'', JNum ''1''), (''funded_txo_sum'', JNum (show_int (int (fst (sats a))))),
             (''spent_txo_sum'', JNum (show_int (int (snd (sats a)))))])]"
  have w: "writable ?v" using assms(1) writable_one writable_nat by (simp del: writable.simps(1))
  have d: "depth ?v \<le> max_depth" by (simp add: max_depth_def)
  have l: "weight ?v \<le> body_limit"
    using assms(2) show_nat_length [OF assms(3)] show_nat_length [OF assms(4)] by (simp add: body_limit_def)
  from request_filled [of "btc_node base sats", OF btc_asked w d l fill_btc [OF assms(3,4)]] assms(3,4)
  show ?thesis
    by (simp add: BTC_Check_def BTCCheck_def Let_def unsigned_of_nat take_bit_nat_eq_self)
qed

lemma always_filled:
  assumes "writable v" and "depth v \<le> max_depth" and "weight v \<le> body_limit" and "fill fs v zero = Some r"
  shows "request ff (decode_into msg fs zero) hp name (call_of (always v) q) = Inr r"
  by (rule request_filled [OF _ assms]) (simp add: always_def)

section \<open>Theorems\<close>

text \<open>
  C10: the providers report what the node has on its ledger. Each \<^verbatim>\<open>Check\<close>, run over a node
  that keeps to its protocol, asks for the right account and returns exactly its balance:
  the wei of any 256-bit quantity, the lamports, the sun, and for Bitcoin what the address
  received less what it spent.
\<close>

theorem providers_read_ledger:
  assumes "utf8_ok a" and "length a \<le> 1024"
    and "wei a < 2 ^ 256" and "lamports a < 2 ^ 64" and "sun a < 2 ^ 64"
    and "fst (sats a) < 2 ^ 64" and "snd (sats a) < 2 ^ 64"
  shows "EVM_Check ff msg (evm_node wei) p a =
      Inr \<lparr>bal_atomic = Some (int (wei a)), bal_symbol = evm_symbol p, bal_chain = evm_chain p,
           bal_provider = evm_chain p\<rparr> \<and>
    Solana_Check ff msg (solana_node lamports) url a =
      Inr \<lparr>bal_atomic = Some (int (lamports a)), bal_symbol = ''SOL'', bal_chain = ChainSolana,
           bal_provider = ChainSolana\<rparr> \<and>
    TRON_Check ff msg (tron_node base sun) base a =
      Inr \<lparr>bal_atomic = Some (int (sun a)), bal_symbol = ''TRX'', bal_chain = ChainTRON,
           bal_provider = ChainTRON\<rparr> \<and>
    BTC_Check ff msg (btc_node base sats) base a =
      Inr \<lparr>bal_atomic = Some (int (fst (sats a) - snd (sats a))), bal_symbol = ''BTC'',
           bal_chain = ChainBTC, bal_provider = ChainBTC\<rparr>"
  using EVM_reads_ledger Solana_reads_ledger TRON_reads_ledger BTC_reads_ledger assms by blast

text \<open>
  C32: a JSON-RPC error is never a balance. Whatever code and message a node reports, the query
  fails with that code; the scan tries again after any error of a Solana node, but for an EVM
  node only after the two codes of a request limit.
\<close>

theorem rpc_errors_reported:
  assumes "min_int64 \<le> c" and "c \<le> max_int64" and "utf8_ok m" and "length m \<le> 1024"
  shows "EVM_Check ff msg (always (rpc_error (JNum ''1'') c m)) p a =
      Inl (Perr \<lparr>pe_code = ''rpc_error'', pe_provider = evm_chain p, pe_status = 0, pe_retry_after = 0,
        pe_temporary = (c \<in> {- 32005, - 32016}), pe_err = Some (''code '' @ show_int c)\<rparr>) \<and>
    Solana_Check ff msg (always (rpc_error (JNum ''1'') c m)) url a =
      Inl (Perr \<lparr>pe_code = ''rpc_error'', pe_provider = ChainSolana, pe_status = 0, pe_retry_after = 0,
        pe_temporary = True, pe_err = Some (''code '' @ show_int c)\<rparr>)"
proof -
  note reply = error_reply(1-3) [OF assms] and filled = fill_error [OF error_reply(4) [OF assms]]
  have q: "always (rpc_error (JNum ''1'') c m) q = reply_json (rpc_error (JNum ''1'') c m)" for q
    by (simp add: always_def)
  from request_filled [of "always (rpc_error (JNum ''1'') c m)", OF q reply filled(1)]
    request_filled [of "always (rpc_error (JNum ''1'') c m)", OF q reply filled(2)]
  show ?thesis by (simp add: EVM_Check_def EVMCheck_def Solana_Check_def SolanaCheck_def)
qed

text \<open>
  C33: what the decoders let through. A 200 reply with the body \<^verbatim>\<open>{}\<close> or \<^verbatim>\<open>null\<close>, which states
  no balance, is read by every provider as a balance of 0, a success; and an EVM quantity with
  a sign is read as a negative balance.
\<close>

theorem silent_replies:
  assumes "v \<in> {JObj [], JNull}" and "n < 2 ^ 256"
  shows "EVM_Check ff msg (always v) p a =
      Inr \<lparr>bal_atomic = Some 0, bal_symbol = evm_symbol p, bal_chain = evm_chain p, bal_provider = evm_chain p\<rparr> \<and>
    BTC_Check ff msg (always v) url a =
      Inr \<lparr>bal_atomic = Some 0, bal_symbol = ''BTC'', bal_chain = ChainBTC, bal_provider = ChainBTC\<rparr> \<and>
    Solana_Check ff msg (always v) url a =
      Inr \<lparr>bal_atomic = Some 0, bal_symbol = ''SOL'', bal_chain = ChainSolana, bal_provider = ChainSolana\<rparr> \<and>
    TRON_Check ff msg (always v) url a =
      Inr \<lparr>bal_atomic = Some 0, bal_symbol = ''TRX'', bal_chain = ChainTRON, bal_provider = ChainTRON\<rparr> \<and>
    EVM_Check ff msg (always (rpc_result (JNum ''1'') (JStr (''0x-'' @ show_base 16 n)))) p a =
      Inr \<lparr>bal_atomic = Some (- int n), bal_symbol = evm_symbol p, bal_chain = evm_chain p,
           bal_provider = evm_chain p\<rparr>"
proof -
  have v: "writable v" "depth v \<le> max_depth" "weight v \<le> body_limit" and empty: "fill fs v zero = Some zero" for fs :: "'x field list" and zero
    using assms(1) by (auto simp: max_depth_def body_limit_def fill_def)
  have zero: "big_set_string 16 ''0'' = Some 0" by code_simp
  note silent = always_filled [OF v empty]
  have "EVM_Check ff msg (always (rpc_result (JNum ''1'') (JStr (''0x-'' @ show_base 16 n)))) p a =
      Inr \<lparr>bal_atomic = Some (- int n), bal_symbol = evm_symbol p, bal_chain = evm_chain p,
           bal_provider = evm_chain p\<rparr>"
    using always_filled [OF string_reply [OF hex_short [OF assms(2) quantity_marks(2,4)]] fill_evm]
    by (simp add: EVM_Check_def EVMCheck_def trim_prefix_def has_prefix_def big_set_string_def unsigned_val_show_base)
  then show ?thesis
    by (simp add: EVM_Check_def EVMCheck_def BTC_Check_def BTCCheck_def Solana_Check_def SolanaCheck_def
        TRON_Check_def TRONCheck_def silent trim_prefix_def has_prefix_def zero)
qed

section \<open>Witnesses\<close>

definition ether_provider :: evm_provider where
  "ether_provider = \<lparr>evm_url = ''http://n'', evm_chain = ''ethereum'', evm_symbol = ''ETH''\<rparr>"

theorem providers_read_ledger_witness:
  "EVM_Check (\<lambda>a b c. 0) (\<lambda>s. s) (evm_node (\<lambda>a. 10 ^ 18)) ether_provider ''0xab'' =
     Inr \<lparr>bal_atomic = Some (10 ^ 18), bal_symbol = ''ETH'', bal_chain = ''ethereum'', bal_provider = ''ethereum''\<rparr> \<and>
   BTC_Check (\<lambda>a b c. 0) (\<lambda>s. s) (btc_node ''http://b/'' (\<lambda>a. (7, 2))) ''http://b/'' ''0xab'' =
     Inr \<lparr>bal_atomic = Some 5, bal_symbol = ''BTC'', bal_chain = ChainBTC, bal_provider = ChainBTC\<rparr>"
proof -
  have "is_ascii ''0xab''" by code_simp
  then have "utf8_ok ''0xab''" by simp
  from providers_read_ledger [OF this, of "\<lambda>a. 10 ^ 18" "\<lambda>a. 0" "\<lambda>a. 0" "\<lambda>a. (7, 2)" "\<lambda>a b c. 0" "\<lambda>s. s"
      ether_provider _ "''http://b/''"]
  show ?thesis by (simp add: ether_provider_def)
qed

theorem rpc_errors_reported_witness:
  "\<exists>e. EVM_Check (\<lambda>a b c. 0) (\<lambda>s. s) (always (rpc_error (JNum ''1'') (- 32005) ''slow'')) ether_provider ''0xab'' = Inl (Perr e) \<and>
     pe_temporary e"
proof -
  have "is_ascii ''slow''" by code_simp
  then have "utf8_ok ''slow''" by simp
  moreover have "min_int64 \<le> - 32005" "- 32005 \<le> max_int64" by (simp_all add: min_int64_def max_int64_def)
  ultimately show ?thesis
    using rpc_errors_reported [of "- 32005" "''slow''" "\<lambda>a b c. 0" "\<lambda>s. s" ether_provider "''0xab''"] by simp
qed

theorem silent_replies_witness:
  "EVM_Check (\<lambda>a b c. 0) (\<lambda>s. s) (always (rpc_result (JNum ''1'') (JStr (''0x-'' @ show_base 16 5)))) ether_provider ''0xab'' =
     Inr \<lparr>bal_atomic = Some (- 5), bal_symbol = ''ETH'', bal_chain = ''ethereum'', bal_provider = ''ethereum''\<rparr>"
  using silent_replies [of JNull 5 "\<lambda>a b c. 0" "\<lambda>s. s" ether_provider "''0xab''"] by (simp add: ether_provider_def)

end
