(* ===== verification/Ledger.thy ===== *)
theory Ledger
  imports Commands Queries
begin

text \<open>
  The scan over the providers' protocols, from the bytes of a node to the rows of the database:
  the network behind every provider of \<^verbatim>\<open>buildProviders\<close> keeps a ledger, or fails to answer.
\<close>

section \<open>The providers of the program, over a network\<close>

definition provider_check ::
  "(nat \<Rightarrow> nat \<Rightarrow> nat \<Rightarrow> nat) \<Rightarrow> (string \<Rightarrow> string) \<Rightarrow> network \<Rightarrow> provider_desc \<Rightarrow> string \<Rightarrow> go_error + balance" where
  "provider_check ff msg net p address =
     (case p of
        Btc_at u \<Rightarrow> BTC_Check ff msg net u address
      | Evm_at e \<Rightarrow> EVM_Check ff msg net e address
      | Sol_at u \<Rightarrow> Solana_Check ff msg net u address
      | Tron_at u \<Rightarrow> TRON_Check ff msg net u address)"

text \<open>The ledgers of the six chains; a Bitcoin address has received and has spent.\<close>

record ledger =
  lg_wei :: "string \<Rightarrow> string \<Rightarrow> nat"
  lg_sats :: "string \<Rightarrow> nat \<times> nat"
  lg_lamports :: "string \<Rightarrow> nat"
  lg_sun :: "string \<Rightarrow> nat"

definition worth :: "ledger \<Rightarrow> string \<Rightarrow> string \<Rightarrow> nat" where
  "worth L c a =
     (if c = ChainBTC then fst (lg_sats L a) - snd (lg_sats L a)
      else if c = ChainSolana then lg_lamports L a
      else if c = ChainTRON then lg_sun L a
      else lg_wei L c a)"

text \<open>What the protocols can carry: an address in UTF-8 and amounts at their width.\<close>

definition wire_fits :: "ledger \<Rightarrow> string \<Rightarrow> bool" where
  "wire_fits L a \<longleftrightarrow>
     utf8_ok a \<and> length a \<le> 1024 \<and> list_all (\<lambda>c. lg_wei L c a < 2 ^ 256) all_chains \<and>
     lg_lamports L a < 2 ^ 64 \<and> lg_sun L a < 2 ^ 64 \<and>
     fst (lg_sats L a) < 2 ^ 64 \<and> snd (lg_sats L a) < 2 ^ 64"

definition node_of :: "ledger \<Rightarrow> provider_desc \<Rightarrow> network" where
  "node_of L p =
     (case p of
        Btc_at u \<Rightarrow> btc_node u (lg_sats L)
      | Evm_at e \<Rightarrow> evm_node (lg_wei L (evm_chain e))
      | Sol_at u \<Rightarrow> solana_node (lg_lamports L)
      | Tron_at u \<Rightarrow> tron_node u (lg_sun L))"

text \<open>No answer: the request is not sent, the connection fails, or the status is no success.\<close>

definition no_answer :: "string option \<times> http_outcome \<Rightarrow> bool" where
  "no_answer x \<longleftrightarrow>
     fst x \<noteq> None \<or> (case snd x of Do_failed m late \<Rightarrow> True | Responded st h b \<Rightarrow> st < 200 \<or> 300 \<le> st)"

definition honest_or_down :: "ledger \<Rightarrow> provider_desc \<Rightarrow> network \<Rightarrow> bool" where
  "honest_or_down L p net \<longleftrightarrow> (\<forall>q. net q = node_of L p q \<or> no_answer (net q))"

definition from_nodes ::
  "ledger \<Rightarrow> config \<Rightarrow> (nat \<Rightarrow> nat \<Rightarrow> nat \<Rightarrow> nat) \<Rightarrow> (string \<Rightarrow> string) \<Rightarrow> string \<Rightarrow> string \<Rightarrow> go_error + balance \<Rightarrow> bool" where
  "from_nodes L cfg ff msg a c x \<longleftrightarrow>
     (\<exists>p net. map_of (buildProviders cfg) c = Some p \<and> honest_or_down L p net \<and> x = provider_check ff msg net p a)"

lemma no_answer_fails: "no_answer (net q) \<Longrightarrow> \<exists>e. request ff dec hp name (call_of net q) = Inl e"
  by (auto simp: no_answer_def request_def call_of_def split: option.splits http_outcome.splits)

text \<open>A check depends on the reply to its one query only.\<close>

definition query_of :: "provider_desc \<Rightarrow> string \<Rightarrow> outgoing" where
  "query_of p a =
     (case p of Btc_at u \<Rightarrow> btc_query u a | Evm_at e \<Rightarrow> evm_query e a | Sol_at u \<Rightarrow> solana_query u a
      | Tron_at u \<Rightarrow> tron_query u a)"

lemma check_cong:
  "net (query_of p a) = net' (query_of p a) \<Longrightarrow> provider_check ff msg net p a = provider_check ff msg net' p a"
  by (simp add: provider_check_def query_of_def EVM_Check_def BTC_Check_def Solana_Check_def TRON_Check_def
      call_of_def split: provider_desc.splits)

lemma checks_unanswered:
  "no_answer (net (btc_query u a)) \<Longrightarrow> \<exists>e. BTC_Check ff msg net u a = Inl e"
  "no_answer (net (evm_query p a)) \<Longrightarrow> \<exists>e. EVM_Check ff msg net p a = Inl e"
  "no_answer (net (solana_query u a)) \<Longrightarrow> \<exists>e. Solana_Check ff msg net u a = Inl e"
  "no_answer (net (tron_query u a)) \<Longrightarrow> \<exists>e. TRON_Check ff msg net u a = Inl e"
  using no_answer_fails [of net "btc_query u a" ff "decode_into msg btc_fields \<lparr>br_funded = 0, br_spent = 0\<rparr>" False ChainBTC]
    no_answer_fails [of net "evm_query p a" ff "decode_into msg evm_fields \<lparr>er_result = [], er_error = None\<rparr>" True "evm_chain p"]
    no_answer_fails [of net "solana_query u a" ff "decode_into msg solana_fields \<lparr>sr_value = 0, sr_error = None\<rparr>" True ChainSolana]
    no_answer_fails [of net "tron_query u a" ff "decode_into msg tron_fields 0" True ChainTRON]
  by (auto simp: BTC_Check_def BTCCheck_def EVM_Check_def EVMCheck_def Solana_Check_def SolanaCheck_def
      TRON_Check_def TRONCheck_def)

lemma check_unanswered: "no_answer (net (query_of p a)) \<Longrightarrow> \<exists>e. provider_check ff msg net p a = Inl e"
  by (cases p) (simp_all add: query_of_def provider_check_def checks_unanswered)

lemma provider_rows:
  "map_of (buildProviders cfg) c = Some p \<Longrightarrow>
     c \<in> set all_chains \<and>
     (case p of
        Btc_at u \<Rightarrow> c = ChainBTC
      | Evm_at e \<Rightarrow> evm_chain e = c \<and> c \<notin> {ChainBTC, ChainSolana, ChainTRON}
      | Sol_at u \<Rightarrow> c = ChainSolana
      | Tron_at u \<Rightarrow> c = ChainTRON)"
  by (auto simp: buildProviders_def Let_def all_chains_def split: if_splits)

lemma node_tells:
  assumes "wire_fits L a" and row: "map_of (buildProviders cfg) c = Some p"
  shows "\<exists>b. provider_check ff msg (node_of L p) p a = Inr b \<and> bal_chain b = c \<and>
    bal_atomic b = Some (int (worth L c a))"
proof (cases p)
  case (Btc_at u)
  with assms(1) provider_rows [OF row] BTC_reads_ledger [of a "lg_sats L"] show ?thesis
    by (simp add: provider_check_def node_of_def wire_fits_def worth_def)
next
  case (Evm_at e)
  then have c: "evm_chain e = c" "c \<in> set all_chains" "c \<notin> {ChainBTC, ChainSolana, ChainTRON}"
    using provider_rows [OF row] by auto
  have "lg_wei L c a < 2 ^ 256" using assms(1) c(2) by (simp add: wire_fits_def list_all_iff)
  with assms(1) c Evm_at EVM_reads_ledger [of a "lg_wei L c"] show ?thesis
    by (simp add: provider_check_def node_of_def wire_fits_def worth_def)
next
  case (Sol_at u)
  with assms(1) provider_rows [OF row] Solana_reads_ledger [of a "lg_lamports L"] show ?thesis
    by (simp add: provider_check_def node_of_def wire_fits_def worth_def)
next
  case (Tron_at u)
  with assms(1) provider_rows [OF row] TRON_reads_ledger [of a "lg_sun L"] show ?thesis
    by (simp add: provider_check_def node_of_def wire_fits_def worth_def)
qed

lemma from_nodes_tells:
  assumes "wire_fits L a" and "from_nodes L cfg ff msg a c (Inr b)"
  shows "bal_chain b = c \<and> bal_atomic b = Some (int (worth L c a))"
proof -
  obtain p net where row: "map_of (buildProviders cfg) c = Some p" and h: "honest_or_down L p net"
    and x: "provider_check ff msg net p a = Inr b"
    using assms(2) by (force simp: from_nodes_def)
  have "\<not> no_answer (net (query_of p a))" using check_unanswered [of net p a ff msg] x by auto
  then have "net (query_of p a) = node_of L p (query_of p a)" using h by (auto simp: honest_or_down_def)
  from check_cong [of net p a "node_of L p", OF this] x node_tells [OF assms(1) row, of ff msg] show ?thesis by auto
qed

section \<open>What the scanner relies on\<close>

text \<open>
  A source of answers: \<open>answers a c x\<close> when \<open>x\<close> can be the answer about \<open>a\<close> on \<open>c\<close>, and
  every balance it states is what the address is worth.
\<close>

locale truthful_source =
  fixes answers :: "string \<Rightarrow> string \<Rightarrow> go_error + balance \<Rightarrow> bool"
    and value_of :: "string \<Rightarrow> string \<Rightarrow> nat"
    and known :: "string \<Rightarrow> bool"
  assumes tells_value: "known a \<Longrightarrow> answers a c (Inr b) \<Longrightarrow>
      bal_chain b = c \<and> bal_atomic b = Some (int (value_of c a))"

text \<open>A result is \<open>sourced\<close> when answers of the source account for it.\<close>

definition sourced :: "(string \<Rightarrow> string \<Rightarrow> go_error + balance \<Rightarrow> bool) \<Rightarrow> scanner \<Rightarrow> address_result \<Rightarrow> bool" where
  "sourced N s r \<longleftrightarrow>
     (\<exists>log. faithful s (ar_address r) (chainsFor (ad_type (ar_address r))) log r \<and>
       (\<forall>(c, x) \<in> set log. N (ad_address (ar_address r)) c x))"

lemma finding_source:
  "f \<in> set (findings_in a log) \<Longrightarrow>
     \<exists>c b n. (c, Inr b) \<in> set log \<and> bal_atomic b = Some n \<and> f = new_finding a b n"
  by (auto simp: findings_in_def split: sum.splits option.splits if_splits) (metis option.sel)

lemma source_finding:
  "(c, Inr b) \<in> set log \<Longrightarrow> bal_atomic b = Some n \<Longrightarrow> 0 < n \<Longrightarrow> new_finding a b n \<in> set (findings_in a log)"
  by (induction log) (auto simp: findings_in_def)

context truthful_source
begin

lemma finding_states:
  assumes "sourced answers s r" and "known (ad_address (ar_address r))" and "f \<in> set (ar_findings r)"
  shows "fi_address_id f = ad_id (ar_address r) \<and>
    fi_balance f = show_int (int (value_of (fi_chain f) (ad_address (ar_address r))))"
proof -
  obtain log where "ar_findings r = findings_in (ar_address r) log"
    and from_source: "\<forall>(c, x) \<in> set log. answers (ad_address (ar_address r)) c x"
    using assms(1) by (auto simp: sourced_def faithful_def)
  with assms(3) finding_source obtain c b n where f: "(c, Inr b) \<in> set log" "bal_atomic b = Some n"
      "f = new_finding (ar_address r) b n"
    by metis
  with from_source tells_value [OF assms(2), of c b] show ?thesis by (auto simp: new_finding_def)
qed

lemma chain_settled:
  assumes "sourced answers s r" and "known (ad_address (ar_address r))"
    and "c \<in> set (chainsFor (ad_type (ar_address r)))" and "0 < value_of c (ad_address (ar_address r))"
  shows "c \<in> sf_chain ` set (ar_errors r) \<or>
    (\<exists>f \<in> set (ar_findings r). fi_key f = (ad_id (ar_address r), c))"
proof -
  obtain log where fs: "ar_findings r = findings_in (ar_address r) log"
    and es: "map sf_chain (ar_errors r) = filter (\<lambda>c. \<not> succeeded log c) (chainsFor (ad_type (ar_address r)))"
    and from_source: "\<forall>(c, x) \<in> set log. answers (ad_address (ar_address r)) c x"
    using assms(1) by (auto simp: sourced_def faithful_def)
  show ?thesis
  proof (cases "succeeded log c")
    case True
    then obtain x where "(c, x) \<in> set log" "case x of Inl e \<Rightarrow> False | Inr b \<Rightarrow> True"
      by (auto simp: succeeded_def list_ex_iff)
    then obtain b where b: "(c, Inr b) \<in> set log" by (cases x) auto
    with from_source tells_value [OF assms(2), of c b] have
      "bal_atomic b = Some (int (value_of c (ad_address (ar_address r))))" and chain: "bal_chain b = c"
      by auto
    from source_finding [OF b this(1), of "ar_address r"] assms(4) chain show ?thesis
      by (intro disjI2 bexI) (auto simp: fs new_finding_def fi_key_def)
  next
    case False
    then have "c \<in> set (map sf_chain (ar_errors r))" using assms(3) by (simp add: es)
    then show ?thesis by simp
  qed
qed

text \<open>What is recorded of an address is what it is worth.\<close>

lemma recorded_value:
  assumes all: "\<forall>r \<in> set rs. ar_address r \<in> to_address ` set A \<and> sourced answers s r"
    and ids: "distinct (map wa_id A)" and known: "\<forall>a \<in> set A. known (wa_address a)"
    and numeric: "\<forall>n. ev_numeric E (show_int (int n)) = Some (int n)"
    and a: "a \<in> set A" and r: "r \<in> set rs" "ar_address r = to_address a" "recorded E rs d r"
    and c: "c \<in> set (chainsFor (wa_type a))"
  shows "queued (wa_id a, c) d \<or> value_of c (wa_address a) = 0 \<or>
    (\<exists>row. finding_at d (wa_id a, c) = Some row \<and> pf_balance row = int (value_of c (wa_address a)))"
proof (cases "value_of c (wa_address a) = 0 \<or> c \<in> sf_chain ` set (ar_errors r)")
  case True
  with r show ?thesis by (auto simp: recorded_def to_address_def)
next
  case False
  have "sourced answers s r" using all r(1) by blast
  from chain_settled [OF this, of c] False c r(2) known a obtain f where
    "f \<in> set (ar_findings r)" "fi_key f = (wa_id a, c)"
    by (auto simp: to_address_def)
  with r(3) have "told E (reported rs) (wa_id a, c) d" by (force simp: recorded_def)
  then obtain row g q where row: "finding_at d (wa_id a, c) = Some row"
    and g: "q \<in> set rs" "g \<in> set (ar_findings q)" "fi_key g = (wa_id a, c)"
      "ev_numeric E (fi_balance g) = Some (pf_balance row)"
    by (auto simp: told_def reported_def)
  from all g(1) obtain w where w: "w \<in> set A" "ar_address q = to_address w" "sourced answers s q" by auto
  from finding_states [OF w(3) _ g(2)] w known g(3) have id: "wa_id w = wa_id a" "fi_chain g = c"
    and bal: "fi_balance g = show_int (int (value_of c (wa_address w)))"
    by (auto simp: to_address_def fi_key_def)
  have "w = a" using ids w(1) a id(1) by (simp add: distinct_map inj_on_def)
  with bal g(4) numeric row show ?thesis by simp
qed

end

interpretation nodes: truthful_source "from_nodes L cfg ff msg" "worth L" "wire_fits L" for L cfg ff msg
  by unfold_locales (rule from_nodes_tells)

section \<open>The batches of a scan\<close>

text \<open>The batches a scan hands to its pool, with the number of the round and the tracker.\<close>

fun batches :: "nat \<Rightarrow> scan_env \<Rightarrow> scanner \<Rightarrow> scan_run \<Rightarrow> scan_state \<Rightarrow> (nat \<times> health \<times> address list) list" where
  "batches 0 V s run st = []"
| "batches (Suc n) V s run st =
     (case liftS (NextAddresses (se_db V) run (sc_batch (sn_config s))) st of
        (Inl e, st1) \<Rightarrow> []
      | (Inr as, st1) \<Rightarrow>
          if as = [] then []
          else (ss_round st1, ss_health st1, as) #
            (case run_round V s run st of
               (Inr (Some run'), st') \<Rightarrow> batches n V s run' st'
             | _ \<Rightarrow> []))"

definition scan_batches :: "nat \<Rightarrow> scan_env \<Rightarrow> scanner \<Rightarrow> scan_state \<Rightarrow> (nat \<times> health \<times> address list) list" where
  "scan_batches n V s st =
     (case choose_run V st of (Inr (Some run), st') \<Rightarrow> batches n V s run st' | _ \<Rightarrow> [])"

text \<open>Every answer the pool got in a batch came from the source.\<close>

definition answered_by ::
  "(string \<Rightarrow> string \<Rightarrow> go_error + balance \<Rightarrow> bool) \<Rightarrow> scan_env \<Rightarrow> scanner \<Rightarrow> nat \<times> health \<times> address list \<Rightarrow> bool" where
  "answered_by N V s b =
     (case b of (k, h, as) \<Rightarrow>
        (case pool_run s (se_schedule V k) (start_pool s h (se_cancelled V k) as) of
           None \<Rightarrow> True
         | Some p \<Rightarrow> \<forall>(a, c, x) \<in> set (pl_log p). N (ad_address a) c x))"

lemma in_log_of: "(c, x) \<in> set (log_of p a) \<longleftrightarrow> (a, c, x) \<in> set (pl_log p)"
  by (force simp: log_of_def)

lemma batch_sourced:
  assumes v: "valid_schedules V" and dist: "distinct as"
    and from_source: "answered_by N V s (ss_round st, ss_health st, as)"
    and run: "pool_batch V s as st = (Inr rs, st')" and r: "r \<in> set rs"
  shows "ar_address r \<in> set as \<and> sourced N s r"
proof -
  let ?chs = "se_schedule V (ss_round st)"
  obtain p where p: "pool_run s ?chs (start_pool s (ss_health st) (se_cancelled V (ss_round st)) as) = Some p"
    and fin: "finished p" and rs: "rs = pl_results p"
    using run by (auto simp: pool_batch_def processBatch_def Let_def split: option.splits if_splits)
  have "list_all valid_choice ?chs" using v by (simp add: valid_schedules_def)
  note each = pool_one_each [OF dist this p fin]
  have "ar_address r \<in> set (map ar_address (pl_results p))" using r rs by simp
  then have "ar_address r \<in> set as" by (metis each(1) set_mset_mset)
  moreover have "N (ad_address (ar_address r)) c x" if "(c, x) \<in> set (log_of p (ar_address r))" for c x
    using from_source p that by (auto simp: answered_by_def in_log_of)
  ultimately show ?thesis
    using each(2) [of r] r rs unfolding result_ok_def sourced_def by blast
qed

definition all_sourced ::
  "(string \<Rightarrow> string \<Rightarrow> go_error + balance \<Rightarrow> bool) \<Rightarrow> scanner \<Rightarrow> wallet_row list \<Rightarrow> scan_state \<Rightarrow> bool" where
  "all_sourced N s A st \<longleftrightarrow> (\<forall>r \<in> set (ss_done st). ar_address r \<in> to_address ` set A \<and> sourced N s r)"

lemma liftS_done: "liftS p st = (r, st') \<Longrightarrow> ss_done st' = ss_done st"
  by (auto simp: liftS_def split: prod.splits sum.splits)

lemma liftS_then_done:
  "bindE (liftS p) (\<lambda>_. ret x) st = (r, st') \<Longrightarrow> ss_done st' = ss_done st"
  "bindE (liftS p) (\<lambda>_. raise e) st = (r, st') \<Longrightarrow> ss_done st' = ss_done st"
  by (auto simp: bindE_def dest: liftS_done split: prod.splits sum.splits)

lemma round_accounted:
  assumes ok: "sane st" "addresses (ss_db st) = A" "all_sourced N s A st" and v: "valid_schedules V"
    and from_source: "\<forall>b \<in> set (batches (Suc n) V s run st). answered_by N V s b"
    and run: "run_round V s run st = (r, st')"
  shows "all_sourced N s A st'"
  using run
proof (cases rule: run_round_cases)
  case (read e)
  with ok(3) liftS_done [OF read(1)] show ?thesis by (simp add: all_sourced_def)
next
  case (complete st1 q)
  with ok(3) liftS_done [OF complete(1)] liftS_done [OF complete(2)] show ?thesis by (simp add: all_sourced_def)
next
  case (pool as st1 e)
  then have "st' = st1" by (auto simp: pool_batch_def Let_def split: option.splits)
  with ok(3) liftS_done [OF pool(1)] show ?thesis by (simp add: all_sourced_def)
next
  case (stored as st1 rs st2 q st3)
  have "ss_done st' = ss_done st3"
    using stored(5) by (auto split: sum.splits if_splits dest: liftS_then_done)
  moreover have "ss_done st3 = ss_done st2"
    by (rule during_end(2) [OF keeps_store_results [OF subset_UNIV] stored(4)])
  moreover have "ss_done st2 = ss_done st @ rs"
    using stored(3) liftS_done [OF stored(1)] by (auto simp: pool_batch_def Let_def split: option.splits)
  ultimately have done_now: "ss_done st' = ss_done st @ rs" by simp
  have db: "db_ok (ss_db st)" using ok(1) by (simp add: sane_def)
  have "NextAddresses (se_db V) run (sc_batch (sn_config s)) (ss_db st) = (Inr as, ss_db st1)"
    using stored(1) by (auto simp: liftS_Inr)
  note b = NextAddresses_batch [OF db this]
  have "answered_by N V s (ss_round st1, ss_health st1, as)"
    using from_source stored(1,2) by simp
  note batch = batch_sourced [OF v batch_complete(1) [OF db b] this stored(3)]
  have "set as \<subseteq> to_address ` set A" using b ok(2) by (auto dest: in_set_takeD)
  with batch have "ar_address r \<in> to_address ` set A \<and> sourced N s r" if "r \<in> set rs" for r
    using that by blast
  with ok(3) show ?thesis by (auto simp: all_sourced_def done_now)
qed

lemma loop_accounted:
  assumes "sane st" and "addresses (ss_db st) = A" and "all_sourced N s A st" and v: "valid_schedules V"
    and "\<forall>b \<in> set (batches n V s run st). answered_by N V s b"
    and "scan_loop n V s run st = Some (res, st')"
  shows "all_sourced N s A st'"
  using assms(1-3,5,6)
proof (induction n arbitrary: run st)
  case (Suc n)
  obtain r st1 where r: "run_round V s run st = (r, st1)" by fastforce
  note acc = round_accounted [OF Suc.prems(1-3) v Suc.prems(4) r]
  show ?case
  proof (cases "\<exists>run'. r = Inr (Some run')")
    case True
    then obtain run' where r': "r = Inr (Some run')" by blast
    have "sane st1" using keepsD_eq [OF sane_run_round Suc.prems(1) r] .
    moreover have "addresses (ss_db st1) = A"
      using keepsD_eq [OF table_run_round [of A V s run] _ r] Suc.prems(2) by (simp add: table_def)
    moreover obtain as st2 where "liftS (NextAddresses (se_db V) run (sc_batch (sn_config s))) st = (Inr as, st2)" "as \<noteq> []"
      using r r' by (auto simp: run_round_def bindE_eq_Inr split: if_splits)
    then have "\<forall>b \<in> set (batches n V s run' st1). answered_by N V s b"
      using Suc.prems(4) r r' by simp
    moreover have "scan_loop n V s run' st1 = Some (res, st')" using Suc.prems(5) r r' by simp
    ultimately show ?thesis using Suc.IH acc by blast
  next
    case False
    with Suc.prems(5) r acc show ?thesis by (auto split: sum.splits option.splits)
  qed
qed simp

lemma scan_accounted:
  assumes db: "db_ok (ss_db st)" and hist: "ss_done st = []" and v: "valid_schedules V"
    and from_source: "\<forall>b \<in> set (scan_batches n V s st). answered_by N V s b"
    and run: "RunOnce n V s st = Some (res, st')"
  shows "all_sourced N s (addresses (ss_db st)) st'"
  using run
proof (cases rule: RunOnce_cases)
  case (no_run r)
  with choose_run_ok [OF db no_run(1)] hist show ?thesis by (simp add: all_sourced_def)
next
  case (loop run st1)
  from choose_run_ok [OF db loop(1), of s] hist
  have "addresses (ss_db st1) = addresses (ss_db st)" "all_sourced N s (addresses (ss_db st)) st1"
    by (simp_all add: chosen_def all_sourced_def)
  moreover have "sane st1" using keepsD_eq [OF sane_choose_run _ loop(1)] db by (simp add: sane_def)
  moreover have "\<forall>b \<in> set (batches n V s run st1). answered_by N V s b"
    using from_source loop(1) by (simp add: scan_batches_def)
  ultimately show ?thesis using loop_accounted v loop(2) by blast
qed

section \<open>Theorems\<close>


section \<open>Witnesses\<close>

definition sample_ledger :: ledger where
  "sample_ledger =
     \<lparr>lg_wei = \<lambda>c a. 0, lg_sats = \<lambda>a. (9, 2), lg_lamports = \<lambda>a. 0, lg_sun = \<lambda>a. 0\<rparr>"

definition ledger_answer :: "go_error + balance" where
  "ledger_answer =
     Inr \<lparr>bal_atomic = Some 7, bal_symbol = ''BTC'', bal_chain = ChainBTC, bal_provider = ChainBTC\<rparr>"

definition ledger_scan :: scan_env where
  "ledger_scan = scan_sample ledger_answer []"

lemma ledger_scan_valid: "valid_schedules ledger_scan"
  by (simp add: valid_schedules_def ledger_scan_def scan_sample_def valid_choice_def valid_answer_def
      ledger_answer_def)

lemma ledger_scan_db: "se_db ledger_scan = sample_env"
  by (simp add: ledger_scan_def scan_sample_def)

lemma ledger_scan_runs:
  "\<exists>st' q. RunOnce 2 ledger_scan pool_scanner (scan_start wallet_db) = Some (Inr (), st') \<and>
     run_at (ss_db st') 3 = Some q \<and> run_cursor (rr_run q) = 1 \<and> addresses (ss_db st') = [sample_wallet] \<and>
     retry_at (ss_db st') (1, ''btc'') = None"
proof -
  have "case RunOnce 2 ledger_scan pool_scanner (scan_start wallet_db) of
      Some (r, st') \<Rightarrow> r = Inr () \<and> (case run_at (ss_db st') 3 of None \<Rightarrow> False | Some q \<Rightarrow> run_cursor (rr_run q) = 1) \<and>
        addresses (ss_db st') = [sample_wallet] \<and> retry_at (ss_db st') (1, ''btc'') = None
    | _ \<Rightarrow> False"
    by code_simp
  then show ?thesis by (auto split: option.splits sum.splits)
qed

lemma answered_mono:
  "answered_by N V s b \<Longrightarrow> (\<And>a c x. N a c x \<Longrightarrow> M a c x) \<Longrightarrow> answered_by M V s b"
  by (fastforce simp: answered_by_def split: option.splits prod.splits)

lemma ledger_scan_answers:
  "\<forall>b \<in> set (scan_batches 2 ledger_scan pool_scanner (scan_start wallet_db)).
     answered_by (\<lambda>a c x. a = ''1B'' \<and> c = ''btc'' \<and> x = ledger_answer) ledger_scan pool_scanner b"
proof -
  have "list_all (answered_by (\<lambda>a c x. a = ''1B'' \<and> c = ''btc'' \<and> x = ledger_answer) ledger_scan pool_scanner)
      (scan_batches 2 ledger_scan pool_scanner (scan_start wallet_db))"
    by code_simp
  then show ?thesis by (simp add: list_all_iff)
qed

lemma sample_utf8: "utf8_ok ''1B''"
proof -
  have "is_ascii ''1B''" by code_simp
  then show ?thesis by simp
qed

lemma sample_wire_fits: "wire_fits sample_ledger ''1B''"
  by (simp add: wire_fits_def sample_ledger_def sample_utf8 list_all_iff)

lemma ledger_answer_from_nodes: "from_nodes sample_ledger sample_config ff msg ''1B'' ''btc'' ledger_answer"
proof -
  let ?p = "Btc_at (pc_btc_url (cf_provider sample_config))"
  have "map_of (buildProviders sample_config) ''btc'' = Some ?p" by (simp add: buildProviders_def Let_def)
  moreover have "provider_check ff msg (node_of sample_ledger ?p) ?p ''1B'' = ledger_answer"
    using BTC_reads_ledger [OF sample_utf8, of "lg_sats sample_ledger"]
    by (simp add: provider_check_def node_of_def sample_ledger_def ledger_answer_def)
  moreover have "honest_or_down sample_ledger ?p (node_of sample_ledger ?p)" by (simp add: honest_or_down_def)
  ultimately show ?thesis unfolding from_nodes_def by metis
qed


end
