(* ===== verification/Spec2Isabelle.thy ===== *)
theory Spec2Isabelle
  imports Serving Wire Webhook Ledger
begin

text \<open>
  A verification development of wallet-scan, a service that keeps public wallet addresses in
  PostgreSQL, queries their native balances on six chains, stores the positive ones and
  announces them, and answers single balance queries over HTTP.

  \<^bold>\<open>Parts and theories.\<close> The theories follow the packages of the repository; each opens with
  what it models, and the definitions bear the names of the functions they translate.

    \<^item> \<^verbatim>\<open>Prelude\<close>: 64-bit arithmetic (\<open>wrap64\<close>, \<open>sdiv\<close>), the parts of \<^verbatim>\<open>strings\<close>,
      \<^verbatim>\<open>strconv\<close> and \<^verbatim>\<open>math/big\<close> the sources call. \<^verbatim>\<open>Programs\<close>: functions that return
      \<^verbatim>\<open>(T, error)\<close> and change a state, with their invariants (\<open>keeps\<close>).
    \<^item> \<^verbatim>\<open>Domain\<close> (\<^verbatim>\<open>internal/domain\<close>), \<^verbatim>\<open>Importer\<close> (\<^verbatim>\<open>internal/importer\<close>): validation, normal
      forms and the CSV loop, against a reference without its accumulators.
    \<^item> \<^verbatim>\<open>Slots\<close>, \<^verbatim>\<open>Limiter\<close> (\<^verbatim>\<open>internal/adaptive\<close>): the concurrency limiter of the API as a
      pool of slots: it accounts for every slot, never exceeds its cap, adapts and recovers,
      and \<^verbatim>\<open>Acquire\<close> returns.
    \<^item> \<^verbatim>\<open>Providers\<close> (\<^verbatim>\<open>internal/providers\<close>): the four balance providers over one classification
      of HTTP failures. \<^verbatim>\<open>Json\<close>, \<^verbatim>\<open>Structs\<close>: the part of
      \<^verbatim>\<open>encoding/json\<close> in use, bytes to values and back, and how structs are filled.
      \<^verbatim>\<open>Queries\<close>: the requests the providers send and what they make of the bytes of a reply,
      run against nodes that keep a ledger.
    \<^item> \<^verbatim>\<open>Tables\<close>, \<^verbatim>\<open>Store_Addresses\<close>, \<^verbatim>\<open>Store_Runs\<close>, \<^verbatim>\<open>Store_Findings\<close>, \<^verbatim>\<open>Store_Events\<close>,
      \<^verbatim>\<open>Store_Retries\<close> (\<^verbatim>\<open>internal/db\<close>): the schema with its constraints as \<open>db_ok\<close>, and
      every operation of the store as a program over it.
    \<^item> \<^verbatim>\<open>Formatting\<close>, \<^verbatim>\<open>Outbox\<close> (\<^verbatim>\<open>internal/notifications\<close>): amounts, messages, the webhook and
      the delivery of stored events. \<^verbatim>\<open>Webhook\<close>: the bytes that are posted and answered.
    \<^item> \<^verbatim>\<open>Cleanup\<close> (\<^verbatim>\<open>internal/maintenance\<close>): the bounded deletion of empty addresses.
    \<^item> \<^verbatim>\<open>Health\<close>, \<^verbatim>\<open>Tasks\<close>, \<^verbatim>\<open>Pool\<close>, \<^verbatim>\<open>Pool_Progress\<close>, \<^verbatim>\<open>Scanner\<close>, \<^verbatim>\<open>Scan_Safety\<close>,
      \<^verbatim>\<open>Scan_Checkpoint\<close>, \<^verbatim>\<open>Scan_Theorems\<close>, \<^verbatim>\<open>Scan_Retry\<close> (\<^verbatim>\<open>internal/scanner\<close>): the health
      tracker; the check of one address as a tree of interactions; the worker pool as a machine
      whose schedule is a list of choices; the durable scan and the retries over the store.
    \<^item> \<^verbatim>\<open>Api\<close>, \<^verbatim>\<open>HttpServer\<close> (\<^verbatim>\<open>internal/httpserver\<close>), \<^verbatim>\<open>BalanceClient\<close>
      (\<^verbatim>\<open>internal/balanceclient\<close>): one query under a slot, the HTTP endpoints, the client, and
      the two together. \<^verbatim>\<open>Wire\<close>: both ends with the bytes between them.
    \<^item> \<^verbatim>\<open>Wallet\<close> (\<^verbatim>\<open>internal/wallet\<close>), \<^verbatim>\<open>Startup\<close> (\<^verbatim>\<open>internal/startupcheck\<close>): key derivation
      with the cryptography as a parameter, and the check of a new wallet.
    \<^item> \<^verbatim>\<open>Config\<close> (\<^verbatim>\<open>internal/config\<close>), \<^verbatim>\<open>Generate_Cmd\<close>, \<^verbatim>\<open>Commands\<close>
      (\<^verbatim>\<open>cmd/wallet-scan\<close>): the configuration and the commands that compose the parts.
      \<^verbatim>\<open>Flags\<close>: their command lines, with the parser of the package \<^verbatim>\<open>flag\<close>.
    \<^item> \<^verbatim>\<open>Lifetime\<close>: what the database never loses through all commands. \<^verbatim>\<open>Schema\<close>: the SQL file
      of the migrations as data, \<^verbatim>\<open>Migrate\<close>, and the constraints of the file on the rows of the
      model. \<^verbatim>\<open>Process\<close>: \<^verbatim>\<open>main\<close> and \<^verbatim>\<open>runWithIO\<close>, from the arguments to the exit code.
      \<^verbatim>\<open>Serving\<close>: the goroutines of the service as a step relation.
    \<^item> \<^verbatim>\<open>Ledger\<close>: the scan over the protocols of the nodes: what the chains hold is what the
      database says, or the query is queued.
    \<^item> This theory closes with the invariants that span all commands: no address is ever
      skipped, and the schema is kept.

  \<^bold>\<open>Interfaces.\<close> \<open>slot_pool\<close> and \<open>live_slot_pool\<close> state what a limiter owes to concurrent
  holders of slots and are interpreted on the limiter and on the semaphores; \<open>upserting\<close> is the
  contract of an insert-or-update of the store, interpreted on the findings, the checks and the
  retry queue; \<open>startup_storing\<close> is the interface \<^verbatim>\<open>Store\<close> of the startup check; the providers
  share the contract of a balance query; \<open>truthful_source\<close> is what the scanner needs of them
  to be right about amounts, interpreted on nodes that keep a ledger or fail.

  \<^bold>\<open>The environment.\<close> PostgreSQL, the webhook, the balance nodes, the CSV and URL codecs,
  the cryptography and the clocks are parameters: records of functions. A round trip to the
  database may fail before or after it took effect (\<open>env\<close>); no theorem assumes it does not,
  except those that say so (\<open>quiet\<close>). Concurrency is explicit: schedules of the worker pool,
  sequences of limiter operations, and for one API request arbitrary changes by others that
  keep their own accounts (\<open>fair_others\<close>).

  \<^bold>\<open>Fuel.\<close> Loops that depend on the outside take fuel, and the theorems say how much is enough:
  \<^verbatim>\<open>Acquire\<close> one poll per 10 ms of queue time and one more, a scan one round per address and one
  more, \<^verbatim>\<open>cleanup\<close> one batch per address and one more, \<^verbatim>\<open>retry-failed\<close> one round per open
  record and one more. The worker pool is bounded by the interactions of its tasks.

  \<^bold>\<open>Not modelled.\<close> Log lines, the listener and the HTTP multiplexer beyond the table of routes,
  the single connections of the pool, contexts and deadlines except where a wait is cancelled,
  TLS, the ranges of the columns \<^verbatim>\<open>BIGINT\<close> and \<^verbatim>\<open>INTEGER\<close>, and other processes writing to
  the same database. The outcome of the goroutines is the parameter \<open>serve\<close> of
  \<^verbatim>\<open>runService\<close>; \<^verbatim>\<open>Serving\<close> says which outcomes there are.
\<close>

section \<open>The database through the life of the program\<close>

text \<open>
  The databases the program can produce: from the empty schema, by any sequence of commands,
  each one in an environment of its own, whether it succeeds or fails.
\<close>

inductive produced :: "db \<Rightarrow> bool" where
  Fresh: "produced empty_db"
| Imported: "produced d \<Longrightarrow> importCSV E ul path opened batch d = (r, d') \<Longrightarrow> produced d'"
| Scanned: "produced d \<Longrightarrow> runScan n V ctx w c d = Some (r, st) \<Longrightarrow> produced (ss_db st)"
| Retried: "produced d \<Longrightarrow> retryFailed n V ctx w c d = Some (r, st) \<Longrightarrow> produced (ss_db st)"
| Cleaned: "produced d \<Longrightarrow> runCleanupWith n E clock days limit d = Some (r, d') \<Longrightarrow> produced d'"
| Served: "produced d \<Longrightarrow>
    runService E clock env (cr :: (octets, octets) crypto) batch c serve d = Some (r, d') \<Longrightarrow> produced d'"
| Shown: "produced d \<Longrightarrow> printStatus E d = (r, d') \<Longrightarrow> produced d'"
| Exported: "produced d \<Longrightarrow> ExportFindings E fmt d = (r, d') \<Longrightarrow> produced d'"

lemma produced_ok:
  assumes "produced d"
  shows "db_ok d"
  using assms
proof (induction rule: produced.induct)
  case Fresh
  then show ?case by (rule db_ok_empty)
next
  case (Imported d E ul path opened batch r d')
  then show ?case using goodD [OF good_importCSV] by (metis snd_conv)
next
  case (Scanned d n V ctx w c r st)
  then show ?case by (auto intro: runScan_ok)
next
  case (Retried d n V ctx w c r st)
  then show ?case by (auto intro: retryFailed_ok)
next
  case (Cleaned d n E clock days limit r d')
  then show ?case by (auto simp: runCleanupWith_def intro: cleanup_loop_ok)
next
  case (Served d E clock env cr batch c serve r d')
  then show ?case by (auto intro: runService_ok)
next
  case (Shown d E r d')
  have "good (printStatus E)" unfolding printStatus_def by (intro good_rules)
  from goodD [OF this Shown.IH] Shown.hyps show ?case by (metis snd_conv)
next
  case (Exported d E fmt r d')
  have "good (ExportFindings E fmt)" by (intro good_rules)
  from goodD [OF this Exported.IH] Exported.hyps show ?case by (metis snd_conv)
qed

text \<open>
  The same with what the scans have found: \<open>H\<close> is the history of all results of the commands
  \<^verbatim>\<open>scan\<close>, each with the scanner that found it. Scans run with an accepted configuration, and
  what their providers answer is valid (a result or an error).
\<close>

inductive lived :: "(scanner \<times> address_result) list \<Rightarrow> db \<Rightarrow> bool" where
  Born: "lived [] empty_db"
| Live_import: "lived H d \<Longrightarrow> importCSV E ul path opened batch d = (r, d') \<Longrightarrow> lived H d'"
| Live_scan: "lived H d \<Longrightarrow> Load quote getenv = Inr c \<Longrightarrow> valid_schedules V \<Longrightarrow>
    buildScanner c ctx w = ((s, h), outbox) \<Longrightarrow> runScan n V ctx w c d = Some (r, st) \<Longrightarrow>
    lived (H @ map (Pair s) (ss_done st)) (ss_db st)"
| Live_retry: "lived H d \<Longrightarrow> retryFailed n V ctx w c d = Some (r, st) \<Longrightarrow> lived H (ss_db st)"
| Live_cleanup: "lived H d \<Longrightarrow> runCleanupWith n E clock days limit d = Some (r, d') \<Longrightarrow> lived H d'"
| Live_serve: "lived H d \<Longrightarrow>
    runService E clock env (cr :: (octets, octets) crypto) batch c serve d = Some (r, d') \<Longrightarrow> lived H d'"
| Live_show: "lived H d \<Longrightarrow> printStatus E d = (r, d') \<Longrightarrow> lived H d'"
| Live_export: "lived H d \<Longrightarrow> ExportFindings E fmt d = (r, d') \<Longrightarrow> lived H d'"

lemma lived_produced: "lived H d \<Longrightarrow> produced d"
  by (induction rule: lived.induct) (blast intro: produced.intros)+

lemma lived_inv:
  assumes "lived H d"
  shows "ends_ok d \<and> none_skipped H d"
  using assms
proof (induction rule: lived.induct)
  case Born
  then show ?case by (simp add: ends_ok_def none_skipped_def empty_db_def)
next
  case (Live_scan H d quote getenv c V ctx w s h outbox n r st)
  from runScan_none_skipped [OF produced_ok [OF lived_produced [OF Live_scan(1)]]] Live_scan
  show ?case by blast
qed (meson still_none_skipped produced_ok lived_produced still_commands)+

text \<open>
  C1: no address is ever skipped. After any sequence of commands (imports, scans, retries,
  cleanups, services and reads), each with faults of its own, an address that lies behind the
  position of some run (its cursor, or the end of its range once it is completed) has been
  checked by one of the scans, and the outcome, which the answers of the providers explain, is
  in the database: a finding for every positive balance, and an entry of the retry queue for
  every chain that gave no answer.
\<close>

theorem no_address_skipped:
  assumes "lived H d" and "q \<in> set (runs d)" and "a \<in> set (addresses d)"
    and "wa_id a \<le> progress (rr_run q)"
  shows "\<exists>(s, r) \<in> set H. ar_address r = to_address a \<and> explained s r \<and>
    (\<forall>f \<in> set (ar_findings r). finding_at d (fi_key f) \<noteq> None) \<and>
    (\<forall>e \<in> set (ar_errors r). queued (wa_id a, sf_chain e) d)"
  using lived_inv [OF assms(1)] assms(2-4) unfolding none_skipped_def accounted_def by blast

theorem no_address_skipped_witness:
  "\<exists>(st :: scan_state) (a :: wallet_row) s r. lived (map (Pair sample_scanner) (ss_done st)) (ss_db st) \<and> a \<in> set (addresses (ss_db st)) \<and>
     (s, r) \<in> set (map (Pair sample_scanner) (ss_done st)) \<and> ar_address r = to_address a \<and> explained s r"
proof -
  from sol_scan obtain st where st: "runScan 2 good_scan [] sample_wecom sample_config sol_db = Some (Inr (), st) \<and>
     map (run_cursor \<circ> rr_run) (runs (ss_db st)) = [1] \<and> map wa_id (addresses (ss_db st)) = [1]" ..
  note run = st [THEN conjunct1] and c = st [THEN conjunct2]
  have "lived [] sol_db"
    by (rule lived.Live_import [OF lived.Born sol_import])
  from lived.Live_scan [OF this sample_loads [of id] scan_samples_valid(1) sample_built run]
  have l: "lived (map (Pair sample_scanner) (ss_done st)) (ss_db st)" by simp
  from c obtain q a where q: "q \<in> set (runs (ss_db st))" "run_cursor (rr_run q) = 1"
    and a: "a \<in> set (addresses (ss_db st))" "wa_id a = 1"
    by (auto simp: map_eq_Cons_conv)
  have "db_ok (ss_db st)" by (rule produced_ok [OF lived_produced [OF l]])
  with q have "wa_id a \<le> progress (rr_run q)"
    using a(2) by (auto simp: progress_def db_ok_def runs_ok_def run_ok_def)
  from no_address_skipped [OF l q(1) a(1) this] obtain s r where
    "(s, r) \<in> set (map (Pair sample_scanner) (ss_done st))" "ar_address r = to_address a" "explained s r"
    by auto
  with l a(1) show ?thesis
    by (intro exI [of _ st] exI [of _ a] exI [of _ s] exI [of _ r] conjI)
qed



end
